(* ===== verification/Prelude.thy ===== *)
theory Prelude
  imports Main "HOL-Library.Word" "HOL-Library.Sublist"
begin

unbundle bit_operations_syntax

text \<open>
  Shared vocabulary of the mbx-cache development: machine integers at their Rust widths, Rust's
  \<open>Result\<close> as a sum type, the state-and-error monad the request handlers are written in with its
  Hoare-style rules, the parts of Rust's \<open>core\<close> that the sources use on integers (checked and
  saturating arithmetic, big-endian bytes, decimal printing and parsing) and on strings
  (\<open>split\<close>, \<open>strip_prefix\<close>, \<open>strip_suffix\<close>, \<open>trim_matches\<close>).

  A Rust \<open>String\<close> is the list of its UTF-8 bytes as HOL characters, so \<open>length\<close> is Rust's \<open>len\<close>;
  every separator the sources search for is ASCII, which makes the byte-wise functions below agree
  with Rust's character-wise ones.
\<close>

section \<open>Machine integers\<close>

type_synonym u8 = "8 word"
type_synonym u32 = "32 word"
type_synonym u64 = "64 word"
type_synonym bytes = "8 word list"

named_theorems result_simps \<open>rewriting of results and of the handler monad\<close>
named_theorems keeps_intros \<open>compositional rules for state invariants of handlers\<close>

lemma unat_u8_lt [simp]: "unat (b :: u8) < 256"
  using unsigned_less [of b, where ?'a = nat] by simp

lemma unat_u64_lt [simp]: "unat (w :: u64) < 18446744073709551616"
  using unsigned_less [of w, where ?'a = nat] by simp

definition checked_add :: "u64 \<Rightarrow> u64 \<Rightarrow> u64 option" where
  "checked_add a b = (if unat a + unat b < 2 ^ 64 then Some (a + b) else None)"

definition div_ceil :: "nat \<Rightarrow> nat \<Rightarrow> nat" where
  "div_ceil a b = a div b + (if 0 < a mod b then 1 else 0)"

lemma unat_add_no_overflow:
  fixes a b :: u64
  assumes "unat a + unat b < 2 ^ 64"
  shows "unat (a + b) = unat a + unat b"
  using assms by (simp add: unat_word_ariths)

lemma checked_add_eq_Some [result_simps]:
  "checked_add a b = Some c \<longleftrightarrow> unat c = unat a + unat b"
proof (cases "unat a + unat b < 2 ^ 64")
  case True
  then show ?thesis by (auto simp: checked_add_def unat_word_ariths word_unat_eq_iff)
next
  case False
  then have "2 ^ 64 \<le> unat a + unat b" by simp
  moreover have "unat c < 2 ^ 64" by simp
  ultimately have "unat c \<noteq> unat a + unat b" by (metis not_less)
  with False show ?thesis by (simp add: checked_add_def)
qed

lemma checked_add_eq_None [result_simps]:
  "checked_add a b = None \<longleftrightarrow> 2 ^ 64 \<le> unat a + unat b"
  by (simp add: checked_add_def)

lemma div_ceil_bounds:
  assumes "0 < b"
  shows "a \<le> div_ceil a b * b" and "div_ceil a b * b < a + b"
proof -
  have a: "a = a div b * b + a mod b" by simp
  have m: "a mod b < b" using assms by simp
  have e: "div_ceil a b * b = (if 0 < a mod b then a div b * b + b else a div b * b)"
    by (simp add: div_ceil_def algebra_simps)
  show "a \<le> div_ceil a b * b" using a m unfolding e by (split if_split) linarith
  show "div_ceil a b * b < a + b" using a m assms unfolding e by (split if_split) linarith
qed

lemma div_ceil_mono: "0 < b \<Longrightarrow> a \<le> a' \<Longrightarrow> div_ceil a b \<le> div_ceil a' b"
proof -
  assume b: "0 < b" and a: "a \<le> a'"
  have "a' \<le> div_ceil a' b * b" using b by (rule div_ceil_bounds)
  with a have "a \<le> div_ceil a' b * b" by simp
  moreover have "div_ceil a b * b < a + b" using b by (rule div_ceil_bounds)
  ultimately have "div_ceil a b * b < (div_ceil a' b + 1) * b" by (simp add: algebra_simps)
  with b show ?thesis by (simp only: mult_less_cancel2) simp
qed

subsection \<open>Big-endian bytes\<close>

text \<open>\<open>u64::to_be_bytes\<close> and \<open>u64::from_be_bytes\<close>, over digits in base 256.\<close>

definition to_be_bytes :: "u64 \<Rightarrow> bytes" where
  "to_be_bytes w = map (\<lambda>i. of_nat (unat w div 256 ^ i)) (rev [0..<8])"

definition be_value :: "bytes \<Rightarrow> nat" where
  "be_value bs = foldl (\<lambda>acc b. acc * 256 + unat b) 0 bs"

definition from_be_bytes :: "bytes \<Rightarrow> u64" where
  "from_be_bytes bs = of_nat (be_value bs)"

lemma length_to_be_bytes [simp]: "length (to_be_bytes w) = 8"
  by (simp add: to_be_bytes_def)

lemma unat_of_nat_byte: "unat (of_nat n :: u8) = n mod 256"
  by (simp add: unat_of_nat)

lemma be_value_digits:
  "be_value (map (\<lambda>i. of_nat (n div 256 ^ i)) (rev [0..<k])) = n mod 256 ^ k"
proof (induction k arbitrary: n)
  case 0
  then show ?case by (simp add: be_value_def)
next
  case (Suc k)
  have shift: "rev [0..<Suc k] = map Suc (rev [0..<k]) @ [0]"
    by (simp only: upt_conv_Cons [of 0 "Suc k"] map_Suc_upt [symmetric] rev.simps rev_map
        zero_less_Suc)
  have digits: "map (\<lambda>i. of_nat (n div 256 ^ i) :: u8) (map Suc (rev [0..<k]))
      = map (\<lambda>i. of_nat (n div 256 div 256 ^ i)) (rev [0..<k])"
    by (simp add: div_mult2_eq)
  have "be_value (map (\<lambda>i. of_nat (n div 256 ^ i)) (rev [0..<Suc k]))
      = (n div 256 mod 256 ^ k) * 256 + n mod 256"
    using Suc.IH [of "n div 256"]
    by (simp only: shift map_append digits be_value_def foldl_append)
      (simp add: unat_of_nat_byte)
  also have "\<dots> = n mod 256 ^ Suc k"
    by (simp add: mod_mult2_eq algebra_simps)
  finally show ?case .
qed

lemma from_to_be_bytes [simp]: "from_be_bytes (to_be_bytes w) = w"
proof -
  have "be_value (to_be_bytes w) = unat w mod 256 ^ 8"
    unfolding to_be_bytes_def by (rule be_value_digits)
  also have "\<dots> = unat w" by simp
  finally show ?thesis by (simp add: from_be_bytes_def)
qed

lemma be_value_snoc: "be_value (bs @ [b]) = be_value bs * 256 + unat b"
  by (simp add: be_value_def)

lemma be_value_bound: "be_value bs < 256 ^ length bs"
proof (induction bs rule: rev_induct)
  case Nil
  then show ?case by (simp add: be_value_def)
next
  case (snoc b bs)
  have "be_value bs * 256 + unat b < (be_value bs + 1) * 256"
    using unat_u8_lt [of b] unfolding add_mult_distrib by linarith
  also have "\<dots> \<le> 256 ^ length bs * 256" using snoc by (intro mult_le_mono1) simp
  finally show ?case by (simp add: be_value_snoc)
qed

lemma be_value_inj: "length as = length bs \<Longrightarrow> be_value as = be_value bs \<Longrightarrow> as = bs"
proof (induction as arbitrary: bs rule: rev_induct)
  case Nil
  then show ?case by simp
next
  case (snoc a as)
  from snoc.prems(1) obtain b bs' where bs: "bs = bs' @ [b]" and len: "length as = length bs'"
    by (cases bs rule: rev_cases) auto
  have small: "unat a < 256" "unat b < 256" by simp_all
  have eq: "be_value as * 256 + unat a = be_value bs' * 256 + unat b"
    using snoc.prems(2) by (simp add: bs be_value_snoc)
  from small eq have "unat a = unat b"
    by (metis mod_less mod_mult_self3)
  with eq have "be_value as = be_value bs'" by simp
  note \<open>unat a = unat b\<close> this
  with snoc.IH [OF len] show ?case by (simp add: bs word_unat_eq_iff)
qed

lemma to_from_be_bytes: "length bs = 8 \<Longrightarrow> to_be_bytes (from_be_bytes bs) = bs"
proof -
  assume len: "length bs = 8"
  have "be_value bs < 2 ^ 64" using be_value_bound [of bs] len by simp
  then have "unat (from_be_bytes bs) = be_value bs"
    by (simp add: from_be_bytes_def unat_of_nat)
  moreover have "be_value (to_be_bytes (from_be_bytes bs)) = unat (from_be_bytes bs) mod 256 ^ 8"
    unfolding to_be_bytes_def by (rule be_value_digits)
  moreover have "be_value bs mod 256 ^ 8 = be_value bs" using be_value_bound [of bs] len by simp
  ultimately show ?thesis using len by (intro be_value_inj) simp_all
qed

section \<open>Results\<close>

text \<open>
  \<open>Result<A, E>\<close> is \<open>'e + 'a\<close>, with \<open>Inl\<close> for \<open>Err\<close>; \<open>bind_r\<close> is the \<open>?\<close> operator, \<open>ok_or\<close> is
  \<open>Option::ok_or_else\<close>, \<open>map_err\<close> is \<open>Result::map_err\<close>, and \<open>check\<close> is an early return guarded by
  a condition.
\<close>

definition bind_r :: "'e + 'a \<Rightarrow> ('a \<Rightarrow> 'e + 'b) \<Rightarrow> 'e + 'b" where
  "bind_r r f = (case r of Inl e \<Rightarrow> Inl e | Inr x \<Rightarrow> f x)"

definition ok_or :: "'e \<Rightarrow> 'a option \<Rightarrow> 'e + 'a" where
  "ok_or e v = (case v of None \<Rightarrow> Inl e | Some x \<Rightarrow> Inr x)"

definition map_err :: "('e \<Rightarrow> 'f) \<Rightarrow> 'e + 'a \<Rightarrow> 'f + 'a" where
  "map_err g r = (case r of Inl e \<Rightarrow> Inl (g e) | Inr x \<Rightarrow> Inr x)"

definition check :: "bool \<Rightarrow> 'e \<Rightarrow> 'e + unit" where
  "check ok e = (if ok then Inr () else Inl e)"

lemma bind_r_simps [simp]:
  "bind_r (Inl e) f = Inl e"
  "bind_r (Inr x) f = f x"
  by (simp_all add: bind_r_def)

lemma ok_or_simps [simp]:
  "ok_or e None = Inl e"
  "ok_or e (Some x) = Inr x"
  by (simp_all add: ok_or_def)

lemma map_err_simps [simp]:
  "map_err g (Inl e) = Inl (g e)"
  "map_err g (Inr x) = Inr x"
  by (simp_all add: map_err_def)

lemma check_simps [simp]:
  "check True e = Inr ()"
  "check False e = Inl e"
  by (simp_all add: check_def)

lemma bind_r_eq_Inr [result_simps]:
  "bind_r r f = Inr y \<longleftrightarrow> (\<exists>x. r = Inr x \<and> f x = Inr y)"
  by (cases r) auto

lemma bind_r_eq_Inl [result_simps]:
  "bind_r r f = Inl e \<longleftrightarrow> r = Inl e \<or> (\<exists>x. r = Inr x \<and> f x = Inl e)"
  by (cases r) auto

lemma ok_or_eq [result_simps]:
  "ok_or e v = Inr x \<longleftrightarrow> v = Some x"
  "ok_or e v = Inl e' \<longleftrightarrow> v = None \<and> e = e'"
  by (cases v; auto)+

lemma map_err_eq [result_simps]:
  "map_err g r = Inr x \<longleftrightarrow> r = Inr x"
  "map_err g r = Inl e \<longleftrightarrow> (\<exists>e'. r = Inl e' \<and> e = g e')"
  by (cases r; auto)+

lemma check_eq [result_simps]:
  "check ok e = Inr u \<longleftrightarrow> ok"
  "check ok e = Inl e' \<longleftrightarrow> \<not> ok \<and> e = e'"
  by (cases ok; auto)+

text \<open>\<open>for x in xs { f(x)?; }\<close> over a state threaded through the loop.\<close>

fun fold_r :: "('x \<Rightarrow> 'a \<Rightarrow> 'e + 'a) \<Rightarrow> 'x list \<Rightarrow> 'a \<Rightarrow> 'e + 'a" where
  "fold_r f [] a = Inr a"
| "fold_r f (x # xs) a = bind_r (f x a) (fold_r f xs)"

lemma fold_r_append [simp]: "fold_r f (xs @ ys) a = bind_r (fold_r f xs a) (fold_r f ys)"
  by (induction xs arbitrary: a) (auto simp: bind_r_def split: sum.splits)

section \<open>The handler monad\<close>

text \<open>
  A request handler takes the server's state and returns a response or an error with the state it
  left behind: a failing handler keeps the effects it had before it failed.
\<close>

type_synonym ('s, 'e, 'a) comp = "'s \<Rightarrow> ('e + 'a) \<times> 's"

definition returnE :: "'a \<Rightarrow> ('s, 'e, 'a) comp" where
  "returnE x = (\<lambda>s. (Inr x, s))"

definition throwE :: "'e \<Rightarrow> ('s, 'e, 'a) comp" where
  "throwE e = (\<lambda>s. (Inl e, s))"

definition liftE :: "'e + 'a \<Rightarrow> ('s, 'e, 'a) comp" where
  "liftE r = (\<lambda>s. (r, s))"

definition modifyE :: "('s \<Rightarrow> 's) \<Rightarrow> ('s, 'e, unit) comp" where
  "modifyE f = (\<lambda>s. (Inr (), f s))"

definition bindE :: "('s, 'e, 'a) comp \<Rightarrow> ('a \<Rightarrow> ('s, 'e, 'b) comp) \<Rightarrow> ('s, 'e, 'b) comp" where
  "bindE m f = (\<lambda>s. case m s of (Inl e, s') \<Rightarrow> (Inl e, s') | (Inr x, s') \<Rightarrow> f x s')"

definition handleE :: "('s, 'e, 'a) comp \<Rightarrow> ('e \<Rightarrow> ('s, 'f, 'b) comp) \<Rightarrow> ('a \<Rightarrow> ('s, 'f, 'b) comp)
    \<Rightarrow> ('s, 'f, 'b) comp" where
  "handleE m h f = (\<lambda>s. case m s of (Inl e, s') \<Rightarrow> h e s' | (Inr x, s') \<Rightarrow> f x s')"

lemma returnE_apply [simp]: "returnE x s = (Inr x, s)" by (simp add: returnE_def)
lemma throwE_apply [simp]: "throwE e s = (Inl e, s)" by (simp add: throwE_def)
lemma liftE_apply [simp]: "liftE r s = (r, s)" by (simp add: liftE_def)
lemma modifyE_apply [simp]: "modifyE f s = (Inr (), f s)" by (simp add: modifyE_def)

lemma bindE_eq_Inr [result_simps]:
  "bindE m f s = (Inr y, t) \<longleftrightarrow> (\<exists>x u. m s = (Inr x, u) \<and> f x u = (Inr y, t))"
  by (auto simp: bindE_def split: prod.splits sum.splits)

lemma bindE_eq_Inl [result_simps]:
  "bindE m f s = (Inl e, t) \<longleftrightarrow> m s = (Inl e, t) \<or> (\<exists>x u. m s = (Inr x, u) \<and> f x u = (Inl e, t))"
  by (auto simp: bindE_def split: prod.splits sum.splits)

lemma bindE_run [simp]:
  "m s = (Inl e, t) \<Longrightarrow> bindE m f s = (Inl e, t)"
  "m s = (Inr x, t) \<Longrightarrow> bindE m f s = f x t"
  by (simp_all add: bindE_def)

lemma handleE_eq [result_simps]:
  "handleE m h f s = (r, t) \<longleftrightarrow>
    (\<exists>e u. m s = (Inl e, u) \<and> h e u = (r, t)) \<or> (\<exists>x u. m s = (Inr x, u) \<and> f x u = (r, t))"
  by (auto simp: handleE_def split: prod.splits sum.splits)

fun forE :: "'x list \<Rightarrow> ('x \<Rightarrow> ('s, 'e, unit) comp) \<Rightarrow> ('s, 'e, unit) comp" where
  "forE [] f = returnE ()"
| "forE (x # xs) f = bindE (f x) (\<lambda>_. forE xs f)"

subsection \<open>What a computation may do to the state\<close>

text \<open>
  \<open>moves R m\<close>: whatever \<open>m\<close> returns, it takes the state along \<open>R\<close>. With a reflexive and transitive
  \<open>R\<close> this composes, and covers both invariants (\<open>R s t = (I s \<longrightarrow> I t)\<close>) and frame conditions.
\<close>

definition moves :: "('s \<Rightarrow> 's \<Rightarrow> bool) \<Rightarrow> ('s, 'e, 'a) comp \<Rightarrow> bool" where
  "moves R m \<longleftrightarrow> (\<forall>s. R s (snd (m s)))"

definition preorder_rel :: "('s \<Rightarrow> 's \<Rightarrow> bool) \<Rightarrow> bool" where
  "preorder_rel R \<longleftrightarrow> reflp R \<and> transp R"

lemma preorder_relI [intro?]:
  "(\<And>s. R s s) \<Longrightarrow> (\<And>s t u. R s t \<Longrightarrow> R t u \<Longrightarrow> R s u) \<Longrightarrow> preorder_rel R"
  by (auto simp: preorder_rel_def intro: reflpI transpI)

lemma preorder_rel_refl: "preorder_rel R \<Longrightarrow> R s s"
  by (simp add: preorder_rel_def reflpD)

lemma preorder_rel_trans: "preorder_rel R \<Longrightarrow> R s t \<Longrightarrow> R t u \<Longrightarrow> R s u"
  by (auto simp: preorder_rel_def dest: transpD)

lemma preorder_invariant [simp]: "preorder_rel (\<lambda>s t. I s \<longrightarrow> I t)"
  by (rule preorder_relI) auto

lemma moves_step: "moves R m \<Longrightarrow> m s = (r, t) \<Longrightarrow> R s t"
  by (metis moves_def snd_conv)

lemma moves_return [keeps_intros]: "preorder_rel R \<Longrightarrow> moves R (returnE x)"
  by (simp add: moves_def preorder_rel_refl)

lemma moves_throw [keeps_intros]: "preorder_rel R \<Longrightarrow> moves R (throwE e)"
  by (simp add: moves_def preorder_rel_refl)

lemma moves_lift [keeps_intros]: "preorder_rel R \<Longrightarrow> moves R (liftE r)"
  by (simp add: moves_def preorder_rel_refl)

lemma moves_modify [keeps_intros]: "(\<And>s. R s (f s)) \<Longrightarrow> moves R (modifyE f)"
  by (simp add: moves_def)

lemma moves_handle [keeps_intros]:
  assumes R: "preorder_rel R" and m: "moves R m"
    and h: "\<And>e. moves R (h e)" and f: "\<And>x. moves R (f x)"
  shows "moves R (handleE m h f)"
  unfolding moves_def
proof
  fix s
  obtain r t where run: "m s = (r, t)" by fastforce
  have st: "R s t" using m run by (rule moves_step)
  have "R t (snd (case r of Inl e \<Rightarrow> h e t | Inr x \<Rightarrow> f x t))"
    using h f by (auto simp: moves_def split: sum.splits)
  with R st have "R s (snd (case r of Inl e \<Rightarrow> h e t | Inr x \<Rightarrow> f x t))"
    by (rule preorder_rel_trans)
  with run show "R s (snd (handleE m h f s))" by (simp add: handleE_def)
qed

lemma bindE_handleE: "bindE m f = handleE m throwE f"
  by (auto simp: bindE_def handleE_def fun_eq_iff split: prod.splits sum.splits)

lemma moves_bind [keeps_intros]:
  "preorder_rel R \<Longrightarrow> moves R m \<Longrightarrow> (\<And>x. moves R (f x)) \<Longrightarrow> moves R (bindE m f)"
  unfolding bindE_handleE by (intro moves_handle moves_throw)

text \<open>When the continuation only has to behave on the values the first part can return.\<close>

lemma moves_bind_result:
  assumes "preorder_rel R" and m: "moves R m" and f: "\<And>w x v. m w = (Inr x, v) \<Longrightarrow> moves R (f x)"
  shows "moves R (bindE m f)"
  unfolding moves_def
proof
  fix s
  obtain r t where run: "m s = (r, t)" by fastforce
  have st: "R s t" using m run by (rule moves_step)
  show "R s (snd (bindE m f s))"
  proof (cases r)
    case (Inl e)
    with run st show ?thesis by simp
  next
    case (Inr x)
    with run have "R t (snd (f x t))" using f [of s x t] by (simp add: moves_def)
    with st have "R s (snd (f x t))" by (rule preorder_rel_trans [OF assms(1)])
    with run Inr show ?thesis by simp
  qed
qed

lemma moves_for [keeps_intros]:
  "preorder_rel R \<Longrightarrow> (\<And>x. moves R (f x)) \<Longrightarrow> moves R (forE xs f)"
  by (induction xs) (auto intro: keeps_intros)

lemma moves_if [keeps_intros]:
  "moves R m \<Longrightarrow> moves R n \<Longrightarrow> moves R (if b then m else n)"
  by simp

lemma moves_case_option [keeps_intros]:
  "moves R m \<Longrightarrow> (\<And>x. moves R (f x)) \<Longrightarrow> moves R (case v of None \<Rightarrow> m | Some x \<Rightarrow> f x)"
  by (cases v) auto

lemma moves_case_sum [keeps_intros]:
  "(\<And>e. moves R (g e)) \<Longrightarrow> (\<And>x. moves R (f x)) \<Longrightarrow> moves R (case r of Inl e \<Rightarrow> g e | Inr x \<Rightarrow> f x)"
  by (cases r) auto

section \<open>Strings\<close>

definition is_ascii_digit :: "char \<Rightarrow> bool" where
  "is_ascii_digit c \<longleftrightarrow> (48::nat) \<le> of_char c \<and> of_char c \<le> (57::nat)"

definition is_ascii_alphanumeric :: "char \<Rightarrow> bool" where
  "is_ascii_alphanumeric c \<longleftrightarrow> is_ascii_digit c
     \<or> (65::nat) \<le> of_char c \<and> of_char c \<le> (90::nat)
     \<or> (97::nat) \<le> of_char c \<and> of_char c \<le> (122::nat)"

definition is_lower_hex :: "char \<Rightarrow> bool" where
  "is_lower_hex c \<longleftrightarrow> is_ascii_digit c \<or> (97::nat) \<le> of_char c \<and> of_char c \<le> (102::nat)"

text \<open>\<open>str::split(c)\<close> keeps empty components; \<open>split_once\<close> splits at the first occurrence.\<close>

fun split_on :: "char \<Rightarrow> string \<Rightarrow> string list" where
  "split_on c [] = [[]]"
| "split_on c (x # xs) =
     (if x = c then [] # split_on c xs
      else (case split_on c xs of [] \<Rightarrow> [[x]] | w # ws \<Rightarrow> (x # w) # ws))"

definition split_once :: "char \<Rightarrow> string \<Rightarrow> (string \<times> string) option" where
  "split_once c s = (if c \<in> set s
     then Some (takeWhile (\<lambda>x. x \<noteq> c) s, tl (dropWhile (\<lambda>x. x \<noteq> c) s)) else None)"

definition strip_prefix :: "string \<Rightarrow> string \<Rightarrow> string option" where
  "strip_prefix p s = (if take (length p) s = p then Some (drop (length p) s) else None)"

definition strip_suffix :: "string \<Rightarrow> string \<Rightarrow> string option" where
  "strip_suffix p s = (if length p \<le> length s \<and> drop (length s - length p) s = p
     then Some (take (length s - length p) s) else None)"

definition trim_end_matches :: "char \<Rightarrow> string \<Rightarrow> string" where
  "trim_end_matches c s = rev (dropWhile (\<lambda>x. x = c) (rev s))"

definition trim_matches :: "char \<Rightarrow> string \<Rightarrow> string" where
  "trim_matches c s = trim_end_matches c (dropWhile (\<lambda>x. x = c) s)"

fun join_with :: "char \<Rightarrow> string list \<Rightarrow> string" where
  "join_with c [] = []"
| "join_with c [w] = w"
| "join_with c (w # v # ws) = w @ c # join_with c (v # ws)"

lemma split_on_nonempty [simp]: "split_on c s \<noteq> []"
  by (cases s) (auto split: list.splits)

lemma join_split_on: "join_with c (split_on c s) = s"
proof (induction s)
  case Nil
  then show ?case by simp
next
  case (Cons x xs)
  then show ?case
    by (cases "split_on c xs"; cases "tl (split_on c xs)") (auto split: list.splits)
qed

lemma split_on_no_sep: "w \<in> set (split_on c s) \<Longrightarrow> c \<notin> set w"
  by (induction s arbitrary: w) (auto split: if_splits list.splits)

lemma split_on_chars: "w \<in> set (split_on c s) \<Longrightarrow> set w \<subseteq> set s"
proof (induction s arbitrary: w)
  case Nil
  then show ?case by simp
next
  case (Cons x xs)
  obtain v vs where v: "split_on c xs = v # vs" by (cases "split_on c xs") auto
  have IH: "set u \<subseteq> set xs" if "u = v \<or> u \<in> set vs" for u using Cons.IH [of u] that v by auto
  show ?case using Cons.prems v IH [of w] IH [of v] by (auto split: if_splits)
qed

lemma strip_prefix_Some [result_simps]: "strip_prefix p s = Some r \<longleftrightarrow> s = p @ r"
  by (auto simp: strip_prefix_def) (metis append_take_drop_id)

lemma strip_suffix_Some [result_simps]: "strip_suffix p s = Some r \<longleftrightarrow> s = r @ p"
  by (auto simp: strip_suffix_def) (metis append_take_drop_id)

lemma split_once_Some:
  "split_once c s = Some (a, b) \<longleftrightarrow> s = a @ c # b \<and> c \<notin> set a"
proof
  assume L: "split_once c s = Some (a, b)"
  then have c: "c \<in> set s" and a: "a = takeWhile (\<lambda>x. x \<noteq> c) s"
    and b: "b = tl (dropWhile (\<lambda>x. x \<noteq> c) s)"
    by (auto simp: split_once_def split: if_splits)
  have ne: "dropWhile (\<lambda>x. x \<noteq> c) s \<noteq> []" using c by (simp add: dropWhile_eq_Nil_conv)
  then have "hd (dropWhile (\<lambda>x. x \<noteq> c) s) = c" using hd_dropWhile by blast
  with ne b have "dropWhile (\<lambda>x. x \<noteq> c) s = c # b" by (metis list.collapse)
  with a have "s = a @ c # b" by (metis takeWhile_dropWhile_id)
  moreover have "c \<notin> set a" using a set_takeWhileD by fastforce
  ultimately show "s = a @ c # b \<and> c \<notin> set a" by simp
next
  assume "s = a @ c # b \<and> c \<notin> set a"
  then have s: "s = a @ c # b" and a: "\<forall>x \<in> set a. x \<noteq> c" by auto
  show "split_once c s = Some (a, b)"
    using a by (auto simp: split_once_def s takeWhile_append dropWhile_append)
qed

subsection \<open>Decimal numbers\<close>

text \<open>\<open>u64::to_string\<close>, and \<open>str::parse::<u64>\<close>: an optional \<open>+\<close>, then at least one digit, with
  overflow refused.\<close>

definition digit_char :: "nat \<Rightarrow> char" where
  "digit_char d = char_of (48 + d)"

fun nat_to_string :: "nat \<Rightarrow> string" where
  "nat_to_string n =
     (if n < 10 then [digit_char n] else nat_to_string (n div 10) @ [digit_char (n mod 10)])"

declare nat_to_string.simps [simp del]

definition decimal_value :: "string \<Rightarrow> nat" where
  "decimal_value s = foldl (\<lambda>acc c. acc * 10 + (of_char c - 48)) 0 s"

definition parse_u64 :: "string \<Rightarrow> u64 option" where
  "parse_u64 s =
     (let ds = (case s of c # (d # ds) \<Rightarrow> if c = CHR ''+'' then d # ds else s | _ \<Rightarrow> s)
      in if ds \<noteq> [] \<and> list_all is_ascii_digit ds \<and> decimal_value ds < 2 ^ 64
         then Some (of_nat (decimal_value ds)) else None)"

lemma of_char_digit_char: "d < 10 \<Longrightarrow> (of_char (digit_char d) :: nat) = 48 + d"
  by (simp add: digit_char_def of_char_of)

lemma is_ascii_digit_digit_char: "d < 10 \<Longrightarrow> is_ascii_digit (digit_char d)"
  by (simp add: is_ascii_digit_def of_char_digit_char)

lemma nat_to_string_digits: "list_all is_ascii_digit (nat_to_string n) \<and> nat_to_string n \<noteq> []"
proof (induction n rule: nat_to_string.induct)
  case (1 n)
  then show ?case
    by (cases "n < 10"; subst (1 2) nat_to_string.simps) (simp_all add: is_ascii_digit_digit_char)
qed

lemma decimal_value_nat_to_string [simp]: "decimal_value (nat_to_string n) = n"
proof (induction n rule: nat_to_string.induct)
  case (1 n)
  show ?case
  proof (cases "n < 10")
    case True
    then show ?thesis
      by (subst nat_to_string.simps) (simp add: decimal_value_def of_char_digit_char)
  next
    case False
    with 1 have IH: "decimal_value (nat_to_string (n div 10)) = n div 10" by simp
    have "decimal_value (nat_to_string n) = n div 10 * 10 + n mod 10"
      using False IH
      by (subst nat_to_string.simps) (simp add: decimal_value_def of_char_digit_char)
    then show ?thesis by simp
  qed
qed

lemma nat_to_string_inj [simp]: "nat_to_string m = nat_to_string n \<longleftrightarrow> m = n"
  by (metis decimal_value_nat_to_string)

lemma nat_to_string_no_char:
  "\<not> is_ascii_digit c \<Longrightarrow> c \<notin> set (nat_to_string n)"
  using nat_to_string_digits [of n] by (auto simp: list_all_iff)

lemma parse_nat_to_string: "parse_u64 (nat_to_string (unat w)) = Some w"
proof -
  have d: "list_all is_ascii_digit (nat_to_string (unat w))" and ne: "nat_to_string (unat w) \<noteq> []"
    using nat_to_string_digits by blast+
  have plus: "\<not> is_ascii_digit (CHR ''+'')" by (simp add: is_ascii_digit_def)
  obtain c cs where cs: "nat_to_string (unat w) = c # cs" using ne by (cases "nat_to_string (unat w)") auto
  with d plus have "c \<noteq> CHR ''+''" by auto
  with cs have "(case nat_to_string (unat w) of
      c # (d # ds) \<Rightarrow> if c = CHR ''+'' then d # ds else nat_to_string (unat w)
    | _ \<Rightarrow> nat_to_string (unat w)) = nat_to_string (unat w)"
    by (auto split: list.splits)
  with d ne show ?thesis
    unfolding parse_u64_def Let_def by (simp only: decimal_value_nat_to_string) simp
qed

end
