(* ===== verification/Protocol.thy ===== *)
theory Protocol
  imports Prelude
begin

text \<open>
  The wire types and constants the server takes from the \<open>mbx_cache_protocol\<close> crate, and the \<open>hex\<close>
  crate. Neither is part of the repository: the data types below are the ones \<open>src/model.rs\<close>
  re-exports, with the fields the sources construct and read, and the functions of those crates are
  the fields of the record \<open>protocol\<close>, an argument of every definition that calls them.
  \<open>protocol_ok\<close> states what their documentation (and the repository's README and tests) promise;
  \<open>reference_protocol\<close> is an instance that satisfies it, for concrete evaluations.
\<close>

section \<open>Data\<close>

datatype algorithm = Blake3 | Sha256

record digest =
  d_algorithm :: string
  d_hash :: string
  d_size :: u64

record action_result =
  ar_action :: digest
  ar_metadata :: "digest option"
  ar_output_root :: "digest option"
  ar_version :: u8

record directory_node =
  dn_name :: string
  dn_mode :: u32
  dn_digest :: digest

record file_node =
  fn_name :: string
  fn_mode :: u32
  fn_executable :: bool
  fn_digest :: digest

record symlink_node =
  sn_name :: string
  sn_mode :: u32
  sn_target :: string

record directory =
  dir_directories :: "directory_node list"
  dir_files :: "file_node list"
  dir_symlinks :: "symlink_node list"
  dir_version :: u8

record action_prediction =
  ap_action :: digest
  ap_adapter :: string
  ap_invocation :: digest
  ap_payload :: string

record task_action_manifest =
  tm_predictions :: "action_prediction list"
  tm_task :: string
  tm_version :: u8

text \<open>\<open>RustcMetadata\<close> and \<open>CcMetadata\<close>: the server reads the two blobs they name.\<close>

record output_metadata =
  om_version :: u8
  om_kind :: string
  om_stdout :: digest
  om_stderr :: digest

section \<open>The crates' functions\<close>

record protocol =
  blob_pack_magic :: bytes
  blob_pack_header_bytes :: nat
  max_batch_items :: nat
  algorithm_name :: "algorithm \<Rightarrow> string"
  algorithm_kind :: "digest \<Rightarrow> string + algorithm"
  digest_validate :: "digest \<Rightarrow> string + unit"
  digest_key :: "digest \<Rightarrow> string"
  hex_encode :: "bytes \<Rightarrow> string"
  hex_decode :: "string \<Rightarrow> string + bytes"

abbreviation digest_ok :: "protocol \<Rightarrow> digest \<Rightarrow> bool" where
  "digest_ok P d \<equiv> digest_validate P d = Inr ()"

definition lower_hex_string :: "string \<Rightarrow> bool" where
  "lower_hex_string s \<longleftrightarrow> list_all is_lower_hex s"

text \<open>
  Documented behaviour. A pack starts with an eight-byte magic and its frame header is a tag, a raw
  32-byte hash and a big-endian \<open>u64\<close> (README.md, ``Servers advertising features.blob_packs''); the
  two algorithms are named \<open>blake3\<close> and \<open>sha256\<close> (the same section, and the CHECK constraints of
  the migrations); a digest is valid when its algorithm is known and its hash is 64 lowercase hex
  digits (the test \<open>validates_lowercase_hex_digests\<close>); \<open>hex\<close> writes two lowercase digits per byte and
  reads back what it wrote.
\<close>

definition protocol_ok :: "protocol \<Rightarrow> bool" where
  "protocol_ok P \<longleftrightarrow>
     length (blob_pack_magic P) = 8 \<and> blob_pack_header_bytes P = 41 \<and>
     algorithm_name P Blake3 = ''blake3'' \<and> algorithm_name P Sha256 = ''sha256'' \<and>
     (\<forall>d a. algorithm_kind P d = Inr a \<longleftrightarrow> d_algorithm d = algorithm_name P a) \<and>
     (\<forall>d. digest_ok P d \<longleftrightarrow> (\<exists>a. algorithm_kind P d = Inr a)
        \<and> length (d_hash d) = 64 \<and> lower_hex_string (d_hash d)) \<and>
     (\<forall>bs. length (hex_encode P bs) = 2 * length bs \<and> lower_hex_string (hex_encode P bs)
        \<and> hex_decode P (hex_encode P bs) = Inr bs) \<and>
     (\<forall>s. even (length s) \<and> lower_hex_string s \<longrightarrow>
        (\<exists>bs. hex_decode P s = Inr bs \<and> hex_encode P bs = s))"

lemma protocol_sizes:
  assumes "protocol_ok P"
  shows "length (blob_pack_magic P) = 8" and "blob_pack_header_bytes P = 41"
  using assms by (simp_all add: protocol_ok_def)

lemma algorithm_kind_iff:
  "protocol_ok P \<Longrightarrow> algorithm_kind P d = Inr a \<longleftrightarrow> d_algorithm d = algorithm_name P a"
  by (simp add: protocol_ok_def)

lemma algorithm_name_inj:
  "protocol_ok P \<Longrightarrow> algorithm_name P a = algorithm_name P b \<longleftrightarrow> a = b"
  by (cases a; cases b) (simp_all add: protocol_ok_def)

lemma digest_ok_iff:
  "protocol_ok P \<Longrightarrow> digest_ok P d \<longleftrightarrow> (\<exists>a. algorithm_kind P d = Inr a)
     \<and> length (d_hash d) = 64 \<and> lower_hex_string (d_hash d)"
  unfolding protocol_ok_def by blast

lemma digest_ok_algorithm:
  assumes "protocol_ok P" and "digest_ok P d"
  obtains a where "algorithm_kind P d = Inr a"
  using assms by (auto simp: digest_ok_iff)

lemma hex_facts:
  assumes "protocol_ok P"
  shows "length (hex_encode P bs) = 2 * length bs" and "lower_hex_string (hex_encode P bs)"
    and "hex_decode P (hex_encode P bs) = Inr bs"
  using assms by (simp_all add: protocol_ok_def)

lemma hex_decode_lower:
  assumes "protocol_ok P" and "even (length s)" and "lower_hex_string s"
  obtains bs where "hex_decode P s = Inr bs" and "hex_encode P bs = s"
    and "length s = 2 * length bs"
proof -
  from assms obtain bs where bs: "hex_decode P s = Inr bs" "hex_encode P bs = s"
    unfolding protocol_ok_def by blast
  with hex_facts(1) [OF assms(1), of bs] have "length s = 2 * length bs" by simp
  with bs show thesis by (rule that)
qed

lemma hex_encode_inj: "protocol_ok P \<Longrightarrow> hex_encode P as = hex_encode P bs \<longleftrightarrow> as = bs"
  by (metis Inr_inject hex_facts(3))

section \<open>An instance\<close>

definition hex_digit :: "nat \<Rightarrow> char" where
  "hex_digit n = (if n < 10 then char_of (48 + n) else char_of (87 + n))"

definition hex_value :: "char \<Rightarrow> nat option" where
  "hex_value c = (if is_lower_hex c
     then Some (if is_ascii_digit c then of_char c - 48 else of_char c - 87) else None)"

fun ref_hex_encode :: "bytes \<Rightarrow> string" where
  "ref_hex_encode [] = []"
| "ref_hex_encode (b # bs) =
     hex_digit (unat b div 16) # hex_digit (unat b mod 16) # ref_hex_encode bs"

fun ref_hex_decode :: "string \<Rightarrow> string + bytes" where
  "ref_hex_decode [] = Inr []"
| "ref_hex_decode [c] = Inl ''Odd number of digits''"
| "ref_hex_decode (c # d # s) =
     (case (hex_value c, hex_value d) of
        (Some h, Some l) \<Rightarrow> bind_r (ref_hex_decode s) (\<lambda>bs. Inr (of_nat (h * 16 + l) # bs))
      | _ \<Rightarrow> Inl ''Invalid character'')"

definition ref_algorithm_name :: "algorithm \<Rightarrow> string" where
  "ref_algorithm_name a = (case a of Blake3 \<Rightarrow> ''blake3'' | Sha256 \<Rightarrow> ''sha256'')"

definition ref_algorithm_kind :: "digest \<Rightarrow> string + algorithm" where
  "ref_algorithm_kind d =
     (if d_algorithm d = ''blake3'' then Inr Blake3
      else if d_algorithm d = ''sha256'' then Inr Sha256 else Inl ''unknown digest algorithm'')"

definition reference_protocol :: protocol where
  "reference_protocol = \<lparr>
     blob_pack_magic = map (\<lambda>c. of_char c) ''MBXPACK1'',
     blob_pack_header_bytes = 41, max_batch_items = 10000,
     algorithm_name = ref_algorithm_name,
     algorithm_kind = ref_algorithm_kind,
     digest_validate = (\<lambda>d. bind_r (ref_algorithm_kind d) (\<lambda>_.
        check (length (d_hash d) = 64 \<and> lower_hex_string (d_hash d)) ''invalid hash'')),
     digest_key = (\<lambda>d. d_algorithm d @ ''/'' @ d_hash d @ ''/'' @ nat_to_string (unat (d_size d))),
     hex_encode = ref_hex_encode, hex_decode = ref_hex_decode\<rparr>"

lemma hex_digit_facts:
  assumes "n < 16"
  shows "is_lower_hex (hex_digit n)" and "hex_value (hex_digit n) = Some n"
proof -
  have "n \<in> set [0..<16]" using assms by simp
  then have "is_lower_hex (hex_digit n) \<and> hex_value (hex_digit n) = Some n"
    by (simp add: upt_rec hex_digit_def hex_value_def is_lower_hex_def is_ascii_digit_def) auto
  then show "is_lower_hex (hex_digit n)" and "hex_value (hex_digit n) = Some n" by simp_all
qed

lemma hex_value_Some:
  assumes "hex_value c = Some n"
  shows "n < 16" and "hex_digit n = c"
proof -
  have c: "char_of (of_char c :: nat) = c" by simp
  from assms show "n < 16"
    by (auto simp: hex_value_def is_lower_hex_def is_ascii_digit_def split: if_splits)
  from assms show "hex_digit n = c"
    by (subst c [symmetric])
      (auto simp: hex_digit_def hex_value_def is_lower_hex_def is_ascii_digit_def split: if_splits)
qed

lemma ref_hex_encode_facts:
  "length (ref_hex_encode bs) = 2 * length bs" "lower_hex_string (ref_hex_encode bs)"
  "ref_hex_decode (ref_hex_encode bs) = Inr bs"
proof (induction bs)
  case Nil
  { case 1 show ?case by simp }
  { case 2 show ?case by (simp add: lower_hex_string_def) }
  { case 3 show ?case by simp }
next
  case (Cons b bs)
  have lo: "unat b div 16 < 16" "unat b mod 16 < 16"
    using unat_u8_lt [of b] by (simp_all add: less_mult_imp_div_less del: unat_u8_lt)
  { case 1 show ?case using Cons.IH by simp }
  { case 2 show ?case using Cons.IH lo by (simp add: lower_hex_string_def hex_digit_facts) }
  { case 3 show ?case using Cons.IH lo by (simp add: hex_digit_facts) }
qed

lemma ref_hex_decode_lower:
  "even (length s) \<Longrightarrow> lower_hex_string s \<Longrightarrow>
    \<exists>bs. ref_hex_decode s = Inr bs \<and> ref_hex_encode bs = s"
proof (induction s rule: ref_hex_decode.induct)
  case 1
  then show ?case by simp
next
  case (2 c)
  then show ?case by simp
next
  case (3 c d s)
  from 3(3) have "is_lower_hex c" "is_lower_hex d" "lower_hex_string s"
    by (simp_all add: lower_hex_string_def)
  then obtain h l where hl: "hex_value c = Some h" "hex_value d = Some l"
    by (auto simp: hex_value_def)
  have n: "h < 16" "l < 16" using hl hex_value_Some by blast+
  from 3(2) have "even (length s)" by simp
  have "\<exists>bs. ref_hex_decode s = Inr bs \<and> ref_hex_encode bs = s"
    by (rule 3(1) [OF _ hl(1) hl(2)]) (use \<open>even (length s)\<close> \<open>lower_hex_string s\<close> in simp_all)
  then obtain bs where bs: "ref_hex_decode s = Inr bs" "ref_hex_encode bs = s" by blast
  have u: "unat (of_nat (h * 16 + l) :: u8) = h * 16 + l"
    using n unat_of_nat_byte [of "h * 16 + l"] by (simp del: of_nat_add of_nat_mult)
  from bs hl n show ?case
    by (simp add: u del: of_nat_add of_nat_mult) (simp add: hex_value_Some(2) [OF hl(1)] hex_value_Some(2) [OF hl(2)])
qed

lemma reference_protocol_ok: "protocol_ok reference_protocol"
  unfolding protocol_ok_def
proof (intro conjI allI impI)
  fix d a
  show "(algorithm_kind reference_protocol d = Inr a)
      = (d_algorithm d = algorithm_name reference_protocol a)"
    by (cases a) (simp_all add: reference_protocol_def ref_algorithm_kind_def ref_algorithm_name_def)
next
  fix d
  show "digest_ok reference_protocol d =
      ((\<exists>a. algorithm_kind reference_protocol d = Inr a)
        \<and> length (d_hash d) = 64 \<and> lower_hex_string (d_hash d))"
    by (simp add: reference_protocol_def result_simps)
next
  fix s :: string
  assume "even (length s) \<and> lower_hex_string s"
  then show "\<exists>bs. hex_decode reference_protocol s = Inr bs \<and> hex_encode reference_protocol bs = s"
    by (simp add: reference_protocol_def ref_hex_decode_lower)
qed (simp_all add: reference_protocol_def ref_algorithm_name_def ref_hex_encode_facts)

end
