(* ===== verification/Pack.thy ===== *)
theory Pack
  imports Protocol
begin

text \<open>
  The blob-pack reader of \<open>src/pack.rs\<close>: a state machine over arbitrary chunk boundaries that turns
  the bytes of an uploaded pack into events. \<open>pack_iter\<close> is one round of the \<open>loop\<close> in
  \<open>PackReader::push\<close>, \<open>push\<close> the whole call. Slicing out of range and \<open>expect\<close> are the outcome
  \<open>Panicked\<close>, which \<open>push_no_panic\<close> excludes. Integers are \<open>u64\<close> words that wrap as in a release
  build; \<open>reader_ok\<close> carries the bound under which they do not.
\<close>

section \<open>State\<close>

datatype pack_event = Started digest | Payload bytes | Complete

datatype pack_error =
    E_Magic
  | E_Algorithm u8
  | E_Truncated
  | E_BlobTooLarge u64 u64
  | E_TooManyBlobs u64
  | E_TooManyBytes u64

datatype pack_failure = Failed pack_error | Panicked

datatype pack_state = S_Magic | S_Header | S_Payload

record pack_reader =
  pr_state :: pack_state
  pr_buffer :: bytes
  pr_max_blob_bytes :: u64
  pr_max_blobs :: u64
  pr_max_payload_bytes :: u64
  pr_blobs :: u64
  pr_payload_bytes :: u64
  pr_remaining :: u64

definition new_reader :: "u64 \<Rightarrow> u64 \<Rightarrow> u64 \<Rightarrow> pack_reader" where
  "new_reader max_blob_bytes max_blobs max_payload_bytes =
     \<lparr>pr_state = S_Magic, pr_buffer = [], pr_max_blob_bytes = max_blob_bytes,
      pr_max_blobs = max_blobs, pr_max_payload_bytes = max_payload_bytes,
      pr_blobs = 0, pr_payload_bytes = 0, pr_remaining = 0\<rparr>"

section \<open>Operations\<close>

text \<open>\<open>fill\<close>: buffer until \<open>wanted\<close> bytes are held; returns whether they are, and the rest.\<close>

definition fill :: "pack_reader \<Rightarrow> bytes \<Rightarrow> nat \<Rightarrow> bool \<times> pack_reader \<times> bytes" where
  "fill r rest wanted =
     (let n = (if length (pr_buffer r) < wanted
               then min (wanted - length (pr_buffer r)) (length rest) else 0);
          r' = r\<lparr>pr_buffer := pr_buffer r @ take n rest\<rparr>
      in (length (pr_buffer r') = wanted, r', drop n rest))"

text \<open>\<open>parse_header\<close> slices \<open>[1..33]\<close> and \<open>[33..HEADER_BYTES]\<close>; the second must be eight bytes for
  \<open>try_into\<close>, so any other header length than 41 panics there.\<close>

definition parse_header :: "protocol \<Rightarrow> pack_reader \<Rightarrow> pack_failure + digest" where
  "parse_header P r =
     (case pr_buffer r of
        [] \<Rightarrow> Inl Panicked
      | tag # _ \<Rightarrow>
          bind_r (if tag = 1 then Inr Blake3 else if tag = 2 then Inr Sha256
                  else Inl (Failed (E_Algorithm tag))) (\<lambda>alg.
          if length (pr_buffer r) < 33 then Inl Panicked
          else let hash = hex_encode P (take 32 (drop 1 (pr_buffer r))) in
          if blob_pack_header_bytes P \<noteq> 41 \<or> length (pr_buffer r) < 41 then Inl Panicked
          else let size = from_be_bytes (take 8 (drop 33 (pr_buffer r))) in
          if pr_max_blob_bytes r < size
          then Inl (Failed (E_BlobTooLarge size (pr_max_blob_bytes r)))
          else Inr \<lparr>d_algorithm = algorithm_name P alg, d_hash = hash, d_size = size\<rparr>))"

definition pack_iter ::
    "protocol \<Rightarrow> pack_reader \<Rightarrow> bytes \<Rightarrow> pack_failure + (pack_event list \<times> pack_reader \<times> bytes \<times> bool)" where
  "pack_iter P r rest =
     (case pr_state r of
        S_Magic \<Rightarrow>
          (case fill r rest (length (blob_pack_magic P)) of (full, r1, rest1) \<Rightarrow>
             if \<not> full then Inr ([], r1, rest1, False)
             else if pr_buffer r1 \<noteq> blob_pack_magic P then Inl (Failed E_Magic)
             else Inr ([], r1\<lparr>pr_buffer := [], pr_state := S_Header\<rparr>, rest1, True))
      | S_Header \<Rightarrow>
          if rest = [] \<and> pr_buffer r = [] then Inr ([], r, rest, False)
          else (case fill r rest (blob_pack_header_bytes P) of (full, r1, rest1) \<Rightarrow>
             if \<not> full then Inr ([], r1, rest1, False)
             else bind_r (parse_header P r1) (\<lambda>d.
               let r2 = r1\<lparr>pr_buffer := [], pr_remaining := d_size d, pr_blobs := pr_blobs r1 + 1\<rparr> in
               if pr_max_blobs r2 < pr_blobs r2
               then Inl (Failed (E_TooManyBlobs (pr_max_blobs r2)))
               else if pr_remaining r2 = 0
               then Inr ([Started d, Complete], r2\<lparr>pr_state := S_Header\<rparr>, rest1, True)
               else Inr ([Started d], r2\<lparr>pr_state := S_Payload\<rparr>, rest1, True)))
      | S_Payload \<Rightarrow>
          if rest = [] then Inr ([], r, rest, False)
          else
            let n = min (unat (pr_remaining r)) (length rest);
                r1 = r\<lparr>pr_remaining := pr_remaining r - of_nat n,
                       pr_payload_bytes := pr_payload_bytes r + of_nat n\<rparr>
            in if pr_max_payload_bytes r1 < pr_payload_bytes r1
               then Inl (Failed (E_TooManyBytes (pr_max_payload_bytes r1)))
               else if pr_remaining r1 = 0
               then Inr ([Payload (take n rest), Complete], r1\<lparr>pr_state := S_Header\<rparr>, drop n rest, True)
               else Inr ([Payload (take n rest)], r1, drop n rest, True))"

definition state_rank :: "pack_state \<Rightarrow> nat" where
  "state_rank st = (case st of S_Magic \<Rightarrow> 2 | S_Payload \<Rightarrow> 1 | S_Header \<Rightarrow> 0)"

lemma fill_conserves:
  "fill r rest wanted = (full, r1, rest1) \<Longrightarrow>
    pr_buffer r1 @ rest1 = pr_buffer r @ rest \<and> r1 = r\<lparr>pr_buffer := pr_buffer r1\<rparr>
    \<and> (full \<longleftrightarrow> length (pr_buffer r1) = wanted)
    \<and> (\<not> full \<and> length (pr_buffer r) \<le> wanted \<longrightarrow> rest1 = [] \<and> length (pr_buffer r1) < wanted)"
  unfolding fill_def by (auto simp: Let_def)

lemma parse_header_nonempty: "parse_header P r = Inr d \<Longrightarrow> pr_buffer r \<noteq> []"
  by (auto simp: parse_header_def)

text \<open>What a round that goes on did, by the state it started in.\<close>

definition header_read :: "pack_reader \<Rightarrow> digest \<Rightarrow> pack_reader" where
  "header_read r d = r\<lparr>pr_buffer := [], pr_remaining := d_size d, pr_blobs := pr_blobs r + 1,
     pr_state := (if d_size d = 0 then S_Header else S_Payload)\<rparr>"

definition payload_read :: "pack_reader \<Rightarrow> nat \<Rightarrow> pack_reader" where
  "payload_read r n = r\<lparr>pr_remaining := pr_remaining r - of_nat n,
     pr_payload_bytes := pr_payload_bytes r + of_nat n,
     pr_state := (if pr_remaining r - of_nat n = 0 then S_Header else S_Payload)\<rparr>"

lemma iter_magic:
  assumes "pr_state r = S_Magic" and "pack_iter P r rest = Inr (evs, r', rest', True)"
  shows "\<exists>r1. fill r rest (length (blob_pack_magic P)) = (True, r1, rest')
    \<and> pr_buffer r1 = blob_pack_magic P \<and> evs = [] \<and> r' = r1\<lparr>pr_buffer := [], pr_state := S_Header\<rparr>"
  using assms by (auto simp: pack_iter_def split: if_splits prod.splits)

lemma pack_iter_header:
  assumes "pr_state r = S_Header" and "\<not> (rest = [] \<and> pr_buffer r = [])"
    and "fill r rest (blob_pack_header_bytes P) = (full, r1, rest1)"
  shows "pack_iter P r rest =
    (if \<not> full then Inr ([], r1, rest1, False)
     else bind_r (parse_header P r1) (\<lambda>d.
       if pr_max_blobs r1 < pr_blobs r1 + 1 then Inl (Failed (E_TooManyBlobs (pr_max_blobs r1)))
       else Inr (if d_size d = 0 then [Started d, Complete] else [Started d],
         header_read r1 d, rest1, True)))"
proof -
  from assms(2) have ne: "(rest = [] \<and> pr_buffer r = []) = False" by blast
  show ?thesis
    unfolding pack_iter_def assms(1) pack_state.case ne if_False assms(3) prod.case
    by (cases "parse_header P r1") (simp_all add: header_read_def Let_def)
qed

lemma iter_header:
  assumes "pr_state r = S_Header" and "pack_iter P r rest = Inr (evs, r', rest', True)"
  shows "\<exists>r1 d. fill r rest (blob_pack_header_bytes P) = (True, r1, rest')
    \<and> parse_header P r1 = Inr d \<and> pr_blobs r' \<le> pr_max_blobs r' \<and> r' = header_read r1 d
    \<and> evs = (if d_size d = 0 then [Started d, Complete] else [Started d])"
proof -
  obtain full r1 rest1 where f: "fill r rest (blob_pack_header_bytes P) = (full, r1, rest1)"
    by (metis prod_cases3)
  have ne: "\<not> (rest = [] \<and> pr_buffer r = [])" using assms by (auto simp: pack_iter_def)
  note iter = assms(2) [unfolded pack_iter_header [OF assms(1) ne f]]
  have full: full using iter by (cases full) simp_all
  obtain d where d: "parse_header P r1 = Inr d"
    using iter full by (cases "parse_header P r1") simp_all
  have m: "\<not> pr_max_blobs r1 < pr_blobs r1 + 1"
    using iter full d by (cases "pr_max_blobs r1 < pr_blobs r1 + 1") simp_all
  have e: "evs = (if d_size d = 0 then [Started d, Complete] else [Started d])"
      "r' = header_read r1 d" "rest' = rest1"
    using iter full d m by simp_all
  from m have "pr_blobs r' \<le> pr_max_blobs r'" by (simp add: e header_read_def)
  with full d e f show ?thesis by simp
qed

definition payload_take :: "pack_reader \<Rightarrow> bytes \<Rightarrow> nat" where
  "payload_take r rest = min (unat (pr_remaining r)) (length rest)"

lemma pack_iter_payload:
  "pr_state r = S_Payload \<Longrightarrow> rest \<noteq> [] \<Longrightarrow> pack_iter P r rest =
    (let n = payload_take r rest; r1 = payload_read r n in
     if pr_max_payload_bytes r1 < pr_payload_bytes r1
     then Inl (Failed (E_TooManyBytes (pr_max_payload_bytes r1)))
     else Inr (if pr_remaining r1 = 0 then [Payload (take n rest), Complete] else [Payload (take n rest)],
       r1, drop n rest, True))"
  by (simp add: pack_iter_def payload_read_def Let_def flip: payload_take_def)

lemma iter_payload:
  assumes "pr_state r = S_Payload" and "pack_iter P r rest = Inr (evs, r', rest', True)"
    and "n = payload_take r rest"
  shows "rest \<noteq> [] \<and> rest' = drop n rest
    \<and> r' = payload_read r n \<and> pr_payload_bytes r' \<le> pr_max_payload_bytes r'
    \<and> evs = (if pr_remaining r' = 0 then [Payload (take n rest), Complete] else [Payload (take n rest)])"
proof -
  have ne: "rest \<noteq> []" using assms(1,2) by (cases "rest = []") (simp_all add: pack_iter_def)
  from assms(2) show ?thesis
    unfolding pack_iter_payload [OF assms(1) ne] Let_def assms(3) [symmetric]
    by (simp add: ne not_less split: if_split_asm)
qed

text \<open>What a round that ends the call did.\<close>

lemma iter_stop:
  assumes "pack_iter P r rest = Inr (evs, r', rest', False)"
  shows "evs = [] \<and>
    (case pr_state r of
       S_Magic \<Rightarrow> fill r rest (length (blob_pack_magic P)) = (False, r', rest')
     | S_Header \<Rightarrow> rest = [] \<and> pr_buffer r = [] \<and> r' = r \<and> rest' = []
         \<or> \<not> (rest = [] \<and> pr_buffer r = [])
            \<and> fill r rest (blob_pack_header_bytes P) = (False, r', rest')
     | S_Payload \<Rightarrow> rest = [] \<and> r' = r \<and> rest' = [])"
proof (cases "pr_state r")
  case S_Magic
  with assms show ?thesis by (auto simp: pack_iter_def split: if_splits prod.splits)
next
  case S_Header
  with assms show ?thesis
    by (auto simp: pack_iter_def Let_def bind_r_eq_Inr split: if_splits prod.splits)
next
  case S_Payload
  with assms show ?thesis by (simp add: pack_iter_def Let_def split: if_splits)
qed

text \<open>Every round of the loop that goes on has less to do.\<close>

lemma pack_iter_decreases:
  assumes "pack_iter P r rest = Inr (evs, r', rest', True)"
  shows "length rest' + length (pr_buffer r') < length rest + length (pr_buffer r)
    \<or> length rest' + length (pr_buffer r') = length rest + length (pr_buffer r)
      \<and> state_rank (pr_state r') < state_rank (pr_state r)"
proof (cases "pr_state r")
  case S_Magic
  from iter_magic [OF S_Magic assms] obtain r1
    where f: "fill r rest (length (blob_pack_magic P)) = (True, r1, rest')"
      and r': "r' = r1\<lparr>pr_buffer := [], pr_state := S_Header\<rparr>" by blast
  have "length (pr_buffer r1) + length rest' = length (pr_buffer r) + length rest"
    using fill_conserves [OF f] by (metis length_append)
  with S_Magic r' show ?thesis by (simp add: state_rank_def) arith
next
  case S_Header
  from iter_header [OF S_Header assms] obtain r1 d
    where f: "fill r rest (blob_pack_header_bytes P) = (True, r1, rest')"
      and p: "parse_header P r1 = Inr d" and r': "r' = header_read r1 d" by blast
  have "length (pr_buffer r1) + length rest' = length (pr_buffer r) + length rest"
    using fill_conserves [OF f] by (metis length_append)
  moreover have "length (pr_buffer r1) > 0" using parse_header_nonempty [OF p] by simp
  ultimately have "length rest' < length rest + length (pr_buffer r)" by linarith
  with r' show ?thesis by (simp add: header_read_def)
next
  case S_Payload
  define n where "n = payload_take r rest"
  from iter_payload [OF S_Payload assms n_def]
  have n: "n = min (unat (pr_remaining r)) (length rest)" "rest \<noteq> []" "rest' = drop n rest"
    and r': "r' = payload_read r n" by (simp_all add: n_def payload_take_def)
  show ?thesis
  proof (cases "n = 0")
    case True
    with n have "pr_remaining r = 0" by (auto simp: min_def unat_0_iff split: if_splits)
    with True S_Payload n r' show ?thesis by (simp add: payload_read_def state_rank_def)
  next
    case False
    with n r' show ?thesis by (simp add: payload_read_def)
  qed
qed

function push :: "protocol \<Rightarrow> pack_reader \<Rightarrow> bytes \<Rightarrow> pack_failure + (pack_event list \<times> pack_reader)" where
  "push P r rest =
     (case pack_iter P r rest of
        Inl e \<Rightarrow> Inl e
      | Inr (evs, r', rest', again) \<Rightarrow>
          if again then bind_r (push P r' rest') (\<lambda>(evs', r''). Inr (evs @ evs', r''))
          else Inr (evs, r'))"
  by pat_completeness auto
termination
  by (relation "measures [\<lambda>(P, r, rest). length rest + length (pr_buffer r),
        \<lambda>(P, r, rest). state_rank (pr_state r)]")
    (auto dest: pack_iter_decreases)

declare push.simps [simp del]

definition finish :: "pack_reader \<Rightarrow> pack_error + unit" where
  "finish r = (if pr_state r = S_Header \<and> pr_buffer r = [] then Inr () else Inl E_Truncated)"

text \<open>A body is pushed chunk by chunk; the events of an earlier chunk have been acted on when a later
  one fails.\<close>

fun push_all :: "protocol \<Rightarrow> pack_reader \<Rightarrow> bytes list \<Rightarrow> pack_failure + (pack_event list \<times> pack_reader)" where
  "push_all P r [] = Inr ([], r)"
| "push_all P r (c # cs) =
     bind_r (push P r c) (\<lambda>(evs, r'). bind_r (push_all P r' cs) (\<lambda>(evs', r''). Inr (evs @ evs', r'')))"

end
