(* ===== verification/Pack_Reader.thy ===== *)
theory Pack_Reader
  imports Pack
begin

text \<open>
  What the blob-pack reader guarantees. \<open>reader_ok\<close> is its invariant; \<open>wire\<close> gives the bytes an event
  stands for, \<open>norm\<close> joins adjacent payload events, and \<open>collect\<close> groups events into frames the way
  \<open>put_blob_pack\<close> (\<open>src/server.rs\<close>) does.
\<close>

section \<open>The invariant\<close>

definition limits_ok :: "u64 \<Rightarrow> u64 \<Rightarrow> u64 \<Rightarrow> bool" where
  "limits_ok max_blob_bytes max_blobs max_payload_bytes \<longleftrightarrow>
     unat max_blob_bytes + unat max_payload_bytes < 2 ^ 64 \<and> unat max_blobs + 1 < 2 ^ 64"

definition reader_ok :: "protocol \<Rightarrow> pack_reader \<Rightarrow> bool" where
  "reader_ok P r \<longleftrightarrow>
     limits_ok (pr_max_blob_bytes r) (pr_max_blobs r) (pr_max_payload_bytes r) \<and>
     pr_blobs r \<le> pr_max_blobs r \<and> pr_payload_bytes r \<le> pr_max_payload_bytes r \<and>
     (case pr_state r of
        S_Magic \<Rightarrow> length (pr_buffer r) < length (blob_pack_magic P) \<and> pr_blobs r = 0 \<and> pr_payload_bytes r = 0
      | S_Header \<Rightarrow> length (pr_buffer r) < blob_pack_header_bytes P
      | S_Payload \<Rightarrow> pr_buffer r = [] \<and> pr_remaining r \<noteq> 0 \<and> pr_remaining r \<le> pr_max_blob_bytes r)"

lemma reader_ok_new:
  "protocol_ok P \<Longrightarrow> limits_ok mb n mp \<Longrightarrow> reader_ok P (new_reader mb n mp)"
  by (simp add: reader_ok_def new_reader_def protocol_sizes)

subsection \<open>The bytes of a frame header\<close>

definition algorithm_tag :: "algorithm \<Rightarrow> u8" where
  "algorithm_tag a = (case a of Blake3 \<Rightarrow> 1 | Sha256 \<Rightarrow> 2)"

lemma algorithm_tag_simps [simp]: "algorithm_tag Blake3 = 1" "algorithm_tag Sha256 = 2"
  by (simp_all add: algorithm_tag_def)

definition hash_bytes :: "protocol \<Rightarrow> digest \<Rightarrow> bytes" where
  "hash_bytes P d = (case hex_decode P (d_hash d) of Inr bs \<Rightarrow> bs | Inl _ \<Rightarrow> [])"

definition frame_header :: "protocol \<Rightarrow> digest \<Rightarrow> bytes" where
  "frame_header P d =
     (case algorithm_kind P d of Inr a \<Rightarrow> [algorithm_tag a] | Inl _ \<Rightarrow> [])
       @ hash_bytes P d @ to_be_bytes (d_size d)"

lemma hash_bytes_ok:
  assumes "protocol_ok P" and "digest_ok P d"
  shows "length (hash_bytes P d) = 32" and "hex_encode P (hash_bytes P d) = d_hash d"
    and "hex_decode P (d_hash d) = Inr (hash_bytes P d)"
proof -
  from assms have "even (length (d_hash d))" "lower_hex_string (d_hash d)" "length (d_hash d) = 64"
    by (auto simp: digest_ok_iff)
  note hash = this
  obtain bs where bs: "hex_decode P (d_hash d) = Inr bs" "hex_encode P bs = d_hash d"
    and "length (d_hash d) = 2 * length bs"
    using hex_decode_lower [OF assms(1) hash(1,2)] .
  with hash(3) have "length bs = 32" by simp
  with bs show "length (hash_bytes P d) = 32" "hex_encode P (hash_bytes P d) = d_hash d"
    "hex_decode P (d_hash d) = Inr (hash_bytes P d)"
    by (simp_all add: hash_bytes_def)
qed

lemma length_frame_header:
  assumes "protocol_ok P" and "digest_ok P d"
  shows "length (frame_header P d) = 41"
proof -
  obtain a where "algorithm_kind P d = Inr a" using assms by (rule digest_ok_algorithm)
  then show ?thesis by (simp add: frame_header_def hash_bytes_ok [OF assms])
qed

lemma parse_header_sound:
  assumes P: "protocol_ok P" and len: "length (pr_buffer r) = 41" and d: "parse_header P r = Inr d"
  shows "frame_header P d = pr_buffer r" and "digest_ok P d" and "d_size d \<le> pr_max_blob_bytes r"
proof -
  obtain tag rest where b: "pr_buffer r = tag # rest" using len by (cases "pr_buffer r") auto
  define bs where "bs = take 32 rest"
  have lens: "length bs = 32" "length (drop 32 rest) = 8" using len b by (simp_all add: bs_def)
  from d b obtain alg where tag: "tag = algorithm_tag alg" and
    d0: "(if pr_max_blob_bytes r < from_be_bytes (drop 32 rest)
      then Inl (Failed (E_BlobTooLarge (from_be_bytes (drop 32 rest)) (pr_max_blob_bytes r)))
      else Inr \<lparr>d_algorithm = algorithm_name P alg, d_hash = hex_encode P bs,
        d_size = from_be_bytes (drop 32 rest)\<rparr>) = Inr d"
    using protocol_sizes [OF P] len that [of Blake3] that [of Sha256]
    by (simp add: parse_header_def bind_r_eq_Inr Let_def bs_def split: if_split_asm)
  from d0 have d': "d = \<lparr>d_algorithm = algorithm_name P alg, d_hash = hex_encode P bs,
        d_size = from_be_bytes (drop 32 rest)\<rparr>"
    and small: "d_size d \<le> pr_max_blob_bytes r"
    by (auto split: if_split_asm)
  have kind: "algorithm_kind P d = Inr alg" using P by (simp add: algorithm_kind_iff d')
  have hash: "hash_bytes P d = bs" using hex_facts(3) [OF P] by (simp add: hash_bytes_def d')
  have "drop 32 rest = to_be_bytes (d_size d)" using lens by (simp add: d' to_from_be_bytes)
  then have "rest = bs @ to_be_bytes (d_size d)"
    by (metis append_take_drop_id bs_def)
  then show "frame_header P d = pr_buffer r"
    by (simp add: frame_header_def kind hash b tag)
  show "digest_ok P d"
    using P kind hex_facts [OF P, of bs] lens by (auto simp: digest_ok_iff d')
  show "d_size d \<le> pr_max_blob_bytes r" by (rule small)
qed

lemma parse_header_complete:
  assumes P: "protocol_ok P" and d: "digest_ok P d" and b: "pr_buffer r = frame_header P d"
  shows "parse_header P r = (if pr_max_blob_bytes r < d_size d
    then Inl (Failed (E_BlobTooLarge (d_size d) (pr_max_blob_bytes r))) else Inr d)"
proof -
  obtain a where a: "algorithm_kind P d = Inr a" using P d by (rule digest_ok_algorithm)
  then have name: "algorithm_name P a = d_algorithm d" using P by (simp add: algorithm_kind_iff)
  have "pr_buffer r = algorithm_tag a # hash_bytes P d @ to_be_bytes (d_size d)"
    by (simp add: b frame_header_def a)
  then show ?thesis
    using hash_bytes_ok [OF P d] protocol_sizes [OF P]
    by (cases a) (simp_all add: parse_header_def algorithm_tag_def Let_def flip: name)
qed

lemma parse_header_no_panic:
  "protocol_ok P \<Longrightarrow> length (pr_buffer r) = 41 \<Longrightarrow> parse_header P r \<noteq> Inl Panicked"
  using protocol_sizes [of P]
  by (auto simp: parse_header_def result_simps Let_def split: list.splits if_splits)

subsection \<open>The invariant is kept\<close>

lemma fill_ok:
  assumes "length (pr_buffer r) < w" and "fill r rest w = (full, r1, rest1)"
  shows "r1 = r\<lparr>pr_buffer := pr_buffer r1\<rparr>" and "pr_buffer r1 @ rest1 = pr_buffer r @ rest"
    and "full \<longleftrightarrow> length (pr_buffer r1) = w" and "\<not> full \<Longrightarrow> rest1 = [] \<and> length (pr_buffer r1) < w"
  using fill_conserves [OF assms(2)] assms(1) by auto

lemma fill_state: "fill r rest w = (full, r1, rest1) \<Longrightarrow> pr_state r1 = pr_state r"
  by (auto simp: fill_def Let_def)

lemma fill_append:
  assumes len: "length (pr_buffer r) < w" and f: "fill r xs w = (full, r1, rest1)"
  shows "fill r (xs @ ys) w = (if full then (True, r1, rest1 @ ys) else fill r1 ys w)"
proof -
  define need where "need = w - length (pr_buffer r)"
  have w: "w = length (pr_buffer r) + need" and pos: "0 < need" using len by (simp_all add: need_def)
  have fu: "full \<longleftrightarrow> need \<le> length xs" and r1: "r1 = r\<lparr>pr_buffer := pr_buffer r @ take need xs\<rparr>"
    and rest1: "rest1 = drop need xs"
    using f pos by (auto simp: fill_def Let_def w min_def split: if_splits)
  show ?thesis
  proof (cases full)
    case True
    then show ?thesis using fu pos by (simp add: fill_def w r1 rest1 min_def)
  next
    case False
    then have short: "length xs < need" using fu by simp
    then have "min need (length xs + length ys) = length xs + min (need - length xs) (length ys)"
      by (simp add: min_def; arith)
    with False short pos show ?thesis
      by (simp add: fill_def w r1 Let_def)
  qed
qed

lemma header_read_simps [simp]:
  "pr_buffer (header_read r d) = []"
  "pr_state (header_read r d) = (if d_size d = 0 then S_Header else S_Payload)"
  "pr_remaining (header_read r d) = d_size d"
  "pr_blobs (header_read r d) = pr_blobs r + 1"
  "pr_payload_bytes (header_read r d) = pr_payload_bytes r"
  "pr_max_blob_bytes (header_read r d) = pr_max_blob_bytes r"
  "pr_max_blobs (header_read r d) = pr_max_blobs r"
  "pr_max_payload_bytes (header_read r d) = pr_max_payload_bytes r"
  by (simp_all add: header_read_def)

lemma payload_read_simps [simp]:
  "pr_buffer (payload_read r n) = pr_buffer r"
  "pr_state (payload_read r n) = (if pr_remaining r - of_nat n = 0 then S_Header else S_Payload)"
  "pr_remaining (payload_read r n) = pr_remaining r - of_nat n"
  "pr_blobs (payload_read r n) = pr_blobs r"
  "pr_payload_bytes (payload_read r n) = pr_payload_bytes r + of_nat n"
  "pr_max_blob_bytes (payload_read r n) = pr_max_blob_bytes r"
  "pr_max_blobs (payload_read r n) = pr_max_blobs r"
  "pr_max_payload_bytes (payload_read r n) = pr_max_payload_bytes r"
  by (simp_all add: payload_read_def)

text \<open>Taking payload bytes neither underflows \<open>remaining\<close> nor overflows \<open>payload_bytes\<close>.\<close>

lemma unat_u64_of_nat: "n < 2 ^ 64 \<Longrightarrow> unat (of_nat n :: u64) = n"
  by (simp add: unat_of_nat)

lemma unat_u64_minus: "n \<le> unat (w :: u64) \<Longrightarrow> unat (w - of_nat n) = unat w - n"
proof -
  assume n: "n \<le> unat w"
  then have u: "unat (of_nat n :: u64) = n"
    using unat_u64_lt [of w] by (intro unat_u64_of_nat) (simp del: unat_u64_lt)
  then have "of_nat n \<le> w" using n by (simp add: word_le_nat_alt)
  then show ?thesis using u by (simp add: unat_sub)
qed

lemma payload_step_arith:
  assumes "reader_ok P r" and "pr_state r = S_Payload" and "n \<le> unat (pr_remaining r)"
  shows "unat (pr_remaining r - of_nat n) = unat (pr_remaining r) - n"
    and "unat (pr_payload_bytes r + of_nat n) = unat (pr_payload_bytes r) + n"
proof -
  show "unat (pr_remaining r - of_nat n) = unat (pr_remaining r) - n"
    using assms(3) by (rule unat_u64_minus)
  have "unat (pr_remaining r) < 2 ^ 64" by simp
  with assms(3) have n: "n < 2 ^ 64" by (rule le_less_trans)
  have "n \<le> unat (pr_max_blob_bytes r)"
    and "unat (pr_payload_bytes r) \<le> unat (pr_max_payload_bytes r)"
    using assms by (auto simp: reader_ok_def word_le_nat_alt)
  with assms(1) have "unat (pr_payload_bytes r) + n < 2 ^ 64"
    by (auto simp: reader_ok_def limits_ok_def)
  then show "unat (pr_payload_bytes r + of_nat n) = unat (pr_payload_bytes r) + n"
    using unat_add_no_overflow [of "pr_payload_bytes r" "of_nat n"] n by (simp add: unat_u64_of_nat)
qed

lemma iter_reader_ok:
  assumes P: "protocol_ok P" and ok: "reader_ok P r"
    and it: "pack_iter P r rest = Inr (evs, r', rest', again)"
  shows "reader_ok P r'"
proof (cases again)
  case True
  with it have go: "pack_iter P r rest = Inr (evs, r', rest', True)" by simp
  show ?thesis
  proof (cases "pr_state r")
    case S_Magic
    from iter_magic [OF this go] obtain r1 where
      f: "fill r rest (length (blob_pack_magic P)) = (True, r1, rest')"
      and r': "r' = r1\<lparr>pr_buffer := [], pr_state := S_Header\<rparr>" by blast
    have "length (pr_buffer r) < length (blob_pack_magic P)"
      using ok S_Magic by (simp add: reader_ok_def)
    from fill_ok(1) [OF this f] obtain b where "r1 = r\<lparr>pr_buffer := b\<rparr>" by blast
    with ok S_Magic protocol_sizes [OF P] show ?thesis by (auto simp: reader_ok_def r')
  next
    case S_Header
    from iter_header [OF this go] obtain r1 d where
      f: "fill r rest (blob_pack_header_bytes P) = (True, r1, rest')"
      and d: "parse_header P r1 = Inr d" and bl: "pr_blobs r' \<le> pr_max_blobs r'"
      and r': "r' = header_read r1 d" by blast
    have len: "length (pr_buffer r) < blob_pack_header_bytes P"
      using ok S_Header by (simp add: reader_ok_def)
    from fill_ok(1) [OF len f] obtain b where r1: "r1 = r\<lparr>pr_buffer := b\<rparr>" by blast
    have "length (pr_buffer r1) = 41" using fill_ok(3) [OF len f] protocol_sizes [OF P] by simp
    from parse_header_sound(3) [OF P this d] have "d_size d \<le> pr_max_blob_bytes r" by (simp add: r1)
    with ok bl protocol_sizes [OF P] show ?thesis by (auto simp: reader_ok_def r' r1)
  next
    case S_Payload
    define n where "n = payload_take r rest"
    from iter_payload [OF S_Payload go n_def] have r': "r' = payload_read r n"
      and m: "pr_payload_bytes r' \<le> pr_max_payload_bytes r'" by blast+
    have "n \<le> unat (pr_remaining r)" by (simp add: n_def payload_take_def)
    from payload_step_arith(1) [OF ok S_Payload this]
    have "pr_remaining r - of_nat n \<le> pr_remaining r" by (simp add: word_le_nat_alt)
    also have "pr_remaining r \<le> pr_max_blob_bytes r" using ok S_Payload by (simp add: reader_ok_def)
    finally have "pr_remaining r - of_nat n \<le> pr_max_blob_bytes r" .
    with ok S_Payload m protocol_sizes [OF P] show ?thesis by (auto simp: reader_ok_def r')
  qed
next
  case False
  with it have "pack_iter P r rest = Inr (evs, r', rest', False)" by simp
  note st = iter_stop [OF this]
  show ?thesis
  proof (cases "pr_state r")
    case S_Magic
    then have len: "length (pr_buffer r) < length (blob_pack_magic P)"
      and f: "fill r rest (length (blob_pack_magic P)) = (False, r', rest')"
      using ok st by (simp_all add: reader_ok_def)
    from fill_ok(1) [OF len f] obtain b where "r' = r\<lparr>pr_buffer := b\<rparr>" by blast
    with ok S_Magic fill_ok(4) [OF len f] show ?thesis by (auto simp: reader_ok_def)
  next
    case S_Header
    then have len: "length (pr_buffer r) < blob_pack_header_bytes P" using ok by (simp add: reader_ok_def)
    consider "r' = r" | "fill r rest (blob_pack_header_bytes P) = (False, r', rest')"
      using st S_Header by auto
    then show ?thesis
    proof cases
      case 2
      from fill_ok(1) [OF len 2] obtain b where "r' = r\<lparr>pr_buffer := b\<rparr>" by blast
      with ok S_Header fill_ok(4) [OF len 2] show ?thesis by (auto simp: reader_ok_def)
    qed (simp add: ok)
  next
    case S_Payload
    with st ok show ?thesis by simp
  qed
qed

subsection \<open>Cutting the input differently\<close>

text \<open>\<open>norm\<close> joins adjacent payload events.\<close>

fun norm :: "pack_event list \<Rightarrow> pack_event list" where
  "norm [] = []"
| "norm (Payload p # es) =
     (case norm es of Payload q # es' \<Rightarrow> Payload (p @ q) # es' | es' \<Rightarrow> Payload p # es')"
| "norm (e # es) = e # norm es"

lemma norm_merge: "norm (Payload p # Payload q # es) = norm (Payload (p @ q) # es)"
  by (simp split: list.splits pack_event.splits)

lemma norm_cong_tail: "norm es = norm es' \<Longrightarrow> norm (as @ es) = norm (as @ es')"
proof (induction as)
  case (Cons a as)
  then show ?case by (cases a) simp_all
qed simp

definition norm_result where
  "norm_result r = (case r of Inl e \<Rightarrow> Inl e | Inr (evs, s) \<Rightarrow> Inr (norm evs, s))"

definition push_two :: "protocol \<Rightarrow> pack_reader \<Rightarrow> bytes \<Rightarrow> bytes \<Rightarrow> pack_failure + (pack_event list \<times> pack_reader)" where
  "push_two P r xs ys =
     bind_r (push P r xs) (\<lambda>(e1, r1). bind_r (push P r1 ys) (\<lambda>(e2, r2). Inr (e1 @ e2, r2)))"

lemma push_stop: "pack_iter P r xs = Inr (evs, r1, rest1, False) \<Longrightarrow> push P r xs = Inr (evs, r1)"
  by (simp add: push.simps)

lemma push_go: "pack_iter P r xs = Inr (evs, r1, rest1, True) \<Longrightarrow>
    push P r xs = bind_r (push P r1 rest1) (\<lambda>(evs', r2). Inr (evs @ evs', r2))"
  by (subst push.simps) simp

lemma push_err: "pack_iter P r xs = Inl e \<Longrightarrow> push P r xs = Inl e"
  by (simp add: push.simps)

lemma push_iter_cong: "pack_iter P r xs = pack_iter P r' xs' \<Longrightarrow> push P r xs = push P r' xs'"
  by (subst (1 2) push.simps) simp

lemma iter_append_magic:
  assumes ok: "reader_ok P r" and st: "pr_state r = S_Magic"
  shows "pack_iter P r (xs @ ys) =
    (case pack_iter P r xs of
       Inl e \<Rightarrow> Inl e
     | Inr (evs, r1, rest1, again) \<Rightarrow>
         if again then Inr (evs, r1, rest1 @ ys, True) else pack_iter P r1 ys)"
proof -
  have len: "length (pr_buffer r) < length (blob_pack_magic P)" using ok st by (simp add: reader_ok_def)
  obtain full r1 rest1 where f: "fill r xs (length (blob_pack_magic P)) = (full, r1, rest1)"
    by (metis prod_cases3)
  have st1: "pr_state r1 = S_Magic" using fill_state [OF f] st by simp
  show ?thesis
    by (simp add: pack_iter_def st st1 f fill_append [OF len f])
qed

lemma iter_append_header:
  assumes ok: "reader_ok P r" and st: "pr_state r = S_Header"
  shows "pack_iter P r (xs @ ys) =
    (case pack_iter P r xs of
       Inl e \<Rightarrow> Inl e
     | Inr (evs, r1, rest1, again) \<Rightarrow>
         if again then Inr (evs, r1, rest1 @ ys, True) else pack_iter P r1 ys)"
proof (cases "xs = [] \<and> pr_buffer r = []")
  case True
  then show ?thesis by (simp add: pack_iter_def [of P r "[]"] st)
next
  case False
  have len: "length (pr_buffer r) < blob_pack_header_bytes P" using ok st by (simp add: reader_ok_def)
  obtain full r1 rest1 where f: "fill r xs (blob_pack_header_bytes P) = (full, r1, rest1)"
    by (metis prod_cases3)
  have r1: "r1 = r\<lparr>pr_buffer := pr_buffer r1\<rparr>" and cat: "pr_buffer r1 @ rest1 = pr_buffer r @ xs"
    using fill_ok [OF len f] by blast+
  have st1: "pr_state r1 = S_Header" using fill_state [OF f] st by simp
  have ne: "\<not> (xs @ ys = [] \<and> pr_buffer r = [])" using False by simp
  show ?thesis
  proof (cases full)
    case True
    have f2: "fill r (xs @ ys) (blob_pack_header_bytes P) = (True, r1, rest1 @ ys)"
      using fill_append [OF len f] True by simp
    show ?thesis
      unfolding pack_iter_header [OF st ne f2] pack_iter_header [OF st False f] using True
      by (cases "parse_header P r1") simp_all
  next
    case notfull: False
    have ne1: "\<not> (ys = [] \<and> pr_buffer r1 = [])"
      using fill_ok(4) [OF len f notfull] cat False by auto
    obtain full2 r2 rest2 where g: "fill r1 ys (blob_pack_header_bytes P) = (full2, r2, rest2)"
      by (metis prod_cases3)
    have f2: "fill r (xs @ ys) (blob_pack_header_bytes P) = (full2, r2, rest2)"
      using fill_append [OF len f] notfull g by simp
    show ?thesis
      unfolding pack_iter_header [OF st ne f2] pack_iter_header [OF st False f]
      using notfull by (simp add: pack_iter_header [OF st1 ne1 g])
  qed
qed

end
