(* ===== verification/Pack_Frames.thy ===== *)
theory Pack_Frames
  imports Pack_Reader
begin

text \<open>
  The reader over a whole body: pushing chunk by chunk equals pushing the concatenation up to the
  size of the payload events (\<open>push_append\<close>, \<open>push_all_concat\<close>), every byte pushed is accounted for
  by the events (\<open>push_conserves\<close>), and the events always group into frames whose payload has the
  declared length (\<open>push_collects\<close>).
\<close>

section \<open>Chunk boundaries do not matter\<close>

lemma push_nil:
  assumes "protocol_ok P" and "reader_ok P r"
  shows "push P r [] = Inr ([], r)"
proof (rule push_stop [where ?rest1.0 = "[]"], cases "pr_state r")
  case S_Magic
  with assms show "pack_iter P r [] = Inr ([], r, [], False)"
    by (simp add: pack_iter_def fill_def reader_ok_def Let_def)
next
  case S_Header
  with assms show "pack_iter P r [] = Inr ([], r, [], False)"
    by (simp add: pack_iter_def fill_def reader_ok_def Let_def)
next
  case S_Payload
  then show "pack_iter P r [] = Inr ([], r, [], False)" by (simp add: pack_iter_def)
qed

lemma push_reader_ok:
  "protocol_ok P \<Longrightarrow> reader_ok P r \<Longrightarrow> push P r xs = Inr (evs, r') \<Longrightarrow> reader_ok P r'"
proof (induction P r xs arbitrary: evs r' rule: push.induct)
  case (1 P r xs)
  show ?case
  proof (cases "pack_iter P r xs")
    case (Inl e)
    with 1(4) show ?thesis by (simp add: push_err)
  next
    case (Inr b)
    obtain e r1 rest1 again where b: "b = (e, r1, rest1, again)" by (metis prod_cases4)
    note ok1 = iter_reader_ok [OF 1(2,3) Inr [unfolded b]]
    show ?thesis
    proof (cases again)
      case True
      with Inr b have go: "pack_iter P r xs = Inr (e, r1, rest1, True)" by simp
      from 1(4) obtain e' where "push P r1 rest1 = Inr (e', r')"
        unfolding push_go [OF go] by (auto simp: bind_r_eq_Inr)
      then show ?thesis using 1(1) [OF go refl refl refl] 1(2) ok1 by simp
    next
      case False
      with Inr b 1(4) ok1 show ?thesis by (simp add: push_stop)
    qed
  qed
qed

lemma payload_read_add:
  "payload_read (payload_read r n) m = payload_read r (n + m)"
  by (simp add: payload_read_def algebra_simps diff_diff_eq)

text \<open>A payload cut in the middle: both halves are read, and only the event differs.\<close>

lemma payload_cut:
  assumes ok: "reader_ok P r" and st: "pr_state r = S_Payload"
    and xs: "xs \<noteq> []" "length xs < unat (pr_remaining r)" and ys: "ys \<noteq> []"
  shows "(pack_iter P r xs = Inl e \<longrightarrow> pack_iter P r (xs @ ys) = Inl e)
    \<and> (pack_iter P r xs = Inr (evs, r1, rest1, again) \<longrightarrow>
         again \<and> evs = [Payload xs] \<and> rest1 = [] \<and> pr_state r1 = S_Payload
         \<and> (case pack_iter P r1 ys of
              Inl e' \<Rightarrow> pack_iter P r (xs @ ys) = Inl e'
            | Inr (evs', r2, rest2, again') \<Rightarrow>
                \<exists>p es. evs' = Payload p # es \<and> again'
                  \<and> pack_iter P r (xs @ ys) = Inr (Payload (xs @ p) # es, r2, rest2, True)))"
proof -
  define n where "n = length xs"
  define r' where "r' = payload_read r n"
  define m where "m = payload_take r' ys"
  have tx: "payload_take r xs = n" using xs by (simp add: payload_take_def n_def)
  have rem: "unat (pr_remaining r - of_nat n) = unat (pr_remaining r) - n"
    and pb: "unat (pr_payload_bytes r + of_nat n) = unat (pr_payload_bytes r) + n"
    using payload_step_arith [OF ok st, of n] xs by (simp_all add: n_def)
  have nz: "pr_remaining r - of_nat n \<noteq> 0"
    using rem xs by (metis n_def unat_0 zero_less_diff less_irrefl)
  have st': "pr_state r' = S_Payload" using nz by (simp add: r'_def)
  have txy: "payload_take r (xs @ ys) = n + m"
    using rem xs by (simp add: payload_take_def m_def r'_def n_def min_def; arith)
  have tk: "take (n + m) (xs @ ys) = xs @ take m ys" "drop (n + m) (xs @ ys) = drop m ys"
    by (simp_all add: n_def)
  have r2: "payload_read r (n + m) = payload_read r' m" by (simp add: r'_def payload_read_add)
  have "n + m \<le> unat (pr_remaining r)"
    using rem xs by (simp add: m_def payload_take_def r'_def n_def min_def; arith)
  from payload_step_arith(2) [OF ok st this]
  have pbm: "unat (pr_payload_bytes r + of_nat (n + m)) = unat (pr_payload_bytes r) + (n + m)" .
  have grow: "pr_payload_bytes r' \<le> pr_payload_bytes (payload_read r' m)"
    unfolding r2 [symmetric] using pb pbm by (simp add: word_le_nat_alt r'_def)
  have ix: "pack_iter P r xs =
      (if pr_max_payload_bytes r < pr_payload_bytes r'
       then Inl (Failed (E_TooManyBytes (pr_max_payload_bytes r)))
       else Inr ([Payload xs], r', [], True))"
    using nz pack_iter_payload [OF st xs(1), of P]
    by (simp add: tx Let_def n_def [symmetric] r'_def [symmetric]) (simp add: r'_def n_def)
  have iy: "pack_iter P r' ys =
      (if pr_max_payload_bytes r < pr_payload_bytes (payload_read r' m)
       then Inl (Failed (E_TooManyBytes (pr_max_payload_bytes r)))
       else Inr (if pr_remaining (payload_read r' m) = 0 then [Payload (take m ys), Complete]
                 else [Payload (take m ys)], payload_read r' m, drop m ys, True))"
    using pack_iter_payload [OF st' ys, of P]
    by (simp add: Let_def m_def [symmetric]) (simp add: r'_def)
  have ne: "xs @ ys \<noteq> []" using ys by simp
  have ixy: "pack_iter P r (xs @ ys) =
      (if pr_max_payload_bytes r < pr_payload_bytes (payload_read r' m)
       then Inl (Failed (E_TooManyBytes (pr_max_payload_bytes r)))
       else Inr (if pr_remaining (payload_read r' m) = 0 then [Payload (xs @ take m ys), Complete]
                 else [Payload (xs @ take m ys)], payload_read r' m, drop m ys, True))"
    unfolding pack_iter_payload [OF st ne] txy Let_def r2 tk by (simp add: r'_def)
  show ?thesis
  proof (cases "pr_max_payload_bytes r < pr_payload_bytes r'")
    case True
    then have "pr_max_payload_bytes r < pr_payload_bytes (payload_read r' m)" using grow by simp
    with True show ?thesis by (simp add: ix ixy)
  next
    case False
    then show ?thesis using st' iy unfolding ix ixy by auto
  qed
qed

lemma payload_whole:
  assumes st: "pr_state r = S_Payload" and xs: "xs \<noteq> []" "unat (pr_remaining r) \<le> length xs"
  shows "pack_iter P r (xs @ ys) =
    (case pack_iter P r xs of
       Inl e \<Rightarrow> Inl e
     | Inr (evs, r1, rest1, again) \<Rightarrow>
         if again then Inr (evs, r1, rest1 @ ys, True) else pack_iter P r1 ys)"
proof -
  have t: "payload_take r (xs @ ys) = payload_take r xs" using xs by (simp add: payload_take_def)
  have le: "payload_take r xs \<le> length xs" by (simp add: payload_take_def)
  have ne: "xs @ ys \<noteq> []" using xs by simp
  show ?thesis
    unfolding pack_iter_payload [OF st ne] pack_iter_payload [OF st xs(1)] t Let_def
    using le by simp
qed

lemma norm_result_bind:
  "norm_result a = norm_result b \<Longrightarrow>
    norm_result (bind_r a (\<lambda>(e, r). Inr (es @ e, r))) = norm_result (bind_r b (\<lambda>(e, r). Inr (es @ e, r)))"
  by (cases a; cases b) (auto simp: norm_result_def dest: norm_cong_tail)

lemma bind_assoc_events:
  "bind_r (bind_r x (\<lambda>(e, r). Inr (es @ e, r))) (\<lambda>(e1, r1). bind_r (f r1) (\<lambda>(e2, r2). Inr (e1 @ e2, r2)))
   = bind_r (bind_r x (\<lambda>(e1, r1). bind_r (f r1) (\<lambda>(e2, r2). Inr (e1 @ e2, r2)))) (\<lambda>(e, r). Inr (es @ e, r))"
  by (cases x) (auto simp: bind_r_def split: sum.splits)

lemma push_append_step:
  assumes IH: "\<And>evs r1 rest1. pack_iter P r xs = Inr (evs, r1, rest1, True) \<Longrightarrow>
      norm_result (push P r1 (rest1 @ ys)) = norm_result (push_two P r1 rest1 ys)"
    and it: "pack_iter P r (xs @ ys) =
      (case pack_iter P r xs of
         Inl e \<Rightarrow> Inl e
       | Inr (evs, r1, rest1, again) \<Rightarrow>
           if again then Inr (evs, r1, rest1 @ ys, True) else pack_iter P r1 ys)"
  shows "norm_result (push P r (xs @ ys)) = norm_result (push_two P r xs ys)"
proof (cases "pack_iter P r xs")
  case (Inl e)
  then show ?thesis by (simp add: push_err it push_two_def)
next
  case (Inr b)
  obtain evs r1 rest1 again where b: "b = (evs, r1, rest1, again)" by (metis prod_cases4)
  show ?thesis
  proof (cases again)
    case True
    with Inr b have go: "pack_iter P r xs = Inr (evs, r1, rest1, True)" by simp
    then have "pack_iter P r (xs @ ys) = Inr (evs, r1, rest1 @ ys, True)" by (simp add: it)
    then have "push P r (xs @ ys) = bind_r (push P r1 (rest1 @ ys)) (\<lambda>(e, r). Inr (evs @ e, r))"
      by (rule push_go)
    also have "norm_result \<dots> = norm_result (bind_r (push_two P r1 rest1 ys) (\<lambda>(e, r). Inr (evs @ e, r)))"
      by (rule norm_result_bind [OF IH [OF go]])
    also have "bind_r (push_two P r1 rest1 ys) (\<lambda>(e, r). Inr (evs @ e, r)) = push_two P r xs ys"
      unfolding push_two_def push_go [OF go] bind_assoc_events ..
    finally show ?thesis .
  next
    case False
    with Inr b have stop: "pack_iter P r xs = Inr (evs, r1, rest1, False)" by simp
    with it have "push P r (xs @ ys) = push P r1 ys" by (intro push_iter_cong) simp
    moreover have "evs = []" using iter_stop [OF stop] by blast
    ultimately show ?thesis
      by (simp add: push_two_def push_stop [OF stop] bind_r_def split: sum.splits)
  qed
qed

lemma push_append_payload:
  assumes P: "protocol_ok P" and ok: "reader_ok P r" and st: "pr_state r = S_Payload"
    and xs: "xs \<noteq> []" "length xs < unat (pr_remaining r)" and ys: "ys \<noteq> []"
  shows "norm_result (push P r (xs @ ys)) = norm_result (push_two P r xs ys)"
proof (cases "pack_iter P r xs")
  case (Inl e)
  with payload_cut [OF ok st xs ys, where e = e] show ?thesis by (simp add: push_err push_two_def)
next
  case (Inr b)
  obtain evs r1 rest1 again where b: "b = (evs, r1, rest1, again)" by (metis prod_cases4)
  note cut = payload_cut [OF ok st xs ys, THEN conjunct2, THEN mp, OF Inr [unfolded b]]
  have go: "pack_iter P r xs = Inr ([Payload xs], r1, [], True)" using Inr b cut by simp
  have ok1: "reader_ok P r1" by (rule iter_reader_ok [OF P ok go])
  have px: "push P r xs = Inr ([Payload xs], r1)" by (simp add: push_go [OF go] push_nil [OF P ok1])
  show ?thesis
  proof (cases "pack_iter P r1 ys")
    case (Inl e)
    with cut show ?thesis by (simp add: push_err push_two_def px)
  next
    case (Inr c)
    obtain evs' r2 rest2 again' where c: "c = (evs', r2, rest2, again')" by (metis prod_cases4)
    from cut Inr c obtain p es where e: "evs' = Payload p # es" and ag: again'
      and xy: "pack_iter P r (xs @ ys) = Inr (Payload (xs @ p) # es, r2, rest2, True)" by auto
    have y: "pack_iter P r1 ys = Inr (Payload p # es, r2, rest2, True)" using Inr c e ag by simp
    show ?thesis
      by (simp add: push_two_def px push_go [OF xy] push_go [OF y] norm_result_def bind_r_def
          norm_merge [of xs p, symmetric] del: norm.simps split: sum.splits)
  qed
qed

lemma push_append:
  "protocol_ok P \<Longrightarrow> reader_ok P r \<Longrightarrow>
    norm_result (push P r (xs @ ys)) = norm_result (push_two P r xs ys)"
proof (induction P r xs rule: push.induct)
  case (1 P r xs)
  note P = 1(2) and ok = 1(3)
  have IH: "norm_result (push P r1 (rest1 @ ys)) = norm_result (push_two P r1 rest1 ys)"
    if "pack_iter P r xs = Inr (evs, r1, rest1, True)" for evs r1 rest1
    using 1(1) [OF that refl refl refl] P iter_reader_ok [OF P ok that] by simp
  note step = push_append_step [of P r xs ys, OF IH]
  show ?case
  proof (cases "pr_state r")
    case S_Magic
    show ?thesis by (rule step [OF _ iter_append_magic [OF ok S_Magic]])
  next
    case S_Header
    show ?thesis by (rule step [OF _ iter_append_header [OF ok S_Header]])
  next
    case S_Payload
    consider "xs = []" | "ys = []" | "xs \<noteq> []" "ys \<noteq> []" "length xs < unat (pr_remaining r)"
      | "xs \<noteq> []" "unat (pr_remaining r) \<le> length xs" by linarith
    then show ?thesis
    proof cases
      case 1
      then show ?thesis
        by (simp add: push_two_def push_nil [OF P ok] bind_r_def split: sum.splits)
    next
      case 2
      show ?thesis
      proof (cases "push P r xs")
        case (Inr q)
        obtain e r1 where q: "q = (e, r1)" by fastforce
        show ?thesis using push_reader_ok [OF P ok] Inr q 2
          by (simp add: push_two_def push_nil [OF P])
      qed (simp add: push_two_def 2)
    next
      case 3
      then show ?thesis by (intro push_append_payload [OF P ok S_Payload])
    next
      case 4
      show ?thesis by (rule step [OF _ payload_whole [OF S_Payload 4]])
    qed
  qed
qed

text \<open>A body in any number of chunks.\<close>

theorem push_all_concat:
  "protocol_ok P \<Longrightarrow> reader_ok P r \<Longrightarrow>
    norm_result (push_all P r cs) = norm_result (push P r (concat cs))"
proof (induction cs arbitrary: r)
  case Nil
  then show ?case by (simp add: push_nil)
next
  case (Cons c cs)
  have "norm_result (push P r (concat (c # cs))) = norm_result (push_two P r c (concat cs))"
    using push_append [OF Cons.prems] by simp
  also have "\<dots> = norm_result (push_all P r (c # cs))"
  proof (cases "push P r c")
    case (Inr q)
    obtain e r1 where q: "q = (e, r1)" by fastforce
    have "norm_result (push_all P r1 cs) = norm_result (push P r1 (concat cs))"
      using push_reader_ok [OF Cons.prems] Inr q by (intro Cons.IH Cons.prems(1)) simp
    from norm_result_bind [OF this, of e] show ?thesis
      by (simp add: push_two_def Inr q)
  qed (simp add: push_two_def)
  finally show ?case by simp
qed

text \<open>The bounds a reader was made with never change.\<close>

lemma iter_limits:
  assumes "pack_iter P r xs = Inr (evs, r1, rest1, again)"
  shows "pr_max_blob_bytes r1 = pr_max_blob_bytes r \<and> pr_max_blobs r1 = pr_max_blobs r
    \<and> pr_max_payload_bytes r1 = pr_max_payload_bytes r"
  using assms
  by (auto simp: pack_iter_def fill_def Let_def bind_r_eq_Inr split: pack_state.splits if_split_asm)

lemma push_limits:
  "push P r xs = Inr (evs, r') \<Longrightarrow>
    pr_max_blob_bytes r' = pr_max_blob_bytes r \<and> pr_max_blobs r' = pr_max_blobs r
    \<and> pr_max_payload_bytes r' = pr_max_payload_bytes r"
proof (induction P r xs arbitrary: evs r' rule: push.induct)
  case (1 P r xs)
  obtain e r1 rest1 again where it: "pack_iter P r xs = Inr (e, r1, rest1, again)"
    using 1(2) by (cases "pack_iter P r xs") (auto simp: push_err)
  show ?case
  proof (cases again)
    case True
    with it have go: "pack_iter P r xs = Inr (e, r1, rest1, True)" by simp
    from 1(2) obtain e' where p1: "push P r1 rest1 = Inr (e', r')"
      unfolding push_go [OF go] by (auto simp: bind_r_eq_Inr)
    from 1(1) [OF go refl refl refl TrueI p1] iter_limits [OF it] show ?thesis by simp
  next
    case False
    with it 1(2) iter_limits [OF it] show ?thesis by (simp add: push_stop)
  qed
qed

section \<open>Every byte is accounted for\<close>

fun wire :: "protocol \<Rightarrow> pack_event \<Rightarrow> bytes" where
  "wire P (Started d) = frame_header P d"
| "wire P (Payload p) = p"
| "wire P Complete = []"

abbreviation wires :: "protocol \<Rightarrow> pack_event list \<Rightarrow> bytes" where
  "wires P evs \<equiv> concat (map (wire P) evs)"

definition lead :: "protocol \<Rightarrow> pack_reader \<Rightarrow> pack_reader \<Rightarrow> bytes" where
  "lead P r r' = (if pr_state r = S_Magic \<and> pr_state r' \<noteq> S_Magic then blob_pack_magic P else [])"

lemma iter_conserves:
  assumes P: "protocol_ok P" and ok: "reader_ok P r"
    and go: "pack_iter P r xs = Inr (evs, r1, rest1, True)"
  shows "pr_buffer r @ xs = lead P r r1 @ wires P evs @ pr_buffer r1 @ rest1 \<and> pr_state r1 \<noteq> S_Magic"
proof (cases "pr_state r")
  case S_Magic
  then have len: "length (pr_buffer r) < length (blob_pack_magic P)" using ok by (simp add: reader_ok_def)
  from iter_magic [OF S_Magic go] obtain r0 where
    f: "fill r xs (length (blob_pack_magic P)) = (True, r0, rest1)"
    and "pr_buffer r0 = blob_pack_magic P" "evs = []" "r1 = r0\<lparr>pr_buffer := [], pr_state := S_Header\<rparr>"
    by blast
  with fill_ok(2) [OF len f] S_Magic show ?thesis by (simp add: lead_def)
next
  case S_Header
  then have len: "length (pr_buffer r) < blob_pack_header_bytes P" using ok by (simp add: reader_ok_def)
  from iter_header [OF S_Header go] obtain r0 d where
    f: "fill r xs (blob_pack_header_bytes P) = (True, r0, rest1)"
    and d: "parse_header P r0 = Inr d" and r1: "r1 = header_read r0 d"
    and e: "evs = (if d_size d = 0 then [Started d, Complete] else [Started d])" by blast
  have "length (pr_buffer r0) = 41" using fill_ok(3) [OF len f] protocol_sizes [OF P] by simp
  from parse_header_sound(1) [OF P this d] fill_ok(2) [OF len f] S_Header e show ?thesis
    by (simp add: lead_def r1)
next
  case S_Payload
  then have b: "pr_buffer r = []" using ok by (simp add: reader_ok_def)
  from iter_payload [OF S_Payload go refl] b S_Payload show ?thesis by (auto simp: lead_def)
qed

lemma push_conserves:
  "protocol_ok P \<Longrightarrow> reader_ok P r \<Longrightarrow> push P r xs = Inr (evs, r') \<Longrightarrow>
    pr_buffer r @ xs = lead P r r' @ wires P evs @ pr_buffer r'
    \<and> (pr_state r \<noteq> S_Magic \<longrightarrow> pr_state r' \<noteq> S_Magic)"
proof (induction P r xs arbitrary: evs r' rule: push.induct)
  case (1 P r xs)
  note P = 1(2) and ok = 1(3)
  obtain e r1 rest1 again where it: "pack_iter P r xs = Inr (e, r1, rest1, again)"
    using 1(4) by (cases "pack_iter P r xs") (auto simp: push_err)
  show ?case
  proof (cases again)
    case True
    with it have go: "pack_iter P r xs = Inr (e, r1, rest1, True)" by simp
    from 1(4) obtain e' where p1: "push P r1 rest1 = Inr (e', r')" and evs: "evs = e @ e'"
      unfolding push_go [OF go] by (auto simp: bind_r_eq_Inr)
    note IH = 1(1) [OF go refl refl refl TrueI P iter_reader_ok [OF P ok go] p1]
    from IH iter_conserves [OF P ok go] show ?thesis by (auto simp: evs lead_def)
  next
    case False
    with it have stop: "pack_iter P r xs = Inr (e, r1, rest1, False)" by simp
    with 1(4) have "evs = e" "r' = r1" by (simp_all add: push_stop)
    moreover from iter_stop [OF stop] have "e = []" by simp
    moreover have "pr_buffer r @ xs = pr_buffer r1 \<and> pr_state r1 = pr_state r"
    proof (cases "pr_state r")
      case S_Magic
      then have "length (pr_buffer r) < length (blob_pack_magic P)" using ok by (simp add: reader_ok_def)
      moreover have f: "fill r xs (length (blob_pack_magic P)) = (False, r1, rest1)"
        using iter_stop [OF stop] S_Magic by simp
      ultimately show ?thesis using fill_ok [of r _ xs False r1 rest1] fill_state [OF f] by force
    next
      case S_Header
      then have len: "length (pr_buffer r) < blob_pack_header_bytes P" using ok by (simp add: reader_ok_def)
      from iter_stop [OF stop] S_Header consider "xs = []" "r1 = r"
        | "fill r xs (blob_pack_header_bytes P) = (False, r1, rest1)" by auto
      then show ?thesis
      proof cases
        case 2
        from fill_ok [OF len 2] fill_state [OF 2] show ?thesis by simp
      qed simp
    next
      case S_Payload
      with iter_stop [OF stop] show ?thesis by simp
    qed
    ultimately show ?thesis by (simp add: lead_def)
  qed
qed

section \<open>Events are frames\<close>

type_synonym frame = "digest \<times> bytes"

text \<open>The frames a run of events completes, and the frame it leaves open; \<open>None\<close> when an event comes
  out of place.\<close>

fun collect :: "frame option \<Rightarrow> pack_event list \<Rightarrow> (frame list \<times> frame option) option" where
  "collect cur [] = Some ([], cur)"
| "collect cur (Started d # es) = (case cur of None \<Rightarrow> collect (Some (d, [])) es | Some _ \<Rightarrow> None)"
| "collect cur (Payload p # es) =
     (case cur of None \<Rightarrow> None | Some (d, b) \<Rightarrow> collect (Some (d, b @ p)) es)"
| "collect cur (Complete # es) =
     (case cur of None \<Rightarrow> None | Some f \<Rightarrow> map_option (\<lambda>(fs, c). (f # fs, c)) (collect None es))"

definition frame_bytes :: "protocol \<Rightarrow> frame \<Rightarrow> bytes" where
  "frame_bytes P f = frame_header P (fst f) @ snd f"

definition frame_valid :: "protocol \<Rightarrow> u64 \<Rightarrow> frame \<Rightarrow> bool" where
  "frame_valid P max_blob_bytes f \<longleftrightarrow>
     digest_ok P (fst f) \<and> length (snd f) = unat (d_size (fst f)) \<and> d_size (fst f) \<le> max_blob_bytes"

definition payload_total :: "frame list \<Rightarrow> nat" where
  "payload_total fs = sum_list (map (\<lambda>f. length (snd f)) fs)"

lemma collect_append:
  "collect cur (as @ bs) =
    (case collect cur as of None \<Rightarrow> None
     | Some (fs, c) \<Rightarrow> map_option (\<lambda>(fs', c'). (fs @ fs', c')) (collect c bs))"
  by (induction cur as rule: collect.induct)
    (auto simp: option.map_comp comp_def split_def map_option_case split: option.splits prod.splits)

lemma collect_norm: "collect cur (norm es) = collect cur es"
proof (induction es arbitrary: cur rule: norm.induct)
  case (2 p es)
  have "collect cur (Payload p # es) = collect cur (Payload p # norm es)"
    using 2 by (simp split: option.splits)
  also have "\<dots> = collect cur (norm (Payload p # es))"
    by (auto split: list.splits pack_event.splits option.splits)
  finally show ?case by simp
qed (auto split: option.splits)

lemma wires_collect:
  "collect cur es = Some (fs, cur') \<Longrightarrow>
    (case cur of None \<Rightarrow> [] | Some f \<Rightarrow> frame_bytes P f) @ wires P es =
      concat (map (frame_bytes P) fs) @ (case cur' of None \<Rightarrow> [] | Some f \<Rightarrow> frame_bytes P f)"
proof (induction cur es arbitrary: fs rule: collect.induct)
  case (3 cur p es)
  then show ?case by (cases cur) (auto simp: frame_bytes_def)
qed (auto simp: frame_bytes_def split: option.splits)

definition open_ok :: "protocol \<Rightarrow> frame option \<Rightarrow> pack_reader \<Rightarrow> bool" where
  "open_ok P cur r \<longleftrightarrow>
     (case pr_state r of
        S_Payload \<Rightarrow> (\<exists>d b. cur = Some (d, b) \<and> length b + unat (pr_remaining r) = unat (d_size d)
          \<and> digest_ok P d \<and> d_size d \<le> pr_max_blob_bytes r)
      | _ \<Rightarrow> cur = None)"

definition open_count :: "frame option \<Rightarrow> nat" where
  "open_count cur = (case cur of None \<Rightarrow> 0 | Some _ \<Rightarrow> 1)"

definition open_bytes :: "frame option \<Rightarrow> nat" where
  "open_bytes cur = (case cur of None \<Rightarrow> 0 | Some f \<Rightarrow> length (snd f))"

text \<open>What a run of the reader from \<open>r\<close> to \<open>r'\<close> with events \<open>evs\<close> amounts to.\<close>

definition collects :: "protocol \<Rightarrow> frame option \<Rightarrow> pack_reader \<Rightarrow> pack_event list
    \<Rightarrow> pack_reader \<Rightarrow> frame list \<Rightarrow> frame option \<Rightarrow> bool" where
  "collects P cur r evs r' fs cur' \<longleftrightarrow>
     collect cur evs = Some (fs, cur') \<and> open_ok P cur' r'
     \<and> (\<forall>f \<in> set fs. frame_valid P (pr_max_blob_bytes r) f)
     \<and> pr_max_blob_bytes r' = pr_max_blob_bytes r
     \<and> unat (pr_blobs r') + open_count cur = unat (pr_blobs r) + length fs + open_count cur'
     \<and> unat (pr_payload_bytes r') + open_bytes cur
         = unat (pr_payload_bytes r) + payload_total fs + open_bytes cur'"

lemma collects_refl: "open_ok P cur r \<Longrightarrow> collects P cur r [] r [] cur"
  by (simp add: collects_def payload_total_def)

lemma collects_refl_buffer:
  "r1 = r\<lparr>pr_buffer := b\<rparr> \<Longrightarrow> open_ok P cur r \<Longrightarrow> collects P cur r [] r1 [] cur"
  by (cases "pr_state r") (simp_all add: collects_def open_ok_def payload_total_def)

lemma collects_trans:
  assumes "collects P cur r e1 r1 fs1 c1" and "collects P c1 r1 e2 r2 fs2 c2"
  shows "collects P cur r (e1 @ e2) r2 (fs1 @ fs2) c2"
  using assms by (auto simp: collects_def collect_append payload_total_def)

lemma iter_collects:
  assumes P: "protocol_ok P" and ok: "reader_ok P r" and op: "open_ok P cur r"
    and go: "pack_iter P r xs = Inr (evs, r1, rest1, True)"
  shows "\<exists>fs cur'. collects P cur r evs r1 fs cur'"
proof (cases "pr_state r")
  case S_Magic
  from iter_magic [OF S_Magic go] obtain r0 where
    f: "fill r xs (length (blob_pack_magic P)) = (True, r0, rest1)"
    and e: "evs = []" "r1 = r0\<lparr>pr_buffer := [], pr_state := S_Header\<rparr>" by blast
  from ok S_Magic have "length (pr_buffer r) < length (blob_pack_magic P)" by (simp add: reader_ok_def)
  from fill_ok(1) [OF this f] obtain b where "r0 = r\<lparr>pr_buffer := b\<rparr>" by blast
  moreover from op S_Magic have "cur = None" by (simp add: open_ok_def)
  ultimately have "collects P cur r evs r1 [] None"
    by (simp add: collects_def open_ok_def e payload_total_def)
  then show ?thesis by blast
next
  case S_Header
  from iter_header [OF S_Header go] obtain r0 d where
    f: "fill r xs (blob_pack_header_bytes P) = (True, r0, rest1)"
    and d: "parse_header P r0 = Inr d" and bl: "pr_blobs r1 \<le> pr_max_blobs r1"
    and r1: "r1 = header_read r0 d"
    and e: "evs = (if d_size d = 0 then [Started d, Complete] else [Started d])" by blast
  from ok S_Header have len: "length (pr_buffer r) < blob_pack_header_bytes P" by (simp add: reader_ok_def)
  from fill_ok(1) [OF this f] obtain b where r0: "r0 = r\<lparr>pr_buffer := b\<rparr>" by blast
  have "length (pr_buffer r0) = 41" using fill_ok(3) [OF len f] protocol_sizes [OF P] by simp
  from parse_header_sound [OF P this d] have dk: "digest_ok P d" "d_size d \<le> pr_max_blob_bytes r"
    by (simp_all add: r0)
  have "unat (pr_blobs r) \<le> unat (pr_max_blobs r)" and "unat (pr_max_blobs r) + 1 < 2 ^ 64"
    using ok by (simp_all add: reader_ok_def limits_ok_def word_le_nat_alt)
  then have "unat (pr_blobs r + 1) = unat (pr_blobs r) + 1" by (intro unat_add_no_overflow [THEN trans]) simp_all
  moreover from op S_Header have "cur = None" by (simp add: open_ok_def)
  ultimately have "collects P cur r evs r1 (if d_size d = 0 then [(d, [])] else [])
      (if d_size d = 0 then None else Some (d, []))"
    using dk by (simp add: collects_def e r1 r0 open_ok_def frame_valid_def open_count_def
        open_bytes_def payload_total_def)
  then show ?thesis by blast
next
  case S_Payload
  define n where "n = payload_take r xs"
  from iter_payload [OF S_Payload go n_def] have r1: "r1 = payload_read r n"
    and e: "evs = (if pr_remaining r1 = 0 then [Payload (take n xs), Complete] else [Payload (take n xs)])"
    by blast+
  have n: "n \<le> unat (pr_remaining r)" "length (take n xs) = n" by (simp_all add: n_def payload_take_def)
  note ar = payload_step_arith [OF ok S_Payload n(1)]
  from op S_Payload obtain d b where cur: "cur = Some (d, b)"
    and sz: "length b + unat (pr_remaining r) = unat (d_size d)" and dk: "digest_ok P d"
    "d_size d \<le> pr_max_blob_bytes r" by (auto simp: open_ok_def)
  have z: "length b + n = unat (d_size d)" if "pr_remaining r = of_nat n"
  proof -
    from that ar(1) have "unat (pr_remaining r) - n = 0" by simp
    with sz n(1) show ?thesis by simp
  qed
  note z' = z [unfolded add.commute [of "length b"]]
  have "collects P cur r evs r1 (if pr_remaining r1 = 0 then [(d, b @ take n xs)] else [])
      (if pr_remaining r1 = 0 then None else Some (d, b @ take n xs))"
    using dk sz ar n z z' by (simp add: collects_def e r1 cur open_ok_def frame_valid_def open_count_def
        open_bytes_def payload_total_def)
  then show ?thesis by blast
qed


lemma iter_stop_open:
  assumes "pack_iter P r xs = Inr (evs, r1, rest1, False)" and "open_ok P cur r"
  shows "collects P cur r [] r1 [] cur"
proof (cases "pr_state r")
  case S_Payload
  with iter_stop [OF assms(1)] have "r1 = r" by simp
  with assms(2) show ?thesis by (simp add: collects_refl)
next
  case S_Magic
  then obtain w where f: "fill r xs w = (False, r1, rest1)" using iter_stop [OF assms(1)] by auto
  then have "r1 = r\<lparr>pr_buffer := pr_buffer r1\<rparr>" using fill_conserves by blast
  then show ?thesis using assms(2) by (rule collects_refl_buffer)
next
  case S_Header
  then consider "r1 = r" | w where "fill r xs w = (False, r1, rest1)" using iter_stop [OF assms(1)] by auto
  then show ?thesis
  proof cases
    case 1
    with assms(2) show ?thesis by (simp add: collects_refl)
  next
    case 2
    then have "r1 = r\<lparr>pr_buffer := pr_buffer r1\<rparr>" using fill_conserves by blast
    then show ?thesis using assms(2) by (rule collects_refl_buffer)
  qed
qed

lemma push_collects:
  "protocol_ok P \<Longrightarrow> reader_ok P r \<Longrightarrow> open_ok P cur r \<Longrightarrow> push P r xs = Inr (evs, r') \<Longrightarrow>
    \<exists>fs cur'. collects P cur r evs r' fs cur'"
proof (induction P r xs arbitrary: cur evs r' rule: push.induct)
  case (1 P r xs)
  note P = 1(2) and ok = 1(3) and op = 1(4)
  obtain e r1 rest1 again where it: "pack_iter P r xs = Inr (e, r1, rest1, again)"
    using 1(5) by (cases "pack_iter P r xs") (auto simp: push_err)
  show ?case
  proof (cases again)
    case True
    with it have go: "pack_iter P r xs = Inr (e, r1, rest1, True)" by simp
    from 1(5) obtain e' where p1: "push P r1 rest1 = Inr (e', r')" and evs: "evs = e @ e'"
      unfolding push_go [OF go] by (auto simp: bind_r_eq_Inr)
    from iter_collects [OF P ok op go] obtain fs c where c1: "collects P cur r e r1 fs c" by blast
    then have "open_ok P c r1" by (simp add: collects_def)
    from 1(1) [OF go refl refl refl TrueI P iter_reader_ok [OF P ok go] this p1]
    obtain fs' c' where "collects P c r1 e' r' fs' c'" by blast
    from collects_trans [OF c1 this] show ?thesis unfolding evs by blast
  next
    case False
    with it have stop: "pack_iter P r xs = Inr (e, r1, rest1, False)" by simp
    with 1(5) have "evs = []" "r' = r1" using iter_stop [OF stop] by (simp_all add: push_stop)
    with iter_stop_open [OF stop op] show ?thesis by blast
  qed
qed

lemma iter_no_panic:
  assumes P: "protocol_ok P" and ok: "reader_ok P r"
  shows "pack_iter P r xs \<noteq> Inl Panicked"
proof (cases "pr_state r")
  case S_Magic
  then show ?thesis by (simp add: pack_iter_def split: prod.split)
next
  case S_Payload
  then show ?thesis by (simp add: pack_iter_def Let_def)
next
  case S_Header
  show ?thesis
  proof (cases "xs = [] \<and> pr_buffer r = []")
    case True
    with S_Header show ?thesis by (simp add: pack_iter_def)
  next
    case False
    obtain full r1 rest1 where f: "fill r xs (blob_pack_header_bytes P) = (full, r1, rest1)"
      by (metis prod_cases3)
    from ok S_Header have "length (pr_buffer r) < blob_pack_header_bytes P" by (simp add: reader_ok_def)
    from fill_ok(3) [OF this f] have "full \<Longrightarrow> length (pr_buffer r1) = 41"
      using protocol_sizes [OF P] by simp
    from parse_header_no_panic [OF P this] show ?thesis
      unfolding pack_iter_header [OF S_Header False f]
      by (cases full; cases "parse_header P r1") auto
  qed
qed

lemma push_no_panic:
  "protocol_ok P \<Longrightarrow> reader_ok P r \<Longrightarrow> push P r xs \<noteq> Inl Panicked"
proof (induction P r xs rule: push.induct)
  case (1 P r xs)
  note P = 1(2) and ok = 1(3)
  show ?case
  proof (cases "pack_iter P r xs")
    case (Inl e)
    with iter_no_panic [OF P ok, of xs] show ?thesis by (simp add: push_err)
  next
    case (Inr b)
    obtain e r1 rest1 again where b: "b = (e, r1, rest1, again)" by (metis prod_cases4)
    show ?thesis
    proof (cases again)
      case True
      with Inr b have go: "pack_iter P r xs = Inr (e, r1, rest1, True)" by simp
      from 1(1) [OF go refl refl refl TrueI P iter_reader_ok [OF P ok go]]
      show ?thesis by (auto simp: push_go [OF go] bind_r_eq_Inl)
    next
      case False
      with Inr b show ?thesis by (simp add: push_stop)
    qed
  qed
qed

end
