(* ===== verification/Pack_Spec.thy ===== *)
theory Pack_Spec
  imports Pack_Frames
begin

text \<open>
  The pack format as a specification: \<open>encode_pack\<close> is the byte sequence of a list of frames. The
  reader implements it: a valid sequence within the limits is read back as its frames
  (\<open>push_wires_complete\<close>), and whatever the reader accepts is such a sequence
  (\<open>push_all_sound\<close>).
\<close>

definition encode_pack :: "protocol \<Rightarrow> frame list \<Rightarrow> bytes" where
  "encode_pack P fs = blob_pack_magic P @ concat (map (frame_bytes P) fs)"

definition frame_events :: "frame \<Rightarrow> pack_event list" where
  "frame_events f = Started (fst f) # (if snd f = [] then [] else [Payload (snd f)]) @ [Complete]"

definition frame_read :: "pack_reader \<Rightarrow> frame \<Rightarrow> pack_reader" where
  "frame_read r f = r\<lparr>pr_remaining := 0, pr_blobs := pr_blobs r + 1,
     pr_payload_bytes := pr_payload_bytes r + of_nat (length (snd f))\<rparr>"

lemma fill_exact: "pr_buffer r = [] \<Longrightarrow> length h = w \<Longrightarrow>
    fill r (h @ rest) w = (True, r\<lparr>pr_buffer := h\<rparr>, rest)"
  by (simp add: fill_def Let_def min_def)

lemma push_bind_bind:
  "bind_r (bind_r x (\<lambda>(e, r). Inr (a @ e, r))) (\<lambda>(e, r). Inr (b @ e, r))
    = bind_r x (\<lambda>(e, r). Inr ((b @ a) @ e, r))"
  by (cases x) auto

text \<open>One frame at the start of the input.\<close>

lemma push_frame:
  assumes P: "protocol_ok P" and st: "pr_state r = S_Header" "pr_buffer r = []"
    and v: "frame_valid P (pr_max_blob_bytes r) f"
    and bl: "unat (pr_blobs r) + 1 \<le> unat (pr_max_blobs r)"
    and pb: "unat (pr_payload_bytes r) + length (snd f) \<le> unat (pr_max_payload_bytes r)"
  shows "push P r (frame_bytes P f @ rest) =
    bind_r (push P (frame_read r f) rest) (\<lambda>(e, r'). Inr (frame_events f @ e, r'))"
proof -
  obtain d b where f: "f = (d, b)" by fastforce
  have dk: "digest_ok P d" "length b = unat (d_size d)" "d_size d \<le> pr_max_blob_bytes r"
    using v by (simp_all add: frame_valid_def f)
  define h where "h = frame_header P d"
  have len: "length h = 41" using length_frame_header [OF P dk(1)] by (simp add: h_def)
  have fb: "frame_bytes P f @ rest = h @ b @ rest" by (simp add: f frame_bytes_def h_def)
  have ne: "\<not> (h @ b @ rest = [] \<and> pr_buffer r = [])" using len by auto
  have fl: "fill r (h @ b @ rest) (blob_pack_header_bytes P) = (True, r\<lparr>pr_buffer := h\<rparr>, b @ rest)"
    using fill_exact [OF st(2)] len protocol_sizes [OF P] by simp
  have ph: "parse_header P (r\<lparr>pr_buffer := h\<rparr>) = Inr d"
    using parse_header_complete [OF P dk(1), of "r\<lparr>pr_buffer := h\<rparr>"] dk(3) by (simp add: h_def not_less)
  have "unat (pr_blobs r + 1) = unat (pr_blobs r) + 1"
    using bl unat_u64_lt [of "pr_max_blobs r"]
    by (intro unat_add_no_overflow [THEN trans]) (simp_all del: unat_u64_lt)
  with bl have nb: "\<not> pr_max_blobs r < pr_blobs r + 1" by (simp add: word_less_nat_alt)
  define r1 where "r1 = header_read (r\<lparr>pr_buffer := h\<rparr>) d"
  have it: "pack_iter P r (h @ b @ rest) =
      Inr (if d_size d = 0 then [Started d, Complete] else [Started d], r1, b @ rest, True)"
    using nb unfolding pack_iter_header [OF st(1) ne fl] ph by (simp add: r1_def)
  show ?thesis
  proof (cases "b = []")
    case True
    with dk(2) have z: "d_size d = 0" by (metis list.size(3) unat_eq_zero)
    have "r1 = frame_read r f"
      using z st True by (simp add: r1_def header_read_def frame_read_def f)
    then show ?thesis unfolding fb push_go [OF it] using z True by (simp add: f frame_events_def)
  next
    case False
    then have z: "d_size d \<noteq> 0" using dk(2) by (metis length_0_conv unat_0)
    have s1: "pr_state r1 = S_Payload" and rem: "pr_remaining r1 = d_size d"
      using z by (simp_all add: r1_def)
    have nb: "b @ rest \<noteq> []" using False by simp
    have tk: "payload_take r1 (b @ rest) = length b" using dk(2) rem by (simp add: payload_take_def)
    have rr: "payload_read r1 (length b) = frame_read r f"
      using dk(2) st by (simp add: r1_def payload_read_def header_read_def frame_read_def f)
    have "unat (pr_payload_bytes r + of_nat (length b)) = unat (pr_payload_bytes r) + length b"
      using pb unat_u64_lt [of "pr_max_payload_bytes r"] dk(2)
      by (intro unat_add_no_overflow [THEN trans]) (simp_all add: f del: unat_u64_lt)
    with pb have np: "\<not> pr_max_payload_bytes r < pr_payload_bytes r + of_nat (length b)"
      by (simp add: word_less_nat_alt f)
    have it2: "pack_iter P r1 (b @ rest) = Inr ([Payload b, Complete], frame_read r f, rest, True)"
      using np unfolding pack_iter_payload [OF s1 nb] tk rr Let_def by (simp add: frame_read_def f)
    show ?thesis
      unfolding fb push_go [OF it] push_go [OF it2] push_bind_bind
      using z False by (simp add: frame_events_def f)
  qed
qed

lemma frame_read_simps [simp]:
  "pr_state (frame_read r f) = pr_state r" "pr_buffer (frame_read r f) = pr_buffer r"
  "pr_max_blob_bytes (frame_read r f) = pr_max_blob_bytes r"
  "pr_max_blobs (frame_read r f) = pr_max_blobs r"
  "pr_max_payload_bytes (frame_read r f) = pr_max_payload_bytes r"
  by (simp_all add: frame_read_def)

lemma collect_frame_events:
  "collect None (frame_events f @ es) = map_option (\<lambda>(fs, c). (f # fs, c)) (collect None es)"
  by (cases f) (simp add: frame_events_def)

lemma frame_read_ok:
  assumes ok: "reader_ok P r" and st: "pr_state r = S_Header" "pr_buffer r = []"
    and v: "frame_valid P (pr_max_blob_bytes r) f"
    and bl: "unat (pr_blobs r) + 1 \<le> unat (pr_max_blobs r)"
    and pb: "unat (pr_payload_bytes r) + length (snd f) \<le> unat (pr_max_payload_bytes r)"
  shows "reader_ok P (frame_read r f)" and "unat (pr_blobs (frame_read r f)) = unat (pr_blobs r) + 1"
    and "unat (pr_payload_bytes (frame_read r f)) = unat (pr_payload_bytes r) + length (snd f)"
proof -
  have lt: "unat (pr_blobs r) + 1 < 2 ^ 64" "unat (pr_payload_bytes r) + length (snd f) < 2 ^ 64"
    using bl pb unat_u64_lt [of "pr_max_blobs r"] unat_u64_lt [of "pr_max_payload_bytes r"]
    by (simp_all del: unat_u64_lt)
  show b: "unat (pr_blobs (frame_read r f)) = unat (pr_blobs r) + 1"
    unfolding frame_read_def using unat_add_no_overflow [of "pr_blobs r" 1] lt(1) by simp
  have "length (snd f) = unat (d_size (fst f))" using v by (simp add: frame_valid_def)
  then show p: "unat (pr_payload_bytes (frame_read r f)) = unat (pr_payload_bytes r) + length (snd f)"
    unfolding frame_read_def
    using unat_add_no_overflow [of "pr_payload_bytes r" "of_nat (length (snd f))"] lt(2) by simp
  show "reader_ok P (frame_read r f)"
    using ok st b p bl pb by (simp add: reader_ok_def word_le_nat_alt)
qed

lemma push_frames:
  assumes "protocol_ok P"
  shows "reader_ok P r \<Longrightarrow> pr_state r = S_Header \<Longrightarrow> pr_buffer r = [] \<Longrightarrow>
    \<forall>f \<in> set fs. frame_valid P (pr_max_blob_bytes r) f \<Longrightarrow>
    unat (pr_blobs r) + length fs \<le> unat (pr_max_blobs r) \<Longrightarrow>
    unat (pr_payload_bytes r) + payload_total fs \<le> unat (pr_max_payload_bytes r) \<Longrightarrow>
    \<exists>evs r'. (\<forall>rest. push P r (concat (map (frame_bytes P) fs) @ rest)
          = bind_r (push P r' rest) (\<lambda>(e, r''). Inr (evs @ e, r'')))
      \<and> (\<forall>es. collect None (evs @ es) = map_option (\<lambda>(fs', c). (fs @ fs', c)) (collect None es))
      \<and> reader_ok P r' \<and> pr_state r' = S_Header \<and> pr_buffer r' = []
      \<and> pr_max_blob_bytes r' = pr_max_blob_bytes r \<and> pr_max_blobs r' = pr_max_blobs r
      \<and> pr_max_payload_bytes r' = pr_max_payload_bytes r
      \<and> unat (pr_blobs r') = unat (pr_blobs r) + length fs
      \<and> unat (pr_payload_bytes r') = unat (pr_payload_bytes r) + payload_total fs"
proof (induction fs arbitrary: r)
  case Nil
  have "push P r rest = bind_r (push P r rest) (\<lambda>(e, r''). Inr ([] @ e, r''))" for rest
    by (cases "push P r rest") auto
  then show ?case using Nil
    by (intro exI [of _ "[]"] exI [of _ r]) (simp add: payload_total_def option.map_ident)
next
  case (Cons f fs)
  have tot: "payload_total (f # fs) = length (snd f) + payload_total fs" by (simp add: payload_total_def)
  have v: "frame_valid P (pr_max_blob_bytes r) f" using Cons.prems by simp
  have bl: "unat (pr_blobs r) + 1 \<le> unat (pr_max_blobs r)"
    and pb: "unat (pr_payload_bytes r) + length (snd f) \<le> unat (pr_max_payload_bytes r)"
    using Cons.prems(5,6) tot by simp_all
  note fr = frame_read_ok [OF Cons.prems(1-3) v bl pb]
  from Cons.IH [OF fr(1)] obtain evs r' where
    p: "\<And>rest. push P (frame_read r f) (concat (map (frame_bytes P) fs) @ rest)
          = bind_r (push P r' rest) (\<lambda>(e, r''). Inr (evs @ e, r''))"
    and c: "\<And>es. collect None (evs @ es) = map_option (\<lambda>(fs', c). (fs @ fs', c)) (collect None es)"
    and o: "reader_ok P r' \<and> pr_state r' = S_Header \<and> pr_buffer r' = []
      \<and> pr_max_blob_bytes r' = pr_max_blob_bytes r \<and> pr_max_blobs r' = pr_max_blobs r
      \<and> pr_max_payload_bytes r' = pr_max_payload_bytes r"
    and n: "unat (pr_blobs r') = unat (pr_blobs r) + length (f # fs)"
      "unat (pr_payload_bytes r') = unat (pr_payload_bytes r) + payload_total (f # fs)"
    using Cons.prems(2-6) fr(2,3) tot by auto
  have "push P r (concat (map (frame_bytes P) (f # fs)) @ rest)
      = bind_r (push P r' rest) (\<lambda>(e, r''). Inr ((frame_events f @ evs) @ e, r''))" for rest
    using push_frame [OF assms Cons.prems(2,3) v bl pb, of "concat (map (frame_bytes P) fs) @ rest"]
    unfolding p push_bind_bind by simp
  moreover have "collect None ((frame_events f @ evs) @ es)
      = map_option (\<lambda>(fs', c). ((f # fs) @ fs', c)) (collect None es)" for es
    by (simp add: collect_frame_events c option.map_comp comp_def split_def)
  ultimately show ?case using o n by blast
qed

subsection \<open>Reading a whole body\<close>

definition header_reader :: "u64 \<Rightarrow> u64 \<Rightarrow> u64 \<Rightarrow> pack_reader" where
  "header_reader mb n mp = (new_reader mb n mp)\<lparr>pr_state := S_Header\<rparr>"

lemma push_magic:
  assumes "protocol_ok P"
  shows "push P (new_reader mb n mp) (blob_pack_magic P @ xs) = push P (header_reader mb n mp) xs"
proof -
  have "fill (new_reader mb n mp) (blob_pack_magic P @ xs) (length (blob_pack_magic P))
      = (True, (new_reader mb n mp)\<lparr>pr_buffer := blob_pack_magic P\<rparr>, xs)"
    by (rule fill_exact) (simp_all add: new_reader_def)
  then have "pack_iter P (new_reader mb n mp) (blob_pack_magic P @ xs)
      = Inr ([], header_reader mb n mp, xs, True)"
    by (simp add: pack_iter_def header_reader_def new_reader_def)
  from push_go [OF this] show ?thesis by (cases "push P (header_reader mb n mp) xs") auto
qed

lemma header_reader_ok:
  assumes "protocol_ok P" and "limits_ok mb n mp"
  shows "reader_ok P (header_reader mb n mp)" and "pr_state (header_reader mb n mp) = S_Header"
    and "pr_buffer (header_reader mb n mp) = []"
    and "pr_max_blob_bytes (header_reader mb n mp) = mb" "pr_max_blobs (header_reader mb n mp) = n"
    and "pr_max_payload_bytes (header_reader mb n mp) = mp"
    and "pr_blobs (header_reader mb n mp) = 0" "pr_payload_bytes (header_reader mb n mp) = 0"
  using assms by (simp_all add: header_reader_def new_reader_def reader_ok_def protocol_sizes)

text \<open>The whole body: every chunk, then the check that nothing is left over.\<close>

definition read_pack :: "protocol \<Rightarrow> pack_reader \<Rightarrow> bytes list \<Rightarrow> pack_failure + pack_event list" where
  "read_pack P r cs =
     bind_r (push_all P r cs) (\<lambda>(evs, r'). bind_r (map_err Failed (finish r')) (\<lambda>_. Inr evs))"

definition frames_within :: "protocol \<Rightarrow> u64 \<Rightarrow> u64 \<Rightarrow> u64 \<Rightarrow> frame list \<Rightarrow> bool" where
  "frames_within P mb n mp fs \<longleftrightarrow>
     list_all (frame_valid P mb) fs \<and> length fs \<le> unat n \<and> payload_total fs \<le> unat mp"

lemma norm_result_Inl [simp]: "norm_result x = Inl e \<longleftrightarrow> x = Inl e"
  "Inl e = norm_result x \<longleftrightarrow> x = Inl e"
  by (cases x; auto simp: norm_result_def)+

lemma norm_result_Inr: "norm_result x = Inr (es, r) \<longleftrightarrow> (\<exists>evs. x = Inr (evs, r) \<and> es = norm evs)"
  by (cases x) (auto simp: norm_result_def)

lemma push_all_as_push:
  assumes P: "protocol_ok P" "reader_ok P r"
  shows "push_all P r cs = Inl e \<longleftrightarrow> push P r (concat cs) = Inl e"
    and "push_all P r cs = Inr (evs, r') \<Longrightarrow>
      \<exists>evs'. push P r (concat cs) = Inr (evs', r') \<and> (\<forall>c. collect c evs' = collect c evs)"
    and "push P r (concat cs) = Inr (evs', r') \<Longrightarrow>
      \<exists>evs. push_all P r cs = Inr (evs, r') \<and> (\<forall>c. collect c evs = collect c evs')"
proof -
  note eq = push_all_concat [OF P, of cs]
  show "push_all P r cs = Inl e \<longleftrightarrow> push P r (concat cs) = Inl e"
    by (metis eq norm_result_Inl(1))
  show "\<exists>evs'. push P r (concat cs) = Inr (evs', r') \<and> (\<forall>c. collect c evs' = collect c evs)"
    if "push_all P r cs = Inr (evs, r')"
  proof -
    from that have "norm_result (push P r (concat cs)) = Inr (norm evs, r')"
      unfolding eq [symmetric] by (simp add: norm_result_def)
    then show ?thesis by (auto simp: norm_result_Inr) (metis collect_norm)
  qed
  show "\<exists>evs. push_all P r cs = Inr (evs, r') \<and> (\<forall>c. collect c evs = collect c evs')"
    if "push P r (concat cs) = Inr (evs', r')"
  proof -
    from that have "norm_result (push_all P r cs) = Inr (norm evs', r')"
      unfolding eq by (simp add: norm_result_def)
    then show ?thesis by (auto simp: norm_result_Inr) (metis collect_norm)
  qed
qed

lemma push_complete:
  assumes P: "protocol_ok P" and l: "limits_ok mb n mp" and w: "frames_within P mb n mp fs"
  shows "\<exists>evs r'. push P (new_reader mb n mp) (encode_pack P fs) = Inr (evs, r')
    \<and> collect None evs = Some (fs, None) \<and> finish r' = Inr ()"
proof -
  note h = header_reader_ok [OF P l]
  from push_frames [OF P h(1-3), of fs] w obtain evs r' where
    p: "\<And>rest. push P (header_reader mb n mp) (concat (map (frame_bytes P) fs) @ rest)
          = bind_r (push P r' rest) (\<lambda>(e, r''). Inr (evs @ e, r''))"
    and c: "\<And>es. collect None (evs @ es) = map_option (\<lambda>(fs', c). (fs @ fs', c)) (collect None es)"
    and o: "reader_ok P r'" "pr_state r' = S_Header" "pr_buffer r' = []"
    by (auto simp: h frames_within_def list_all_iff)
  have "push P (new_reader mb n mp) (encode_pack P fs) = Inr (evs, r')"
    using p [of "[]"] push_nil [OF P o(1)] by (simp add: encode_pack_def push_magic [OF P])
  moreover have "collect None evs = Some (fs, None)" using c [of "[]"] by simp
  ultimately show ?thesis using o by (simp add: finish_def)
qed

lemma push_sound:
  assumes P: "protocol_ok P" and l: "limits_ok mb n mp"
    and p: "push P (new_reader mb n mp) xs = Inr (evs, r')" and f: "finish r' = Inr ()"
  shows "\<exists>fs. collect None evs = Some (fs, None) \<and> xs = encode_pack P fs \<and> frames_within P mb n mp fs"
proof -
  define r where "r = new_reader mb n mp"
  note p = p [folded r_def]
  have r: "reader_ok P r" unfolding r_def by (rule reader_ok_new [OF P l])
  have z: "pr_state r = S_Magic" "pr_buffer r = []" "pr_blobs r = 0" "pr_payload_bytes r = 0"
    "pr_max_blob_bytes r = mb" by (simp_all add: r_def new_reader_def)
  have "open_ok P None r" by (simp add: open_ok_def z)
  from push_collects [OF P r this p] obtain fs cur' where c: "collects P None r evs r' fs cur'" by blast
  from f have s: "pr_state r' = S_Header" "pr_buffer r' = []"
    by (auto simp: finish_def split: if_splits)
  have n: "cur' = None" using c s by (simp add: collects_def open_ok_def)
  note c = c [unfolded collects_def n]
  have x: "xs = encode_pack P fs"
    using push_conserves [OF P r p] wires_collect [of None evs fs None] c s z
    by (simp add: lead_def encode_pack_def)
  have ok': "reader_ok P r'" by (rule push_reader_ok [OF P r p])
  have lim: "pr_max_blobs r' = n" "pr_max_payload_bytes r' = mp"
    using push_limits [OF p] by (simp_all add: r_def new_reader_def)
  have "length fs \<le> unat n" "payload_total fs \<le> unat mp"
    using c z ok' lim by (simp_all add: reader_ok_def word_le_nat_alt open_count_def open_bytes_def)
  with c x z show ?thesis by (auto simp: frames_within_def list_all_iff)
qed


subsection \<open>What comes after a valid prefix is refused by the limit it breaks\<close>

lemma push_limit_errors:
  assumes P: "protocol_ok P" and ok: "reader_ok P r" and st: "pr_state r = S_Header" "pr_buffer r = []"
    and d: "digest_ok P d"
  shows "pr_max_blob_bytes r < d_size d \<Longrightarrow> push P r (frame_header P d @ rest)
      = Inl (Failed (E_BlobTooLarge (d_size d) (pr_max_blob_bytes r)))"
    and "d_size d \<le> pr_max_blob_bytes r \<Longrightarrow> pr_blobs r = pr_max_blobs r \<Longrightarrow>
      push P r (frame_header P d @ rest) = Inl (Failed (E_TooManyBlobs (pr_max_blobs r)))"
    and "d_size d \<le> pr_max_blob_bytes r \<Longrightarrow> pr_blobs r < pr_max_blobs r \<Longrightarrow>
      unat (pr_max_payload_bytes r) < unat (pr_payload_bytes r) + min (unat (d_size d)) (length rest) \<Longrightarrow>
      push P r (frame_header P d @ rest) = Inl (Failed (E_TooManyBytes (pr_max_payload_bytes r)))"
proof -
  define h where "h = frame_header P d"
  have len: "length h = 41" using length_frame_header [OF P d] by (simp add: h_def)
  have ne: "\<not> (h @ rest = [] \<and> pr_buffer r = [])" using len by auto
  have fl: "fill r (h @ rest) (blob_pack_header_bytes P) = (True, r\<lparr>pr_buffer := h\<rparr>, rest)"
    using fill_exact [OF st(2)] len protocol_sizes [OF P] by simp
  note ph = parse_header_complete [OF P d, of "r\<lparr>pr_buffer := h\<rparr>"]
  note it = pack_iter_header [OF st(1) ne fl]
  show "push P r (frame_header P d @ rest) = Inl (Failed (E_BlobTooLarge (d_size d) (pr_max_blob_bytes r)))"
    if "pr_max_blob_bytes r < d_size d"
    using that ph it by (fold h_def) (simp add: h_def push_err)
  have b1: "unat (pr_blobs r + 1) = unat (pr_blobs r) + 1"
    using ok by (intro unat_add_no_overflow [THEN trans])
      (simp_all add: reader_ok_def limits_ok_def word_le_nat_alt)
  show "push P r (frame_header P d @ rest) = Inl (Failed (E_TooManyBlobs (pr_max_blobs r)))"
    if "d_size d \<le> pr_max_blob_bytes r" "pr_blobs r = pr_max_blobs r"
  proof -
    have "pr_max_blobs r < pr_blobs r + 1" using b1 that(2) by (simp add: word_less_nat_alt)
    with that(1) ph it show ?thesis by (fold h_def) (simp add: h_def push_err not_less)
  qed
  assume s: "d_size d \<le> pr_max_blob_bytes r" and bl: "pr_blobs r < pr_max_blobs r"
    and tot: "unat (pr_max_payload_bytes r) < unat (pr_payload_bytes r) + min (unat (d_size d)) (length rest)"
  define r1 where "r1 = header_read (r\<lparr>pr_buffer := h\<rparr>) d"
  define k where "k = min (unat (d_size d)) (length rest)"
  have pl: "unat (pr_payload_bytes r) \<le> unat (pr_max_payload_bytes r)"
    using ok by (simp add: reader_ok_def word_le_nat_alt)
  with tot have kz: "0 < k" unfolding k_def by linarith
  then have nz: "d_size d \<noteq> 0" and rest: "rest \<noteq> []" by (auto simp: k_def)
  have "\<not> pr_max_blobs r < pr_blobs r + 1" using b1 bl by (simp add: word_less_nat_alt)
  with ph s nz it have go: "pack_iter P r (h @ rest) = Inr ([Started d], r1, rest, True)"
    by (simp add: h_def r1_def not_less)
  have ok1: "reader_ok P r1" by (rule iter_reader_ok [OF P ok go])
  have s1: "pr_state r1 = S_Payload" using nz by (simp add: r1_def)
  have tk: "payload_take r1 rest = k" by (simp add: payload_take_def r1_def k_def)
  have "k \<le> unat (pr_remaining r1)" by (simp add: r1_def k_def)
  from payload_step_arith(2) [OF ok1 s1 this]
  have "unat (pr_payload_bytes (payload_read r1 k)) = unat (pr_payload_bytes r) + k"
    by (simp add: r1_def)
  with tot have "pr_max_payload_bytes r < pr_payload_bytes (payload_read r1 k)"
    by (simp add: word_less_nat_alt k_def)
  then have "pack_iter P r1 rest = Inl (Failed (E_TooManyBytes (pr_max_payload_bytes r)))"
    unfolding pack_iter_payload [OF s1 rest] tk Let_def by (simp add: r1_def)
  then show "push P r (frame_header P d @ rest) = Inl (Failed (E_TooManyBytes (pr_max_payload_bytes r)))"
    using push_go [OF go] by (simp add: h_def push_err)
qed

lemma push_after_frames:
  assumes P: "protocol_ok P" and l: "limits_ok mb n mp" and w: "frames_within P mb n mp fs"
  obtains evs r' where
    "\<And>rest. push P (new_reader mb n mp) (encode_pack P fs @ rest)
        = bind_r (push P r' rest) (\<lambda>(e, r''). Inr (evs @ e, r''))"
    and "reader_ok P r'" "pr_state r' = S_Header" "pr_buffer r' = []"
    and "pr_max_blob_bytes r' = mb" "pr_max_blobs r' = n" "pr_max_payload_bytes r' = mp"
    and "unat (pr_blobs r') = length fs" "unat (pr_payload_bytes r') = payload_total fs"
proof -
  note h = header_reader_ok [OF P l]
  from push_frames [OF P h(1-3), of fs] w obtain evs r' where
    p: "\<And>rest. push P (header_reader mb n mp) (concat (map (frame_bytes P) fs) @ rest)
          = bind_r (push P r' rest) (\<lambda>(e, r''). Inr (evs @ e, r''))"
    and o: "reader_ok P r'" "pr_state r' = S_Header" "pr_buffer r' = []"
    "pr_max_blob_bytes r' = mb" "pr_max_blobs r' = n" "pr_max_payload_bytes r' = mp"
    "unat (pr_blobs r') = length fs" "unat (pr_payload_bytes r') = payload_total fs"
    by (auto simp: h frames_within_def list_all_iff)
  have "push P (new_reader mb n mp) (encode_pack P fs @ rest)
        = bind_r (push P r' rest) (\<lambda>(e, r''). Inr (evs @ e, r''))" for rest
    by (simp add: encode_pack_def push_magic [OF P] p)
  with o show thesis by (intro that)
qed

section \<open>Properties of the pack reader\<close>

definition sample_digest :: digest where
  "sample_digest = \<lparr>d_algorithm = ''sha256'', d_hash = replicate 64 (CHR ''a''), d_size = 2\<rparr>"

lemma sample_digest_ok: "digest_ok reference_protocol sample_digest"
  by (simp add: digest_ok_iff [OF reference_protocol_ok] sample_digest_def reference_protocol_def
      ref_algorithm_kind_def lower_hex_string_def list_all_iff is_lower_hex_def is_ascii_digit_def)

lemma sample_frames: "frames_within reference_protocol 8 3 16 [(sample_digest, [1, 2])]"
  using sample_digest_ok
  by (simp add: frames_within_def frame_valid_def payload_total_def) (simp add: sample_digest_def)

lemma sample_limits: "limits_ok 8 3 16" "limits_ok 1 3 16"
  by (simp_all add: limits_ok_def)

text \<open>
  C9. The pack reader accepts exactly the packs of the documented format: however an upload is cut
  into chunks, reading it to the end succeeds and yields the frames \<open>fs\<close> if and only if its bytes are
  the magic followed by the encoded frames \<open>fs\<close>, each with a valid digest and a payload of the
  declared length, within the blob-size, blob-count and payload limits.
\<close>

theorem pack_reads_encodings:
  assumes "protocol_ok P" and "limits_ok mb n mp"
  shows "(\<exists>evs. read_pack P (new_reader mb n mp) cs = Inr evs \<and> collect None evs = Some (fs, None))
    \<longleftrightarrow> concat cs = encode_pack P fs \<and> frames_within P mb n mp fs"
proof -
  note r = reader_ok_new [OF assms]
  show ?thesis
  proof (intro iffI; (elim exE conjE)?)
    fix evs assume "read_pack P (new_reader mb n mp) cs = Inr evs" and c: "collect None evs = Some (fs, None)"
    then obtain r' where p: "push_all P (new_reader mb n mp) cs = Inr (evs, r')" and f: "finish r' = Inr ()"
      by (auto simp: read_pack_def result_simps)
    from push_all_as_push(2) [OF assms(1) r p] obtain evs' where
      p': "push P (new_reader mb n mp) (concat cs) = Inr (evs', r')" and "collect None evs' = collect None evs"
      by blast
    with push_sound [OF assms p' f] c
    show "concat cs = encode_pack P fs \<and> frames_within P mb n mp fs" by auto
  next
    assume "concat cs = encode_pack P fs" "frames_within P mb n mp fs"
    with push_complete [OF assms, of fs] obtain evs' r' where
      p: "push P (new_reader mb n mp) (concat cs) = Inr (evs', r')"
      and c: "collect None evs' = Some (fs, None)" and f: "finish r' = Inr ()" by auto
    from push_all_as_push(3) [OF assms(1) r p] c f
    show "\<exists>evs. read_pack P (new_reader mb n mp) cs = Inr evs \<and> collect None evs = Some (fs, None)"
      by (auto simp: read_pack_def)
  qed
qed

theorem pack_reads_encodings_witness:
  "\<exists>evs. read_pack reference_protocol (new_reader 8 3 16)
      [take 20 (encode_pack reference_protocol [(sample_digest, [1, 2])]),
       drop 20 (encode_pack reference_protocol [(sample_digest, [1, 2])])] = Inr evs
    \<and> collect None evs = Some ([(sample_digest, [1, 2])], None)"
  by (rule pack_reads_encodings [OF reference_protocol_ok sample_limits(1), THEN iffD2])
    (simp add: sample_frames)

text \<open>
  C14. Chunk boundaries do not matter, errors included: two uploads with the same bytes are read with
  the same error, or end in the same reader state with the same events once adjacent payload slices
  are joined.
\<close>

theorem pack_chunking_irrelevant:
  assumes "protocol_ok P" and "limits_ok mb n mp" and "concat cs = concat ds"
  shows "norm_result (push_all P (new_reader mb n mp) cs) = norm_result (push_all P (new_reader mb n mp) ds)"
  using push_all_concat [OF assms(1) reader_ok_new [OF assms(1,2)]] assms(3) by simp

theorem pack_chunking_irrelevant_witness:
  "norm_result (push_all reference_protocol (new_reader 8 3 16) [[77], [66, 0]])
    = norm_result (push_all reference_protocol (new_reader 8 3 16) [[77, 66, 0]])"
  by (rule pack_chunking_irrelevant [OF reference_protocol_ok sample_limits(1)]) simp

text \<open>
  C15. At every point of an upload, also one that is never finished, the reader has not panicked and
  its events are well placed: they group into complete frames whose digests are valid, whose payloads
  have exactly the declared length and which respect all three limits, and at most one open frame
  that does not exceed its declared length.
\<close>

theorem pack_events_wellformed:
  assumes "protocol_ok P" and "limits_ok mb n mp"
  shows "case push_all P (new_reader mb n mp) cs of
      Inl e \<Rightarrow> e \<noteq> Panicked
    | Inr (evs, r) \<Rightarrow> (case collect None evs of
          None \<Rightarrow> False
        | Some (fs, cur) \<Rightarrow> frames_within P mb n mp fs
            \<and> (case cur of None \<Rightarrow> True
               | Some (d, b) \<Rightarrow> digest_ok P d \<and> d_size d \<le> mb \<and> length b \<le> unat (d_size d)))"
proof (cases "push_all P (new_reader mb n mp) cs")
  case (Inl e)
  then have "push P (new_reader mb n mp) (concat cs) = Inl e"
    using push_all_as_push(1) [OF assms(1) reader_ok_new [OF assms]] by blast
  with push_no_panic [OF assms(1) reader_ok_new [OF assms]] have "e \<noteq> Panicked" by metis
  with Inl show ?thesis by simp
next
  case (Inr q)
  obtain evs r' where q: "q = (evs, r')" by fastforce
  define r where "r = new_reader mb n mp"
  have r: "reader_ok P r" unfolding r_def by (rule reader_ok_new [OF assms])
  have z: "pr_state r = S_Magic" "pr_blobs r = 0" "pr_payload_bytes r = 0"
    "pr_max_blob_bytes r = mb" by (simp_all add: r_def new_reader_def)
  from push_all_as_push(2) [OF assms(1) r Inr [unfolded q, folded r_def]] obtain evs' where
    p: "push P r (concat cs) = Inr (evs', r')" and ce: "\<forall>c. collect c evs' = collect c evs" by blast
  have "open_ok P None r" by (simp add: open_ok_def z)
  from push_collects [OF assms(1) r this p] obtain fs cur where c: "collects P None r evs' r' fs cur" by blast
  have ok': "reader_ok P r'" by (rule push_reader_ok [OF assms(1) r p])
  have lim: "pr_max_blobs r' = n" "pr_max_payload_bytes r' = mp" "pr_max_blob_bytes r' = mb"
    using push_limits [OF p] by (simp_all add: r_def new_reader_def)
  have "frames_within P mb n mp fs"
    using c z ok' lim
    by (auto simp: frames_within_def collects_def list_all_iff reader_ok_def word_le_nat_alt open_count_def
        open_bytes_def)
  moreover have "digest_ok P d \<and> d_size d \<le> mb \<and> length b \<le> unat (d_size d)" if "cur = Some (d, b)" for d b
    using c that lim by (cases "pr_state r'") (auto simp: collects_def open_ok_def)
  ultimately show ?thesis using c ce by (auto simp: Inr q collects_def split: option.split)
qed

theorem pack_events_wellformed_witness:
  "case push_all reference_protocol (new_reader 8 3 16) [[77], [66]] of
      Inl e \<Rightarrow> e \<noteq> Panicked
    | Inr (evs, r) \<Rightarrow> (case collect None evs of
          None \<Rightarrow> False
        | Some (fs, cur) \<Rightarrow> frames_within reference_protocol 8 3 16 fs
            \<and> (case cur of None \<Rightarrow> True
               | Some (d, b) \<Rightarrow> digest_ok reference_protocol d \<and> d_size d \<le> 8 \<and> length b \<le> unat (d_size d)))"
  by (rule pack_events_wellformed [OF reference_protocol_ok sample_limits(1)])

text \<open>
  C16. Behind a valid prefix of frames, a frame header that breaks a limit is refused with that
  limit's error: a declared size above the blob limit, one blob more than the count limit, and a
  payload that takes the total above the payload limit (as soon as the byte that does so arrives).
\<close>

theorem pack_limit_errors:
  assumes "protocol_ok P" and "limits_ok mb n mp" and "frames_within P mb n mp fs" and "digest_ok P d"
    and "concat cs = encode_pack P fs @ frame_header P d @ rest"
  shows "(mb < d_size d \<longrightarrow>
      read_pack P (new_reader mb n mp) cs = Inl (Failed (E_BlobTooLarge (d_size d) mb)))
    \<and> (d_size d \<le> mb \<and> length fs = unat n \<longrightarrow>
      read_pack P (new_reader mb n mp) cs = Inl (Failed (E_TooManyBlobs n)))
    \<and> (d_size d \<le> mb \<and> length fs < unat n \<and> unat mp < payload_total fs + min (unat (d_size d)) (length rest)
        \<longrightarrow> read_pack P (new_reader mb n mp) cs = Inl (Failed (E_TooManyBytes mp)))"
proof -
  from push_after_frames [OF assms(1-3)] obtain evs r' where
    p: "\<And>rest. push P (new_reader mb n mp) (encode_pack P fs @ rest)
        = bind_r (push P r' rest) (\<lambda>(e, r''). Inr (evs @ e, r''))"
    and o: "reader_ok P r'" "pr_state r' = S_Header" "pr_buffer r' = []"
    and lim: "pr_max_blob_bytes r' = mb" "pr_max_blobs r' = n" "pr_max_payload_bytes r' = mp"
    and n: "unat (pr_blobs r') = length fs" "unat (pr_payload_bytes r') = payload_total fs" by metis
  note e = push_limit_errors [OF assms(1) o assms(4), where rest = rest, unfolded lim]
  have rp: "read_pack P (new_reader mb n mp) cs = Inl x"
    if "push P r' (frame_header P d @ rest) = Inl x" for x
  proof -
    have "push P (new_reader mb n mp) (concat cs) = Inl x"
      unfolding assms(5) p that by simp
    then have "push_all P (new_reader mb n mp) cs = Inl x"
      using push_all_as_push(1) [OF assms(1) reader_ok_new [OF assms(1,2)]] by blast
    then show ?thesis by (simp add: read_pack_def)
  qed
  have "length fs = unat n \<Longrightarrow> pr_blobs r' = n" "length fs < unat n \<Longrightarrow> pr_blobs r' < n"
    using n(1) by (simp_all add: word_unat_eq_iff word_less_nat_alt)
  with e n(2) show ?thesis by (auto intro!: rp)
qed

theorem pack_limit_errors_witness:
  "read_pack reference_protocol (new_reader 1 3 16) [encode_pack reference_protocol [] @
      frame_header reference_protocol sample_digest] = Inl (Failed (E_BlobTooLarge 2 1))"
  using pack_limit_errors [OF reference_protocol_ok sample_limits(2) _ sample_digest_ok,
      where fs = "[]" and rest = "[]" and cs = "[encode_pack reference_protocol [] @
        frame_header reference_protocol sample_digest]"]
  by (simp add: frames_within_def payload_total_def sample_digest_def)

end
