(* ===== verification/Model.thy ===== *)
theory Model
  imports Protocol
begin

text \<open>
  \<open>src/model.rs\<close>: the action descriptors and metadata objects clients store, and the validation
  each gets before an action result may name it. A \<open>BTreeMap\<close> is the association list of its
  entries; a \<open>HashSet\<close> used for duplicate detection is the list of what it holds. The derived
  deserialisers are code generated by \<open>serde\<close>: they are the fields of the record \<open>codec\<close>
  in \<open>Json\<close>.
\<close>

section \<open>Task actions\<close>

datatype task_phase = Normal | Post

record task_run_single =
  trs_task :: string
  trs_args :: "string list"
  trs_env :: "(string \<times> string) list"

record task_run_group =
  trg_tasks :: "string list"

datatype task_run_entry = Script string | Single task_run_single | Group task_run_group

record task_command_input =
  tci_command :: string
  tci_stdout_hash :: string
  tci_stderr_hash :: string

record task_action =
  ta_version :: u8
  ta_kind :: string
  ta_task :: string
  ta_phase :: task_phase
  ta_run :: "task_run_entry list"
  ta_args :: "string list"
  ta_shell :: "string option"
  ta_outputs :: "string list"
  ta_root :: string
  ta_source_hash :: string
  ta_dependency_keys :: "string list"
  ta_environment :: "(string \<times> string option) list"
  ta_command_inputs :: "task_command_input list"
  ta_vars :: "(string \<times> string) list"
  ta_tools :: "string list"
  ta_os :: string
  ta_arch :: string

datatype task_output_stream = Stdout | Stderr

record task_output =
  to_stream :: task_output_stream
  to_line :: string

record task_metadata =
  tmd_version :: u8
  tmd_kind :: string
  tmd_task_identity :: string
  tmd_roots :: "string list"
  tmd_output :: "task_output list"
  tmd_restored_bytes :: u64
  tmd_execution_duration_ns :: u64

section \<open>Rustc actions\<close>

record rustc_compiler =
  rc_toolchain :: string
  rc_rustc_version :: string
  rc_host :: string
  rc_driver :: "string option"

record rustc_input =
  ri_path :: string
  ri_digest :: digest

record rustc_linker_identity =
  rl_driver :: string
  rl_driver_version :: string
  rl_linker_version :: string
  rl_crt_objects :: "(string \<times> digest) list"
  rl_sdk :: "string option"
  rl_deployment_target :: "string option"

record rustc_action =
  ra_version :: u8
  ra_kind :: string
  ra_adapter_version :: u8
  ra_compiler :: rustc_compiler
  ra_arguments :: "string list"
  ra_environment :: "(string \<times> string option) list"
  ra_inputs :: "rustc_input list"
  ra_linker :: "rustc_linker_identity option"

section \<open>C and C++ actions\<close>

datatype cc_argument =
    CcPlain string
  | CcPath string string
  | CcPrefixMap string string string
  | CcSource string

record cc_path_binding =
  cpb_working_dir :: string
  cpb_arguments :: "cc_argument list"
  cpb_roots :: "(string \<times> string) list"

record cc_preprocessing =
  cpp_working_dir :: string
  cpp_arguments :: "string list"
  cpp_roots :: "(string \<times> string) list"

record cc_compiler =
  cco_assembler :: string
  cco_family :: string
  cco_target :: string
  cco_version_text :: string

record cc_input =
  ci_digest :: digest
  ci_path :: string

record cc_action =
  ca_version :: u8
  ca_kind :: string
  ca_adapter_version :: u8
  ca_assembly_input_model :: "u8 option"
  ca_path_binding :: "cc_path_binding option"
  ca_preprocessing :: "cc_preprocessing option"
  ca_compiler :: cc_compiler
  ca_arguments :: "string list"
  ca_environment :: "(string \<times> string option) list"
  ca_inputs :: "cc_input list"

section \<open>Build-script actions\<close>

definition build_script_action_schemas :: "u8 list" where
  "build_script_action_schemas = [2, 3, 4, 5]"

datatype build_script_input =
    BS_Missing
  | BS_BlockedByFile
  | BS_File digest
  | BS_Directory digest
  | BS_Symlink string build_script_input

record build_script_action =
  ba_version :: u8
  ba_kind :: string
  ba_archive_timestamps :: "string option"
  ba_binary_action :: digest
  ba_cargo_environment :: "(string \<times> string option) list"
  ba_checkout :: "string option"
  ba_environment :: "(string \<times> string option) list"
  ba_inputs :: "(string \<times> build_script_input) list"
  ba_out_dir :: "string option"

record build_script_metadata =
  bm_version :: u8
  bm_kind :: string
  bm_stdout :: digest
  bm_stderr :: digest

section \<open>Validation\<close>

abbreviation nul :: char where "nul \<equiv> CHR 0x00"
abbreviation backslash :: char where "backslash \<equiv> CHR 0x5C"

definition valid_string :: "string \<Rightarrow> bool" where
  "valid_string v \<longleftrightarrow> nul \<notin> set v"

definition valid_strings :: "string list \<Rightarrow> bool" where
  "valid_strings vs \<longleftrightarrow> list_all valid_string vs"

definition valid_string_map :: "(string \<times> string) list \<Rightarrow> bool" where
  "valid_string_map vs \<longleftrightarrow> list_all (\<lambda>(key, v). valid_string key \<and> valid_string v) vs"

definition is_none_or :: "'a option \<Rightarrow> ('a \<Rightarrow> bool) \<Rightarrow> bool" where
  "is_none_or v f = (case v of None \<Rightarrow> True | Some x \<Rightarrow> f x)"

definition nonempty_valid :: "string \<Rightarrow> bool" where
  "nonempty_valid v \<longleftrightarrow> v \<noteq> [] \<and> valid_string v"

definition valid_optional_string_map :: "(string \<times> string option) list \<Rightarrow> bool" where
  "valid_optional_string_map vs \<longleftrightarrow>
     list_all (\<lambda>(key, v). key \<noteq> [] \<and> valid_string key \<and> is_none_or v valid_string) vs"

definition task_run_entry_validate :: "task_run_entry \<Rightarrow> bool" where
  "task_run_entry_validate e =
     (case e of
        Script script \<Rightarrow> valid_string script
      | Single s \<Rightarrow> valid_string (trs_task s) \<and> valid_strings (trs_args s) \<and> valid_string_map (trs_env s)
      | Group g \<Rightarrow> valid_strings (trg_tasks g))"

definition task_command_input_validate :: "task_command_input \<Rightarrow> bool" where
  "task_command_input_validate c \<longleftrightarrow>
     valid_string (tci_command c) \<and> valid_string (tci_stdout_hash c) \<and> valid_string (tci_stderr_hash c)"

definition task_action_validate :: "task_action \<Rightarrow> bool" where
  "task_action_validate a \<longleftrightarrow>
     ta_version a = 1 \<and> ta_kind a = ''task'' \<and> valid_string (ta_task a) \<and>
     (ta_phase a = Normal \<or> ta_phase a = Post) \<and>
     list_all task_run_entry_validate (ta_run a) \<and> valid_strings (ta_args a) \<and>
     is_none_or (ta_shell a) valid_string \<and> valid_strings (ta_outputs a) \<and>
     valid_string (ta_root a) \<and> valid_string (ta_source_hash a) \<and>
     valid_strings (ta_dependency_keys a) \<and>
     list_all (\<lambda>(key, v). valid_string key \<and> is_none_or v valid_string) (ta_environment a) \<and>
     list_all task_command_input_validate (ta_command_inputs a) \<and>
     valid_string_map (ta_vars a) \<and> valid_strings (ta_tools a) \<and>
     valid_string (ta_os a) \<and> valid_string (ta_arch a)"

definition task_output_validate :: "task_output \<Rightarrow> bool" where
  "task_output_validate t \<longleftrightarrow> (to_stream t = Stdout \<or> to_stream t = Stderr) \<and> valid_string (to_line t)"

definition task_metadata_validate :: "task_metadata \<Rightarrow> bool" where
  "task_metadata_validate m \<longleftrightarrow>
     tmd_version m = 1 \<and> tmd_kind m = ''task'' \<and> valid_string (tmd_task_identity m) \<and>
     valid_strings (tmd_roots m) \<and> list_all task_output_validate (tmd_output m)"

text \<open>\<open>valid_normalized_path\<close>: \<open>${PLACEHOLDER}\<close> and, optionally, a slash-separated path below it.\<close>

definition plain_component :: "string \<Rightarrow> bool" where
  "plain_component c \<longleftrightarrow> c \<noteq> [] \<and> c \<noteq> ''.'' \<and> c \<noteq> ''..''"

definition valid_normalized_path :: "string \<Rightarrow> bool" where
  "valid_normalized_path path =
     (case (case strip_prefix ''${'' path of None \<Rightarrow> None | Some p \<Rightarrow> split_once (CHR ''}'') p) of
        None \<Rightarrow> False
      | Some (placeholder, suff) \<Rightarrow>
          if placeholder = [] \<or> \<not> list_all (\<lambda>b. is_ascii_alphanumeric b \<or> b = CHR ''_'') placeholder
          then False
          else suff = [] \<or>
            (case strip_prefix ''/'' suff of
               None \<Rightarrow> False
             | Some s \<Rightarrow> s \<noteq> [] \<and> \<not> (backslash \<in> set s \<or> nul \<in> set s)
                 \<and> list_all plain_component (split_on (CHR ''/'') s)))"

text \<open>\<open>inputs.iter().all(|input| input.validate() && paths.insert(&input.path))\<close>\<close>

fun all_inserted :: "('i \<Rightarrow> bool) \<Rightarrow> ('i \<Rightarrow> string) \<Rightarrow> string list \<Rightarrow> 'i list \<Rightarrow> bool" where
  "all_inserted valid path held [] = True"
| "all_inserted valid path held (i # is) =
     (valid i \<and> path i \<notin> set held \<and> all_inserted valid path (path i # held) is)"

definition rustc_compiler_validate :: "rustc_compiler \<Rightarrow> bool" where
  "rustc_compiler_validate c \<longleftrightarrow>
     list_all nonempty_valid ([rc_toolchain c, rc_rustc_version c, rc_host c]
       @ (case rc_driver c of None \<Rightarrow> [] | Some d \<Rightarrow> [d]))"

definition rustc_input_validate :: "protocol \<Rightarrow> rustc_input \<Rightarrow> bool" where
  "rustc_input_validate P i \<longleftrightarrow> valid_normalized_path (ri_path i) \<and> digest_ok P (ri_digest i)"

definition rustc_linker_validate :: "protocol \<Rightarrow> rustc_linker_identity \<Rightarrow> bool" where
  "rustc_linker_validate P l \<longleftrightarrow>
     list_all nonempty_valid [rl_driver l, rl_driver_version l, rl_linker_version l] \<and>
     list_all (\<lambda>(name, d). name \<noteq> [] \<and> valid_string name \<and> digest_ok P d) (rl_crt_objects l) \<and>
     is_none_or (rl_sdk l) nonempty_valid \<and> is_none_or (rl_deployment_target l) nonempty_valid"

definition rustc_action_validate :: "protocol \<Rightarrow> rustc_action \<Rightarrow> bool" where
  "rustc_action_validate P a \<longleftrightarrow>
     ra_version a = 1 \<and> ra_kind a = ''rustc'' \<and> ra_adapter_version a > 0 \<and>
     rustc_compiler_validate (ra_compiler a) \<and> valid_strings (ra_arguments a) \<and>
     list_all (\<lambda>(key, v). key \<noteq> [] \<and> valid_string key \<and> is_none_or v valid_string) (ra_environment a) \<and>
     ra_inputs a \<noteq> [] \<and> all_inserted (rustc_input_validate P) ri_path [] (ra_inputs a) \<and>
     is_none_or (ra_linker a) (rustc_linker_validate P)"

definition cc_argument_validate :: "cc_argument \<Rightarrow> bool" where
  "cc_argument_validate a =
     (case a of
        CcPlain v \<Rightarrow> valid_string v
      | CcSource v \<Rightarrow> valid_string v
      | CcPath flag path \<Rightarrow> valid_string flag \<and> valid_string path
      | CcPrefixMap flag frm to \<Rightarrow> valid_string flag \<and> valid_string frm \<and> valid_string to)"

definition cc_path_binding_validate :: "cc_path_binding \<Rightarrow> bool" where
  "cc_path_binding_validate b \<longleftrightarrow>
     valid_string (cpb_working_dir b) \<and> list_all cc_argument_validate (cpb_arguments b) \<and>
     valid_string_map (cpb_roots b)"

definition cc_preprocessing_validate :: "cc_preprocessing \<Rightarrow> bool" where
  "cc_preprocessing_validate p \<longleftrightarrow>
     valid_string (cpp_working_dir p) \<and> valid_strings (cpp_arguments p) \<and> valid_string_map (cpp_roots p)"

definition cc_compiler_validate :: "cc_compiler \<Rightarrow> bool" where
  "cc_compiler_validate c \<longleftrightarrow>
     valid_string (cco_assembler c) \<and>
     list_all nonempty_valid [cco_family c, cco_target c, cco_version_text c]"

definition cc_input_validate :: "protocol \<Rightarrow> cc_input \<Rightarrow> bool" where
  "cc_input_validate P i \<longleftrightarrow> ci_path i \<noteq> [] \<and> valid_string (ci_path i) \<and> digest_ok P (ci_digest i)"

definition cc_action_validate :: "protocol \<Rightarrow> cc_action \<Rightarrow> bool" where
  "cc_action_validate P a \<longleftrightarrow>
     ca_version a = 1 \<and> ca_kind a = ''cc'' \<and> ca_adapter_version a > 0 \<and>
     is_none_or (ca_assembly_input_model a) (\<lambda>version. version = 1) \<and>
     is_none_or (ca_path_binding a) cc_path_binding_validate \<and>
     is_none_or (ca_preprocessing a) cc_preprocessing_validate \<and>
     cc_compiler_validate (ca_compiler a) \<and> valid_strings (ca_arguments a) \<and>
     valid_optional_string_map (ca_environment a) \<and>
     ca_inputs a \<noteq> [] \<and> all_inserted (cc_input_validate P) ci_path [] (ca_inputs a)"

fun build_script_input_validate :: "protocol \<Rightarrow> build_script_input \<Rightarrow> nat \<Rightarrow> bool" where
  "build_script_input_validate P BS_Missing depth = (\<not> depth > 64)"
| "build_script_input_validate P BS_BlockedByFile depth = (\<not> depth > 64)"
| "build_script_input_validate P (BS_File d) depth = (\<not> depth > 64 \<and> digest_ok P d)"
| "build_script_input_validate P (BS_Directory d) depth = (\<not> depth > 64 \<and> digest_ok P d)"
| "build_script_input_validate P (BS_Symlink target referent) depth =
     (\<not> depth > 64 \<and> valid_string target \<and> build_script_input_validate P referent (depth + 1))"

definition build_script_action_validate :: "protocol \<Rightarrow> build_script_action \<Rightarrow> bool" where
  "build_script_action_validate P a \<longleftrightarrow>
     ba_version a \<in> set build_script_action_schemas \<and> ba_kind a = ''build-script'' \<and>
     is_none_or (ba_archive_timestamps a) valid_string \<and> digest_ok P (ba_binary_action a) \<and>
     valid_optional_string_map (ba_cargo_environment a) \<and>
     valid_optional_string_map (ba_environment a) \<and>
     list_all (\<lambda>(path, input). valid_string path \<and> path \<noteq> [] \<and> build_script_input_validate P input 0)
       (ba_inputs a) \<and>
     is_none_or (ba_out_dir a) valid_string \<and> is_none_or (ba_checkout a) valid_string"

definition build_script_metadata_validate :: "protocol \<Rightarrow> build_script_metadata \<Rightarrow> bool" where
  "build_script_metadata_validate P m \<longleftrightarrow>
     bm_version m = 1 \<and> bm_kind m = ''build-script'' \<and>
     digest_ok P (bm_stdout m) \<and> digest_ok P (bm_stderr m)"

section \<open>Paths below a root\<close>

text \<open>
  The abstract shape of what the path checks accept: components that name something below the
  directory they are resolved in.
\<close>

definition safe_component :: "string \<Rightarrow> bool" where
  "safe_component c \<longleftrightarrow> plain_component c \<and> CHR ''/'' \<notin> set c \<and> backslash \<notin> set c \<and> nul \<notin> set c"

definition placeholder_name :: "string \<Rightarrow> bool" where
  "placeholder_name p \<longleftrightarrow> p \<noteq> [] \<and> list_all (\<lambda>b. is_ascii_alphanumeric b \<or> b = CHR ''_'') p"

text \<open>Lexical resolution of a path from a directory at depth \<open>k\<close> below some root: \<open>None\<close> when it
  leaves the root.\<close>

fun lexical_depth :: "nat \<Rightarrow> string list \<Rightarrow> nat option" where
  "lexical_depth k [] = Some k"
| "lexical_depth k (c # cs) =
     (if c = [] \<or> c = ''.'' then lexical_depth k cs
      else if c = ''..'' then (if k = 0 then None else lexical_depth (k - 1) cs)
      else lexical_depth (k + 1) cs)"

lemma lexical_depth_safe: "list_all plain_component cs \<Longrightarrow> lexical_depth k cs = Some (k + length cs)"
  by (induction cs arbitrary: k) (auto simp: plain_component_def)

lemma split_on_no_occ: "c \<notin> set w \<Longrightarrow> split_on c w = [w]"
  by (induction w) auto

lemma split_on_append: "c \<notin> set w \<Longrightarrow> split_on c (w @ c # s) = w # split_on c s"
  by (induction w) auto

lemma split_join:
  "ws \<noteq> [] \<Longrightarrow> \<forall>w \<in> set ws. c \<notin> set w \<Longrightarrow> split_on c (join_with c ws) = ws"
proof (induction c ws rule: join_with.induct)
  case (2 c w)
  then show ?case by (simp add: split_on_no_occ)
next
  case (3 c w v ws)
  then show ?case by (simp add: split_on_append)
qed simp

lemma set_join_with: "x \<in> set (join_with c ws) \<Longrightarrow> x \<noteq> c \<Longrightarrow> \<exists>w \<in> set ws. x \<in> set w"
  by (induction c ws rule: join_with.induct) auto

lemma split_safe_iff:
  "list_all plain_component (split_on (CHR ''/'') s) \<and> backslash \<notin> set s \<and> nul \<notin> set s
    \<longleftrightarrow> (\<exists>cs. cs \<noteq> [] \<and> list_all safe_component cs \<and> s = join_with (CHR ''/'') cs)"
proof
  assume L: "list_all plain_component (split_on (CHR ''/'') s) \<and> backslash \<notin> set s \<and> nul \<notin> set s"
  have "list_all safe_component (split_on (CHR ''/'') s)"
    using L split_on_chars [of _ "CHR ''/''" s] split_on_no_sep [of _ "CHR ''/''" s]
    by (fastforce simp: list_all_iff safe_component_def)
  then show "\<exists>cs. cs \<noteq> [] \<and> list_all safe_component cs \<and> s = join_with (CHR ''/'') cs"
    using join_split_on [of "CHR ''/''" s] by (intro exI [of _ "split_on (CHR ''/'') s"]) simp
next
  assume "\<exists>cs. cs \<noteq> [] \<and> list_all safe_component cs \<and> s = join_with (CHR ''/'') cs"
  then obtain cs where ne: "cs \<noteq> []" and sf: "list_all safe_component cs"
    and s: "s = join_with (CHR ''/'') cs" by blast
  have "split_on (CHR ''/'') s = cs"
    unfolding s by (rule split_join [OF ne]) (use sf in \<open>auto simp: list_all_iff safe_component_def\<close>)
  then have "list_all plain_component (split_on (CHR ''/'') s)"
    using sf by (auto simp: list_all_iff safe_component_def)
  moreover have "x \<notin> set s" if "x = backslash \<or> x = nul" for x
    using that set_join_with [of x "CHR ''/''" cs] sf unfolding s
    by (auto simp: list_all_iff safe_component_def)
  ultimately show "list_all plain_component (split_on (CHR ''/'') s) \<and> backslash \<notin> set s \<and> nul \<notin> set s"
    by blast
qed


lemma all_inserted_iff:
  "all_inserted valid path held is \<longleftrightarrow>
    list_all valid is \<and> distinct (map path is) \<and> set held \<inter> set (map path is) = {}"
  by (induction "is" arbitrary: held) auto

text \<open>A build-script symlink: the chain of links and what it ends in.\<close>

fun link_count :: "build_script_input \<Rightarrow> nat" where
  "link_count (BS_Symlink _ referent) = Suc (link_count referent)"
| "link_count _ = 0"

fun link_targets :: "build_script_input \<Rightarrow> string list" where
  "link_targets (BS_Symlink target referent) = target # link_targets referent"
| "link_targets _ = []"

fun link_digest :: "build_script_input \<Rightarrow> digest option" where
  "link_digest (BS_Symlink _ referent) = link_digest referent"
| "link_digest (BS_File d) = Some d"
| "link_digest (BS_Directory d) = Some d"
| "link_digest _ = None"

lemma build_script_input_iff:
  "build_script_input_validate P i k \<longleftrightarrow>
    k + link_count i \<le> 64 \<and> valid_strings (link_targets i) \<and> is_none_or (link_digest i) (digest_ok P)"
  by (induction i arbitrary: k) (auto simp: valid_strings_def is_none_or_def)

lemma slash_path_join:
  "cs \<noteq> [] \<Longrightarrow> concat (map (\<lambda>c. CHR ''/'' # c) cs) = CHR ''/'' # join_with (CHR ''/'') cs"
  by (induction cs rule: list_nonempty_induct) (auto simp: neq_Nil_conv)

lemma join_safe_nonempty: "cs \<noteq> [] \<Longrightarrow> list_all safe_component cs \<Longrightarrow> join_with c cs \<noteq> []"
  by (induction c cs rule: join_with.induct) (auto simp: safe_component_def plain_component_def)

lemma placeholder_no_brace: "placeholder_name p \<Longrightarrow> CHR ''}'' \<notin> set p"
  by (auto simp: placeholder_name_def list_all_iff is_ascii_alphanumeric_def is_ascii_digit_def)

section \<open>Properties of the validation\<close>

text \<open>
  C26. A normalized input path is exactly \<open>${PLACEHOLDER}\<close> followed by slash-led components, none of
  them empty, a dot or a double dot, none with a slash, a backslash or a NUL: every accepted path
  names something below its placeholder's directory.
\<close>

theorem valid_normalized_path_shape:
  "valid_normalized_path path \<longleftrightarrow>
    (\<exists>p cs. placeholder_name p \<and> list_all safe_component cs
      \<and> path = ''${'' @ p @ ''}'' @ concat (map (\<lambda>c. ''/'' @ c) cs))"
proof
  assume "valid_normalized_path path"
  then obtain q p suff where q: "strip_prefix ''${'' path = Some q"
    and so: "split_once (CHR ''}'') q = Some (p, suff)" and p: "placeholder_name p"
    and s: "suff = [] \<or> (\<exists>s. strip_prefix ''/'' suff = Some s \<and> s \<noteq> []
      \<and> \<not> (backslash \<in> set s \<or> nul \<in> set s) \<and> list_all plain_component (split_on (CHR ''/'') s))"
    by (auto simp: valid_normalized_path_def placeholder_name_def split: option.splits prod.splits if_splits)
  from q so have path: "path = ''${'' @ p @ ''}'' @ suff"
    by (auto simp: strip_prefix_Some split_once_Some)
  from s consider "suff = []" | s where "suff = ''/'' @ s" "backslash \<notin> set s \<and> nul \<notin> set s"
    "list_all plain_component (split_on (CHR ''/'') s)" by (auto simp: strip_prefix_Some)
  then show "\<exists>p cs. placeholder_name p \<and> list_all safe_component cs
      \<and> path = ''${'' @ p @ ''}'' @ concat (map (\<lambda>c. ''/'' @ c) cs)"
  proof cases
    case 1
    with p path show ?thesis by (intro exI [of _ p] exI [of _ "[]"]) simp
  next
    case 2
    then obtain cs where "cs \<noteq> []" "list_all safe_component cs" "s = join_with (CHR ''/'') cs"
      using split_safe_iff [of s] by blast
    with 2(1) p path show ?thesis
      by (intro exI [of _ p] exI [of _ cs]) (simp add: slash_path_join)
  qed
next
  assume "\<exists>p cs. placeholder_name p \<and> list_all safe_component cs
      \<and> path = ''${'' @ p @ ''}'' @ concat (map (\<lambda>c. ''/'' @ c) cs)"
  then obtain p cs where p: "placeholder_name p" and cs: "list_all safe_component cs"
    and path: "path = ''${'' @ p @ ''}'' @ concat (map (\<lambda>c. ''/'' @ c) cs)" by blast
  define suff where "suff = concat (map (\<lambda>c. ''/'' @ c) cs)"
  have q: "strip_prefix ''${'' path = Some (p @ CHR ''}'' # suff)"
    by (simp add: strip_prefix_Some path suff_def)
  have so: "split_once (CHR ''}'') (p @ CHR ''}'' # suff) = Some (p, suff)"
    using placeholder_no_brace [OF p] by (simp add: split_once_Some)
  show "valid_normalized_path path"
  proof (cases "cs = []")
    case True
    then have z: "suff = []" by (simp add: suff_def)
    then show ?thesis
      using p q so by (simp add: valid_normalized_path_def placeholder_name_def)
  next
    case False
    define s where "s = join_with (CHR ''/'') cs"
    have sf: "suff = CHR ''/'' # s" using slash_path_join [OF False] by (simp add: suff_def s_def)
    have sp: "strip_prefix ''/'' suff = Some s" by (simp add: strip_prefix_Some sf)
    have "list_all plain_component (split_on (CHR ''/'') s) \<and> backslash \<notin> set s \<and> nul \<notin> set s"
      using split_safe_iff [of s] False cs s_def by blast
    moreover have "s \<noteq> []" unfolding s_def by (rule join_safe_nonempty [OF False cs])
    ultimately show ?thesis using p
      by (simp add: valid_normalized_path_def q so sp placeholder_name_def)
  qed
qed

text \<open>
  C27. A valid rustc action names at least one input, no two inputs by the same path, each by a
  normalized path and a valid digest: its inputs are a partial function from paths to contents.
\<close>

theorem rustc_inputs_functional:
  assumes "rustc_action_validate P a"
  shows "ra_inputs a \<noteq> [] \<and> distinct (map ri_path (ra_inputs a))
    \<and> (\<forall>i \<in> set (ra_inputs a). valid_normalized_path (ri_path i) \<and> digest_ok P (ri_digest i)
        \<and> map_of (map (\<lambda>i. (ri_path i, ri_digest i)) (ra_inputs a)) (ri_path i) = Some (ri_digest i))"
proof -
  from assms have d: "distinct (map ri_path (ra_inputs a))" and ne: "ra_inputs a \<noteq> []"
    and v: "\<forall>i \<in> set (ra_inputs a). rustc_input_validate P i"
    by (auto simp: rustc_action_validate_def all_inserted_iff list_all_iff)
  have "distinct (map fst (map (\<lambda>i. (ri_path i, ri_digest i)) (ra_inputs a)))"
    using d by (simp add: comp_def)
  then have "map_of (map (\<lambda>i. (ri_path i, ri_digest i)) (ra_inputs a)) (ri_path i) = Some (ri_digest i)"
    if "i \<in> set (ra_inputs a)" for i
    using that by (intro map_of_is_SomeI) auto
  with d ne v show ?thesis by (auto simp: rustc_input_validate_def)
qed

definition sample_hash :: string where
  "sample_hash = replicate 64 (CHR ''a'')"

definition sample_rustc_action :: rustc_action where
  "sample_rustc_action =
     \<lparr>ra_version = 1, ra_kind = ''rustc'', ra_adapter_version = 1,
      ra_compiler = \<lparr>rc_toolchain = ''stable'', rc_rustc_version = ''1.90'', rc_host = ''x86'',
        rc_driver = None\<rparr>,
      ra_arguments = [], ra_environment = [],
      ra_inputs = [\<lparr>ri_path = ''${ROOT}/a.rs'',
        ri_digest = \<lparr>d_algorithm = ''blake3'', d_hash = sample_hash, d_size = 5\<rparr>\<rparr>],
      ra_linker = None\<rparr>"

lemma sample_hash_ok:
  "digest_ok reference_protocol \<lparr>d_algorithm = ''blake3'', d_hash = sample_hash, d_size = n\<rparr>"
  by (simp add: digest_ok_iff [OF reference_protocol_ok] reference_protocol_def sample_hash_def
      ref_algorithm_kind_def lower_hex_string_def list_all_iff is_lower_hex_def is_ascii_digit_def)

lemma sample_rustc_action_ok: "rustc_action_validate reference_protocol sample_rustc_action"
  by (simp add: rustc_action_validate_def sample_rustc_action_def rustc_compiler_validate_def
      nonempty_valid_def valid_string_def valid_strings_def is_none_or_def rustc_input_validate_def
      sample_hash_ok valid_normalized_path_def strip_prefix_def split_once_def plain_component_def
      is_ascii_alphanumeric_def is_ascii_digit_def)

theorem rustc_inputs_functional_witness:
  "distinct (map ri_path (ra_inputs sample_rustc_action))"
  using rustc_inputs_functional [OF sample_rustc_action_ok] by blast

text \<open>
  C28. The recursion guard of build-script inputs: an input is valid exactly when it is a chain of at
  most 64 symbolic links whose targets have no NUL, ending in a missing or blocked path or in a file
  or directory with a valid digest.
\<close>

theorem build_script_input_chain:
  "build_script_input_validate P i 0 \<longleftrightarrow>
    link_count i \<le> 64 \<and> valid_strings (link_targets i) \<and> is_none_or (link_digest i) (digest_ok P)"
  by (simp add: build_script_input_iff)

end
