(* ===== verification/Api_Error.thy ===== *)
theory Api_Error
  imports Model Pack
begin

text \<open>
  Errors and headers of the HTTP layer, from \<open>src/server.rs\<close>: \<open>ApiError\<close> and its response, the
  preconditions of the writing requests, and the digests taken from request paths.

  A \<open>HeaderMap\<close> maps lower-case names to the first value sent, as raw bytes; \<open>to_str\<close> is
  \<open>HeaderValue::to_str\<close> of the \<open>http\<close> crate and a parameter. \<open>anyhow\<close> distinguishes the one error
  the code looks for behind an \<open>anyhow::Error\<close>, \<open>sqlx::Error::PoolTimedOut\<close>, from every other.
\<close>

section \<open>Responses\<close>

datatype anyhow = PoolTimedOut | OtherError string

text \<open>\<open>serde_json::Number\<close>; a finite \<open>f64\<close> is its odd (or zero) mantissa and its exponent.\<close>

datatype json_number = PosInt u64 | NegInt int | Float int int

datatype json =
    JNull
  | JBool bool
  | JNumber json_number
  | JString string
  | JArray "json list"
  | JObject "(string \<times> json) list"

definition json_get :: "json \<Rightarrow> string \<Rightarrow> json option" where
  "json_get v name = (case v of JObject fs \<Rightarrow> map_of fs name | _ \<Rightarrow> None)"

text \<open>A streamed body is the chunks it yields; the stream ends at the first error.\<close>

datatype body =
    B_Empty
  | B_Bytes bytes
  | B_Json json
  | B_Stream "(string + bytes) list"

record response =
  rs_status :: nat
  rs_headers :: "(string \<times> string) list"
  rs_body :: body

type_synonym header_map = "string \<rightharpoonup> string"

section \<open>ApiError\<close>

record api_error =
  ae_status :: nat
  ae_message :: string
  ae_advertise_protocol :: bool

definition api_error_new :: "nat \<Rightarrow> string \<Rightarrow> api_error" where
  "api_error_new status message =
     \<lparr>ae_status = status, ae_message = message, ae_advertise_protocol = False\<rparr>"

definition bad_request :: "string \<Rightarrow> api_error" where "bad_request = api_error_new 400"
definition unauthorized :: "string \<Rightarrow> api_error" where "unauthorized = api_error_new 401"
definition forbidden :: "string \<Rightarrow> api_error" where "forbidden = api_error_new 403"
definition not_found :: "string \<Rightarrow> api_error" where "not_found = api_error_new 404"
definition conflict :: "string \<Rightarrow> api_error" where "conflict = api_error_new 409"
definition precondition :: "string \<Rightarrow> api_error" where "precondition = api_error_new 412"
definition too_large :: "string \<Rightarrow> api_error" where "too_large = api_error_new 413"
definition unprocessable :: "string \<Rightarrow> api_error" where "unprocessable = api_error_new 422"
definition precondition_required :: "string \<Rightarrow> api_error" where
  "precondition_required = api_error_new 428"
definition unavailable :: "string \<Rightarrow> api_error" where "unavailable = api_error_new 503"

definition upgrade_required :: api_error where
  "upgrade_required =
     \<lparr>ae_status = 426, ae_message = ''mbx cache protocol version 1 is required'',
      ae_advertise_protocol = True\<rparr>"

definition internal :: "anyhow \<Rightarrow> api_error" where
  "internal error =
     (case error of
        PoolTimedOut \<Rightarrow> api_error_new 503 ''database busy, retry later''
      | OtherError _ \<Rightarrow> api_error_new 500 ''internal server error'')"

definition into_response :: "api_error \<Rightarrow> response" where
  "into_response e =
     \<lparr>rs_status = ae_status e,
      rs_headers = [(''content-type'', ''application/json'')]
        @ (if ae_advertise_protocol e then [(''mbx-cache-protocol'', ''1'')] else [])
        @ (if ae_status e = 503 then [(''retry-after'', ''1'')] else []),
      rs_body = B_Json (JObject [(''error'', JString (ae_message e))])\<rparr>"

lemmas api_errors = bad_request_def unauthorized_def forbidden_def not_found_def conflict_def
  precondition_def too_large_def unprocessable_def precondition_required_def unavailable_def
  api_error_new_def

text \<open>The texts of \<open>PackError\<close> and the status each gets.\<close>

definition pack_error_message :: "pack_error \<Rightarrow> string" where
  "pack_error_message e =
     (case e of
        E_Magic \<Rightarrow> ''blob pack does not start with the expected magic prefix''
      | E_Algorithm a \<Rightarrow> ''blob pack declares an unknown digest algorithm '' @ nat_to_string (unat a)
      | E_Truncated \<Rightarrow> ''blob pack ended inside a frame''
      | E_BlobTooLarge a b \<Rightarrow> ''blob pack declares a blob of '' @ nat_to_string (unat a)
          @ '' bytes, over the '' @ nat_to_string (unat b) @ '' byte limit''
      | E_TooManyBlobs a \<Rightarrow> ''blob pack carries more than the declared '' @ nat_to_string (unat a) @ '' blobs''
      | E_TooManyBytes a \<Rightarrow>
          ''blob pack carries more than the declared '' @ nat_to_string (unat a) @ '' payload bytes'')"

definition pack_api_error :: "pack_error \<Rightarrow> api_error" where
  "pack_api_error e =
     (case e of
        E_BlobTooLarge _ _ \<Rightarrow> too_large (pack_error_message e)
      | E_TooManyBytes _ \<Rightarrow> too_large (pack_error_message e)
      | E_TooManyBlobs _ \<Rightarrow> too_large (pack_error_message e)
      | _ \<Rightarrow> bad_request (pack_error_message e))"

section \<open>Digests of a request\<close>

definition validate_digest :: "protocol \<Rightarrow> digest \<Rightarrow> api_error + unit" where
  "validate_digest P d =
     (case digest_validate P d of Inr _ \<Rightarrow> Inr () | Inl _ \<Rightarrow> Inl (bad_request ''invalid digest''))"

definition parse_digest :: "protocol \<Rightarrow> string \<times> string \<times> u64 \<Rightarrow> api_error + digest" where
  "parse_digest P parts =
     (case parts of (alg, hash, sz) \<Rightarrow>
        let d = \<lparr>d_algorithm = alg, d_hash = hash, d_size = sz\<rparr>
        in bind_r (validate_digest P d) (\<lambda>_. Inr d))"

definition validate_action_digest :: "protocol \<Rightarrow> digest \<Rightarrow> api_error + digest" where
  "validate_action_digest P d =
     bind_r (validate_digest P d) (\<lambda>_.
       if d_algorithm d \<noteq> ''blake3'' then Inl (bad_request ''action result keys must use blake3'')
       else Inr d)"

definition parse_action_digest :: "protocol \<Rightarrow> string \<times> string \<times> u64 \<Rightarrow> api_error + digest" where
  "parse_action_digest P parts =
     bind_r (parse_digest P parts) (\<lambda>d.
       if d_algorithm d \<noteq> ''blake3'' then Inl (bad_request ''action result keys must use blake3'')
       else Inr d)"

lemma validate_digest_ok [result_simps]: "validate_digest P d = Inr u \<longleftrightarrow> digest_ok P d"
  by (cases "digest_validate P d") (auto simp: validate_digest_def)

lemma parse_digest_ok [result_simps]:
  "parse_digest P (a, h, s) = Inr d \<longleftrightarrow> d = \<lparr>d_algorithm = a, d_hash = h, d_size = s\<rparr> \<and> digest_ok P d"
  by (auto simp: parse_digest_def Let_def result_simps)

lemma parse_action_digest_ok [result_simps]:
  "parse_action_digest P (a, h, s) = Inr d \<longleftrightarrow>
    d = \<lparr>d_algorithm = a, d_hash = h, d_size = s\<rparr> \<and> digest_ok P d \<and> d_algorithm d = ''blake3''"
  by (auto simp: parse_action_digest_def result_simps split: if_splits)

lemma validate_action_digest_ok [result_simps]:
  "validate_action_digest P d = Inr d' \<longleftrightarrow> d' = d \<and> digest_ok P d \<and> d_algorithm d = ''blake3''"
  by (auto simp: validate_action_digest_def result_simps split: if_splits)

section \<open>Preconditions\<close>

definition header_str :: "(string \<Rightarrow> string option) \<Rightarrow> header_map \<Rightarrow> string \<Rightarrow> string option" where
  "header_str to_str headers name =
     (case headers name of None \<Rightarrow> None | Some value \<Rightarrow> to_str value)"

definition require_immutable_precondition ::
    "(string \<Rightarrow> string option) \<Rightarrow> header_map \<Rightarrow> api_error + unit" where
  "require_immutable_precondition to_str headers =
     (if header_str to_str headers ''if-none-match'' = Some ''*'' then Inr ()
      else Inl (precondition ''If-None-Match: * is required''))"

definition manifest_precondition ::
    "(string \<Rightarrow> string option) \<Rightarrow> header_map \<Rightarrow> api_error + string option" where
  "manifest_precondition to_str headers =
     (if header_str to_str headers ''if-none-match'' = Some ''*'' then Inr None
      else bind_r (ok_or (precondition_required ''If-None-Match: * or If-Match is required'')
          (header_str to_str headers ''if-match'')) (\<lambda>value.
        case (case strip_prefix [CHR 0x22] value of
                None \<Rightarrow> None | Some v \<Rightarrow> strip_suffix [CHR 0x22] v) of
          None \<Rightarrow> Inl (bad_request ''If-Match must contain one strong BLAKE3 ETag'')
        | Some etag \<Rightarrow>
            if length etag = 64 \<and> list_all is_lower_hex etag then Inr (Some etag)
            else Inl (bad_request ''If-Match must contain one strong BLAKE3 ETag'')))"

definition quoted_etag :: "string \<Rightarrow> string" where
  "quoted_etag etag = [CHR 0x22] @ etag @ [CHR 0x22]"

definition required_u64_header ::
    "(string \<Rightarrow> string option) \<Rightarrow> header_map \<Rightarrow> string \<Rightarrow> api_error + u64" where
  "required_u64_header to_str headers name =
     ok_or (bad_request (name @ '' must be an unsigned integer''))
       (case header_str to_str headers name of None \<Rightarrow> None | Some value \<Rightarrow> parse_u64 value)"

lemma manifest_precondition_Some:
  "manifest_precondition to_str headers = Inr (Some etag) \<longleftrightarrow>
    header_str to_str headers ''if-none-match'' \<noteq> Some ''*''
    \<and> header_str to_str headers ''if-match'' = Some (quoted_etag etag)
    \<and> length etag = 64 \<and> lower_hex_string etag"
  by (auto simp: manifest_precondition_def result_simps quoted_etag_def lower_hex_string_def
      split: option.splits if_splits)

lemma manifest_precondition_None:
  "manifest_precondition to_str headers = Inr None \<longleftrightarrow>
    header_str to_str headers ''if-none-match'' = Some ''*''"
  by (auto simp: manifest_precondition_def result_simps split: option.splits if_splits)

section \<open>Properties of errors and preconditions\<close>


text \<open>
  The entity tag a client read is the one that lets it update: sent back quoted as it was served,
  a BLAKE3 tag is accepted as the expected tag, and nothing else than such a quoted tag ever is; a
  request with neither precondition gets 428.
\<close>

theorem manifest_precondition_etag:
  "(manifest_precondition to_str headers = Inr (Some etag) \<longleftrightarrow>
      header_str to_str headers ''if-none-match'' \<noteq> Some ''*''
      \<and> header_str to_str headers ''if-match'' = Some (quoted_etag etag)
      \<and> length etag = 64 \<and> lower_hex_string etag)
    \<and> (manifest_precondition to_str headers = Inr None \<longleftrightarrow>
        header_str to_str headers ''if-none-match'' = Some ''*'')
    \<and> (\<forall>e. manifest_precondition to_str headers = Inl e \<longrightarrow>
        ae_status e = (if header_str to_str headers ''if-match'' = None then 428 else 400))"
proof (intro conjI allI impI)
  fix e assume "manifest_precondition to_str headers = Inl e"
  then show "ae_status e = (if header_str to_str headers ''if-match'' = None then 428 else 400)"
    by (auto simp: manifest_precondition_def result_simps api_errors split: option.splits if_splits)
qed (fact manifest_precondition_Some manifest_precondition_None)+

theorem manifest_precondition_etag_witness:
  "manifest_precondition Some [''if-match'' \<mapsto> quoted_etag sample_hash] = Inr (Some sample_hash)"
  using manifest_precondition_etag [of Some "[''if-match'' \<mapsto> quoted_etag sample_hash]" sample_hash]
  by (simp add: header_str_def sample_hash_def lower_hex_string_def list_all_iff is_lower_hex_def
      is_ascii_digit_def)

end
