(* ===== verification/Auth.thy ===== *)
theory Auth
  imports Api_Error
begin

text \<open>
  \<open>src/auth.rs\<close>: who may read or write which namespace. Static token grants and OIDC providers are
  records; verifying a token goes through the \<open>jsonwebtoken\<close>, \<open>base64\<close> and \<open>serde_json\<close> crates, whose
  functions are the fields of the record \<open>jwt_library\<close>. The clock (milliseconds) and what identity
  providers answer are the record \<open>net\<close>: each fetch takes the next answer and lets time pass. A
  provider's key cache is part of the provider, so \<open>authorize\<close> returns the authorizer updated.
\<close>

section \<open>Configuration\<close>

datatype jwt_algorithm =
    HS256 | HS384 | HS512 | RS256 | RS384 | RS512 | PS256 | PS384 | PS512 | ES256 | ES384 | EdDSA

definition default_algorithms :: "jwt_algorithm list" where
  "default_algorithms = [RS256, RS384, RS512, PS256, PS384, PS512, ES256, ES384, EdDSA]"

definition min_jwks_refresh_seconds :: nat where "min_jwks_refresh_seconds = 30"
definition initial_fetch_attempts :: nat where "initial_fetch_attempts = 3"
definition initial_fetch_backoff_millis :: nat where "initial_fetch_backoff_millis = 250"

record token_grant =
  tg_token :: string
  tg_read :: "string list"
  tg_write :: "string list"

datatype scalar_value = SV_String string | SV_Number json_number | SV_Bool bool

datatype claim_requirement = One scalar_value | Any "scalar_value list"

record oidc_rule =
  or_claims :: "(string \<times> claim_requirement) list"
  or_read :: "string list"
  or_write :: "string list"

record oidc_provider_config =
  oc_issuer :: string
  oc_audiences :: "string list"
  oc_discovery_uri :: "string option"
  oc_jwks_uri :: "string option"
  oc_algorithms :: "string list"
  oc_jwks_refresh_seconds :: u64
  oc_clock_skew_seconds :: u64
  oc_rules :: "oidc_rule list"

record discovery_document =
  dd_issuer :: string
  dd_jwks_uri :: string
  dd_algorithms :: "string list"

datatype public_key_use = Signature | OtherUse string
datatype key_operation = Verify | OtherOperation string

record jwk =
  jwk_key_id :: "string option"
  jwk_key_algorithm :: "string option"
  jwk_public_key_use :: "public_key_use option"
  jwk_key_operations :: "key_operation list option"
  jwk_material :: bytes

record cached_keys =
  ck_set :: "jwk list"
  ck_fetched_at :: nat
  ck_attempted_at :: "nat option"

record oidc_provider =
  op_config :: oidc_provider_config
  op_algorithms :: "jwt_algorithm list"
  op_jwks_uri :: string
  op_keys :: cached_keys
  op_min_refresh_interval :: nat

record authorizer =
  au_grants :: "token_grant list"
  au_oidc :: "oidc_provider list"
  au_allow_anonymous :: bool
  au_anonymous_read_namespaces :: "string list"

datatype access = Read | Write

section \<open>The crates and the network\<close>

record jwt_header =
  jh_kid :: "string option"
  jh_alg :: jwt_algorithm

record jwt_validation =
  jv_algorithm :: jwt_algorithm
  jv_audience :: "string list"
  jv_issuer :: "string list"
  jv_required :: "string list"
  jv_validate_nbf :: bool
  jv_leeway :: u64

record jwt_library =
  jl_decode_header :: "string \<Rightarrow> string + jwt_header"
  jl_find :: "jwk list \<Rightarrow> string \<Rightarrow> jwk option"
  jl_algorithm_from_str :: "string \<Rightarrow> jwt_algorithm option"
  jl_key_from_jwk :: "jwk \<Rightarrow> string + bytes"
  jl_decode :: "nat \<Rightarrow> string \<Rightarrow> bytes \<Rightarrow> jwt_validation \<Rightarrow> string + json"
  jl_base64 :: "string \<Rightarrow> string + bytes"
  jl_json :: "bytes \<Rightarrow> string + json"
  jl_to_str :: "string \<Rightarrow> string option"

record net =
  net_now :: nat
  net_jwks :: "(nat \<times> (string \<Rightarrow> string + jwk list)) list"
  net_discovery :: "(nat \<times> (string \<Rightarrow> string + discovery_document)) list"

definition fetch_jwks :: "string \<Rightarrow> (net, string, jwk list) comp" where
  "fetch_jwks uri n =
     (case net_jwks n of
        [] \<Rightarrow> (Inl ''fetch JWKS'', n)
      | (ms, answer) # later \<Rightarrow> (answer uri, n\<lparr>net_now := net_now n + ms, net_jwks := later\<rparr>))"

definition fetch_discovery :: "string \<Rightarrow> (net, string, discovery_document) comp" where
  "fetch_discovery uri n =
     (case net_discovery n of
        [] \<Rightarrow> (Inl ''fetch discovery document'', n)
      | (ms, answer) # later \<Rightarrow> (answer uri, n\<lparr>net_now := net_now n + ms, net_discovery := later\<rparr>))"

definition sleep :: "nat \<Rightarrow> (net, string, unit) comp" where
  "sleep ms = modifyE (\<lambda>n. n\<lparr>net_now := net_now n + ms\<rparr>)"

section \<open>Namespaces\<close>

definition namespace_byte :: "char \<Rightarrow> bool" where
  "namespace_byte b \<longleftrightarrow> is_ascii_alphanumeric b \<or> b \<in> {CHR ''-'', CHR ''_'', CHR ''.'', CHR ''/''}"

definition valid_namespace :: "string \<Rightarrow> bool" where
  "valid_namespace v \<longleftrightarrow> v \<noteq> [] \<and> length v \<le> 255 \<and> list_all namespace_byte v
     \<and> list_all (\<lambda>c. c \<noteq> [] \<and> c \<noteq> ''.'' \<and> c \<noteq> ''..'') (split_on (CHR ''/'') v)"

definition matches_namespace :: "string \<Rightarrow> string \<Rightarrow> bool" where
  "matches_namespace pattern namespace \<longleftrightarrow>
     pattern = ''*'' \<or> pattern = namespace \<or>
     (case strip_suffix ''/*'' pattern of
        None \<Rightarrow> False
      | Some pre \<Rightarrow> take (length pre) namespace = pre \<and> length pre < length namespace
          \<and> namespace ! length pre = CHR ''/'')"

section \<open>Claims\<close>

definition scalar_matches :: "scalar_value \<Rightarrow> json \<Rightarrow> bool" where
  "scalar_matches s actual =
     (case (s, actual) of
        (SV_String e, JString a) \<Rightarrow> e = a
      | (SV_Number e, JNumber a) \<Rightarrow> e = a
      | (SV_Bool e, JBool a) \<Rightarrow> e = a
      | _ \<Rightarrow> False)"

definition requirement_matches :: "claim_requirement \<Rightarrow> json \<Rightarrow> bool" where
  "requirement_matches r actual =
     (let expected = (case r of One v \<Rightarrow> [v] | Any vs \<Rightarrow> vs) in
      case actual of
        JArray vs \<Rightarrow> list_ex (\<lambda>a. list_ex (\<lambda>v. scalar_matches v a) expected) vs
      | a \<Rightarrow> list_ex (\<lambda>v. scalar_matches v a) expected)"

definition matches_claims :: "oidc_rule \<Rightarrow> json \<Rightarrow> bool" where
  "matches_claims rule claims =
     list_all (\<lambda>(name, requirement).
       case json_get claims name of None \<Rightarrow> False | Some actual \<Rightarrow> requirement_matches requirement actual)
       (or_claims rule)"

definition rule_patterns :: "oidc_rule \<Rightarrow> access \<Rightarrow> string list" where
  "rule_patterns rule a = (case a of Read \<Rightarrow> or_read rule | Write \<Rightarrow> or_write rule)"

definition grant_patterns :: "token_grant \<Rightarrow> access \<Rightarrow> string list" where
  "grant_patterns g a = (case a of Read \<Rightarrow> tg_read g | Write \<Rightarrow> tg_write g)"

definition authorize_patterns :: "string list \<Rightarrow> string \<Rightarrow> api_error + string" where
  "authorize_patterns patterns namespace =
     (if list_ex (\<lambda>pattern. matches_namespace pattern namespace) patterns then Inr namespace
      else Inl (forbidden ''token is not authorized for this namespace''))"

definition constant_time_eq :: "bytes \<Rightarrow> bytes \<Rightarrow> bool" where
  "constant_time_eq left right =
     (if length left \<noteq> length right then False
      else fold (\<lambda>(a, b) diff. diff OR (a XOR b)) (zip left right) 0 = (0 :: u8))"

definition as_bytes :: "string \<Rightarrow> bytes" where
  "as_bytes s = map of_char s"

section \<open>Tokens\<close>

definition json_str :: "json option \<Rightarrow> string option" where
  "json_str v = (case v of Some (JString s) \<Rightarrow> Some s | _ \<Rightarrow> None)"

definition unverified_issuer :: "jwt_library \<Rightarrow> string \<Rightarrow> string + string" where
  "unverified_issuer J token =
     (case split_on (CHR ''.'') token of
        [header, payload, signature] \<Rightarrow>
          bind_r (jl_base64 J payload) (\<lambda>raw. bind_r (jl_json J raw) (\<lambda>claims.
            ok_or ''JWT is missing issuer'' (json_str (json_get claims ''iss''))))
      | (header # payload # signature # _) \<Rightarrow> Inl ''JWT has too many segments''
      | [_, _] \<Rightarrow> Inl ''JWT is missing signature''
      | _ \<Rightarrow> Inl ''JWT is missing payload'')"

type_synonym 'a provider_comp = "(oidc_provider \<times> net, string, 'a) comp"

definition refresh_keys :: "jwt_library \<Rightarrow> string \<Rightarrow> unit provider_comp" where
  "refresh_keys J kid = (\<lambda>(p, n).
     let keys = op_keys p;
         recently = (case ck_attempted_at keys of
             None \<Rightarrow> False | Some at \<Rightarrow> net_now n - at < op_min_refresh_interval p);
         fresh = net_now n - ck_fetched_at keys < 1000 * unat (oc_jwks_refresh_seconds (op_config p))
     in if recently \<or> (fresh \<and> jl_find J (ck_set keys) kid \<noteq> None) then (Inr (), (p, n))
        else
          let p1 = p\<lparr>op_keys := keys\<lparr>ck_attempted_at := Some (net_now n)\<rparr>\<rparr>
          in case fetch_jwks (op_jwks_uri p) n of
               (Inl e, n1) \<Rightarrow> (Inl e, (p1, n1))
             | (Inr fetched, n1) \<Rightarrow>
                 (Inr (), (p1\<lparr>op_keys := (op_keys p1)\<lparr>ck_set := fetched, ck_fetched_at := net_now n1\<rparr>\<rparr>, n1)))"

definition usable_key :: "jwt_library \<Rightarrow> jwt_algorithm \<Rightarrow> jwk \<Rightarrow> bool" where
  "usable_key J alg jwk \<longleftrightarrow>
     \<not> ((case jwk_key_algorithm jwk of None \<Rightarrow> False
          | Some algorithm \<Rightarrow> jl_algorithm_from_str J algorithm \<noteq> Some alg)
        \<or> (case jwk_public_key_use jwk of None \<Rightarrow> False | Some usage \<Rightarrow> usage \<noteq> Signature)
        \<or> (case jwk_key_operations jwk of None \<Rightarrow> False | Some operations \<Rightarrow> Verify \<notin> set operations))"

definition token_validation :: "oidc_provider_config \<Rightarrow> jwt_algorithm \<Rightarrow> jwt_validation" where
  "token_validation config alg =
     \<lparr>jv_algorithm = alg, jv_audience = oc_audiences config, jv_issuer = [oc_issuer config],
      jv_required = [''exp'', ''aud'', ''iss'', ''sub''], jv_validate_nbf = True,
      jv_leeway = oc_clock_skew_seconds config\<rparr>"

text \<open>The steps of \<open>OidcProvider::verify\<close>: refresh the keys when they are stale or lack the token's, pick
  the key, decode under the provider's validation.\<close>

definition ensure_keys :: "jwt_library \<Rightarrow> string \<Rightarrow> unit provider_comp" where
  "ensure_keys J kid = (\<lambda>(p, n).
     let keys = op_keys p;
         stale = net_now n - ck_fetched_at keys \<ge> 1000 * unat (oc_jwks_refresh_seconds (op_config p));
         known_key = (jl_find J (ck_set keys) kid \<noteq> None)
     in if stale \<or> \<not> known_key
        then (case refresh_keys J kid (p, n) of
                (Inl e, s) \<Rightarrow> (if \<not> known_key then Inl e else Inr (), s)
              | (Inr _, s) \<Rightarrow> (Inr (), s))
        else (Inr (), (p, n)))"

definition signing_key :: "jwt_library \<Rightarrow> jwt_algorithm \<Rightarrow> string \<Rightarrow> oidc_provider \<Rightarrow> string + bytes" where
  "signing_key J alg kid p =
     bind_r (ok_or ''JWT signing key was not found'' (jl_find J (ck_set (op_keys p)) kid)) (\<lambda>jwk.
       if \<not> usable_key J alg jwk then Inl ''JWT signing key is not valid for this algorithm''
       else jl_key_from_jwk J jwk)"

definition verify_token :: "jwt_library \<Rightarrow> string \<Rightarrow> json provider_comp" where
  "verify_token J token =
     bindE (liftE (jl_decode_header J token)) (\<lambda>header.
     bindE (liftE (ok_or ''JWT header is missing kid'' (jh_kid header))) (\<lambda>kid.
     bindE (\<lambda>(p, n). (if jh_alg header \<in> set (op_algorithms p) then Inr ()
                      else Inl ''JWT uses a disallowed signing algorithm'', (p, n))) (\<lambda>_.
     bindE (ensure_keys J kid) (\<lambda>_.
     bindE (\<lambda>(p, n). (signing_key J (jh_alg header) kid p, (p, n))) (\<lambda>key.
     (\<lambda>(p, n). (jl_decode J (net_now n) token key (token_validation (op_config p) (jh_alg header)),
        (p, n))))))))"

section \<open>The decision\<close>

text \<open>The first provider of an issuer, with the providers before and after it.\<close>

fun find_provider :: "string \<Rightarrow> oidc_provider list
    \<Rightarrow> (oidc_provider list \<times> oidc_provider \<times> oidc_provider list) option" where
  "find_provider issuer [] = None"
| "find_provider issuer (p # ps) =
     (if oc_issuer (op_config p) = issuer then Some ([], p, ps)
      else map_option (\<lambda>(before, q, after). (p # before, q, after)) (find_provider issuer ps))"

definition rule_authorizes :: "json \<Rightarrow> access \<Rightarrow> string \<Rightarrow> oidc_rule \<Rightarrow> bool" where
  "rule_authorizes claims a namespace rule \<longleftrightarrow>
     matches_claims rule claims \<and>
     list_ex (\<lambda>pattern. matches_namespace pattern namespace) (rule_patterns rule a)"

definition authorize_token :: "jwt_library \<Rightarrow> access \<Rightarrow> string \<Rightarrow> string
    \<Rightarrow> (authorizer \<times> net, api_error, string) comp" where
  "authorize_token J a namespace token = (\<lambda>(A, n).
     case find (\<lambda>g. constant_time_eq (as_bytes (tg_token g)) (as_bytes token)) (au_grants A) of
       Some g \<Rightarrow> (authorize_patterns (grant_patterns g a) namespace, (A, n))
     | None \<Rightarrow>
         (case unverified_issuer J token of
            Inl _ \<Rightarrow> (Inl (unauthorized ''invalid bearer token''), (A, n))
          | Inr issuer \<Rightarrow>
              (case find_provider issuer (au_oidc A) of
                 None \<Rightarrow> (Inl (unauthorized ''invalid bearer token''), (A, n))
               | Some (before, p, after) \<Rightarrow>
                   (case verify_token J token (p, n) of
                      (r, (p', n')) \<Rightarrow>
                        let A' = A\<lparr>au_oidc := before @ p' # after\<rparr> in
                        (case r of
                           Inl _ \<Rightarrow> (Inl (unauthorized ''invalid bearer token''), (A', n'))
                         | Inr claims \<Rightarrow>
                             (if list_ex (rule_authorizes claims a namespace) (oc_rules (op_config p))
                              then Inr namespace
                              else Inl (forbidden ''identity is not authorized for this namespace''),
                              (A', n')))))))"

definition authorize :: "jwt_library \<Rightarrow> header_map \<Rightarrow> access
    \<Rightarrow> (authorizer \<times> net, api_error, string) comp" where
  "authorize J headers a = (\<lambda>(A, n).
     if header_str (jl_to_str J) headers ''mbx-cache-protocol'' \<noteq> Some ''1''
     then (Inl upgrade_required, (A, n))
     else
       case (case header_str (jl_to_str J) headers ''mbx-cache-namespace'' of
               None \<Rightarrow> None | Some v \<Rightarrow> if valid_namespace v then Some v else None) of
         None \<Rightarrow> (Inl (bad_request ''a valid Mbx-Cache-Namespace header is required''), (A, n))
       | Some namespace \<Rightarrow>
           if au_allow_anonymous A \<and> au_grants A = [] \<and> au_oidc A = [] then (Inr namespace, (A, n))
           else if a = Read \<and> list_ex (\<lambda>pattern. matches_namespace pattern namespace)
                                  (au_anonymous_read_namespaces A)
           then (Inr namespace, (A, n))
           else
             case (case header_str (jl_to_str J) headers ''authorization'' of
                     None \<Rightarrow> None | Some v \<Rightarrow> strip_prefix ''Bearer '' v) of
               None \<Rightarrow> (Inl (unauthorized ''a bearer token is required''), (A, n))
             | Some token \<Rightarrow> authorize_token J a namespace token (A, n))"

section \<open>Construction\<close>

definition parse_json_array :: "(string \<Rightarrow> string + 'a list) \<Rightarrow> string option \<Rightarrow> string \<Rightarrow> string + 'a list" where
  "parse_json_array from_str json label =
     (case json of
        None \<Rightarrow> Inr []
      | Some s \<Rightarrow> map_err (\<lambda>_. ''parse '' @ label @ '' JSON'') (from_str s))"

definition validate_provider_config :: "oidc_provider_config \<Rightarrow> string + unit" where
  "validate_provider_config c =
     (if oc_issuer c = [] \<or> oc_audiences c = [] \<or> oc_rules c = []
      then Inl ''each OIDC provider requires issuer, audiences, and rules''
      else if oc_jwks_refresh_seconds c = 0
      then Inl ''OIDC jwks_refresh_seconds must be greater than zero''
      else if list_ex (\<lambda>rule. or_claims rule = []) (oc_rules c)
      then Inl ''each OIDC authorization rule must require at least one claim''
      else Inr ())"

fun parse_algorithms :: "jwt_library \<Rightarrow> string list \<Rightarrow> string + jwt_algorithm list" where
  "parse_algorithms J [] = Inr []"
| "parse_algorithms J (name # names) =
     bind_r (ok_or (''unsupported OIDC algorithm '' @ name) (jl_algorithm_from_str J name)) (\<lambda>a.
     bind_r (parse_algorithms J names) (\<lambda>rest. Inr (a # rest)))"

definition configured_algorithms ::
    "jwt_library \<Rightarrow> string list \<Rightarrow> string list \<Rightarrow> string + jwt_algorithm list" where
  "configured_algorithms J configured advertised =
     bind_r (if configured = [] then Inr default_algorithms else parse_algorithms J configured) (\<lambda>as0.
       let as1 = filter (\<lambda>a. a \<in> set default_algorithms) as0;
           as2 = (if advertised = [] then as1
                  else filter (\<lambda>a. a \<in> set (List.map_filter (jl_algorithm_from_str J) advertised)) as1)
       in if as2 = []
          then Inl ''OIDC provider has no mutually supported asymmetric signing algorithm''
          else Inr as2)"

definition fetch_provider_data ::
    "oidc_provider_config \<Rightarrow> (net, string, string \<times> string list \<times> jwk list) comp" where
  "fetch_provider_data c =
     bindE (case oc_jwks_uri c of
              Some uri \<Rightarrow> returnE (uri, [])
            | None \<Rightarrow>
                bindE (fetch_discovery (case oc_discovery_uri c of
                    Some uri \<Rightarrow> uri
                  | None \<Rightarrow> trim_end_matches (CHR ''/'') (oc_issuer c) @ ''/.well-known/openid-configuration''))
                (\<lambda>document.
                  if dd_issuer document \<noteq> oc_issuer c then throwE ''OIDC discovery issuer mismatch''
                  else returnE (dd_jwks_uri document, dd_algorithms document)))
       (\<lambda>(jwks_uri, advertised).
         bindE (fetch_jwks jwks_uri) (\<lambda>fetched. returnE (jwks_uri, advertised, fetched)))"

text \<open>Attempts \<open>attempt\<close> up to the last; \<open>left\<close> counts the ones after this.\<close>

fun fetch_attempts ::
    "oidc_provider_config \<Rightarrow> nat \<Rightarrow> nat \<Rightarrow> (net, string, string \<times> string list \<times> jwk list) comp" where
  "fetch_attempts c attempt 0 = fetch_provider_data c"
| "fetch_attempts c attempt (Suc left) =
     handleE (fetch_provider_data c)
       (\<lambda>_. bindE (sleep (initial_fetch_backoff_millis * attempt)) (\<lambda>_. fetch_attempts c (attempt + 1) left))
       returnE"

definition fetch_initial_provider_data ::
    "oidc_provider_config \<Rightarrow> (net, string, string \<times> string list \<times> jwk list) comp" where
  "fetch_initial_provider_data c =
     handleE (fetch_attempts c 1 (initial_fetch_attempts - 1))
       (\<lambda>_. throwE (''initialize OIDC issuer '' @ oc_issuer c)) returnE"

definition oidc_provider_new :: "jwt_library \<Rightarrow> oidc_provider_config \<Rightarrow> (net, string, oidc_provider) comp" where
  "oidc_provider_new J c =
     bindE (liftE (validate_provider_config c)) (\<lambda>_.
     bindE (fetch_initial_provider_data c) (\<lambda>(jwks_uri, advertised, fetched).
     bindE (liftE (configured_algorithms J (oc_algorithms c) advertised)) (\<lambda>algorithms.
     (\<lambda>n. (Inr \<lparr>op_config = c, op_algorithms = algorithms, op_jwks_uri = jwks_uri,
              op_keys = \<lparr>ck_set = fetched, ck_fetched_at = net_now n, ck_attempted_at = None\<rparr>,
              op_min_refresh_interval = 1000 * min_jwks_refresh_seconds\<rparr>, n)))))"

fun providers_new :: "jwt_library \<Rightarrow> string list \<Rightarrow> oidc_provider_config list
    \<Rightarrow> (net, string, oidc_provider list) comp" where
  "providers_new J issuers [] = returnE []"
| "providers_new J issuers (c # cs) =
     (if oc_issuer c \<in> set issuers
      then throwE (''OIDC issuer is configured more than once: '' @ oc_issuer c)
      else bindE (oidc_provider_new J c) (\<lambda>p.
           bindE (providers_new J (oc_issuer c # issuers) cs) (\<lambda>ps. returnE (p # ps))))"

definition authorizer_new ::
    "jwt_library \<Rightarrow> (string \<Rightarrow> string + token_grant list) \<Rightarrow> (string \<Rightarrow> string + oidc_provider_config list)
      \<Rightarrow> (string \<Rightarrow> string + string list) \<Rightarrow> string option \<Rightarrow> string option \<Rightarrow> bool \<Rightarrow> string option
      \<Rightarrow> (net, string, authorizer) comp" where
  "authorizer_new J grants_json configs_json patterns_json tokens providers allow_anonymous anonymous_read =
     bindE (liftE (parse_json_array grants_json tokens ''token grants'')) (\<lambda>grants.
     bindE (liftE (parse_json_array configs_json providers ''OIDC providers'')) (\<lambda>configs.
     bindE (liftE (parse_json_array patterns_json anonymous_read ''anonymous read namespace patterns''))
       (\<lambda>anonymous.
     bindE (providers_new J [] configs) (\<lambda>oidc.
     returnE \<lparr>au_grants = grants, au_oidc = oidc, au_allow_anonymous = allow_anonymous,
              au_anonymous_read_namespaces = anonymous\<rparr>))))"

end
