(* ===== verification/Auth_Spec.thy ===== *)
theory Auth_Spec
  imports Auth
begin

text \<open>
  What the authorization of \<open>Auth\<close> guarantees: the scope of namespace patterns, that an accepted
  request is backed by a grant or by verified claims, what configuration is ever in use, and how
  often the key endpoints are asked.
\<close>

section \<open>Comparison of tokens\<close>

lemma xor_zero_iff: "(a :: u8) XOR b = 0 \<longleftrightarrow> a = b"
proof
  assume "a XOR b = 0"
  then have "(a XOR b) XOR b = b" by simp
  then show "a = b" by (simp add: xor.assoc)
qed simp

lemma or_zero_iff: "(a :: u8) OR b = 0 \<longleftrightarrow> a = 0 \<and> b = 0"
  by (rule or_eq_0_iff)

lemma fold_or_zero:
  "fold (\<lambda>(a, b) diff. diff OR (a XOR b)) ps d = (0 :: u8) \<longleftrightarrow> d = 0 \<and> (\<forall>(a, b) \<in> set ps. a = b)"
  by (induction ps arbitrary: d) (auto simp: or_zero_iff xor_zero_iff)

lemma constant_time_eq_iff: "constant_time_eq l r \<longleftrightarrow> l = r"
proof (cases "length l = length r")
  case True
  then have "(\<forall>(a, b) \<in> set (zip l r). a = b) \<longleftrightarrow> l = r"
    by (induction l r rule: list_induct2) auto
  with True show ?thesis by (simp add: constant_time_eq_def fold_or_zero)
qed (auto simp: constant_time_eq_def)

lemma of_char_u8_inj: "(of_char c :: u8) = of_char d \<longleftrightarrow> c = d"
proof
  assume "(of_char c :: u8) = of_char d"
  then have "unat (of_nat (of_char c) :: u8) = unat (of_nat (of_char d) :: u8)"
    by (simp add: of_nat_of_char)
  then have "(of_char c :: nat) = of_char d"
    by (simp only: unat_of_nat_byte of_char_mod_256)
  then show "c = d" by simp
qed simp

lemma as_bytes_inj: "as_bytes s = as_bytes t \<longleftrightarrow> s = t"
proof
  assume "as_bytes s = as_bytes t"
  then have "map (of_char :: char \<Rightarrow> u8) s = map of_char t" by (simp add: as_bytes_def)
  moreover have "inj (of_char :: char \<Rightarrow> u8)" by (rule injI) (simp add: of_char_u8_inj)
  ultimately show "s = t" by (metis map_injective)
qed simp


section \<open>Patterns\<close>

lemma split_on_append_sep: "split_on c (a @ c # b) = split_on c a @ split_on c b"
proof (induction a)
  case (Cons x a)
  then show ?case
    by (cases "split_on c a") (auto split: list.splits)
qed simp

lemma join_with_append:
  "as \<noteq> [] \<Longrightarrow> bs \<noteq> [] \<Longrightarrow> join_with c (as @ bs) = join_with c as @ c # join_with c bs"
proof (induction c as rule: join_with.induct)
  case (2 c w)
  then show ?case by (cases bs) auto
qed auto

lemma below_iff:
  "(\<exists>rest. ns = team @ CHR ''/'' # rest) \<longleftrightarrow>
    strict_prefix (split_on (CHR ''/'') team) (split_on (CHR ''/'') ns)"
proof
  assume "\<exists>rest. ns = team @ CHR ''/'' # rest"
  then show "strict_prefix (split_on (CHR ''/'') team) (split_on (CHR ''/'') ns)"
    by (auto simp: split_on_append_sep strict_prefix_def)
next
  assume "strict_prefix (split_on (CHR ''/'') team) (split_on (CHR ''/'') ns)"
  then obtain xs where xs: "split_on (CHR ''/'') ns = split_on (CHR ''/'') team @ xs" and ne: "xs \<noteq> []"
    by (auto simp: strict_prefix_def prefix_def)
  have "ns = join_with (CHR ''/'') (split_on (CHR ''/'') team @ xs)"
    by (metis xs join_split_on)
  also have "\<dots> = team @ CHR ''/'' # join_with (CHR ''/'') xs"
    by (simp add: join_with_append ne join_split_on)
  finally show "\<exists>rest. ns = team @ CHR ''/'' # rest" by blast
qed

lemma nth_below:
  "take (length pre) ns = pre \<and> length pre < length ns \<and> ns ! length pre = c
    \<longleftrightarrow> (\<exists>rest. ns = pre @ c # rest)"
proof
  assume "take (length pre) ns = pre \<and> length pre < length ns \<and> ns ! length pre = c"
  then show "\<exists>rest. ns = pre @ c # rest" by (metis id_take_nth_drop)
qed auto

lemma matches_namespace_iff:
  "matches_namespace pattern ns \<longleftrightarrow> pattern = ''*'' \<or> pattern = ns \<or>
    (\<exists>team. pattern = team @ ''/*'' \<and> strict_prefix (split_on (CHR ''/'') team) (split_on (CHR ''/'') ns))"
proof (cases "strip_suffix ''/*'' pattern")
  case None
  then have "pattern \<noteq> team @ ''/*''" for team by (metis option.distinct(1) strip_suffix_Some)
  then show ?thesis by (simp add: matches_namespace_def None)
next
  case (Some pre)
  then have "pattern = pre @ ''/*''" by (simp add: strip_suffix_Some)
  then show ?thesis unfolding matches_namespace_def Some option.case nth_below below_iff by auto
qed

section \<open>Verifying a token\<close>

definition verified :: "jwt_library \<Rightarrow> oidc_provider \<Rightarrow> string \<Rightarrow> json \<Rightarrow> bool" where
  "verified J p token claims \<longleftrightarrow>
     (\<exists>header jwk key t. jl_decode_header J token = Inr header \<and> jh_alg header \<in> set (op_algorithms p)
       \<and> usable_key J (jh_alg header) jwk \<and> jl_key_from_jwk J jwk = Inr key
       \<and> jl_decode J t token key (token_validation (op_config p) (jh_alg header)) = Inr claims)"

lemma refresh_keys_frame:
  assumes "refresh_keys J kid (p, n) = (r, (p', n'))"
  shows "op_config p' = op_config p \<and> op_algorithms p' = op_algorithms p
    \<and> op_min_refresh_interval p' = op_min_refresh_interval p \<and> op_jwks_uri p' = op_jwks_uri p"
  using assms by (auto simp: refresh_keys_def Let_def split: if_splits prod.splits sum.splits)

text \<open>A fetch is only made when none was attempted within the interval, and is noted.\<close>

definition fetched_once :: "oidc_provider \<times> net \<Rightarrow> oidc_provider \<times> net \<Rightarrow> bool" where
  "fetched_once s s' \<longleftrightarrow>
     (case s of (p, n) \<Rightarrow> case s' of (p', n') \<Rightarrow>
        s' = s \<or>
        ck_attempted_at (op_keys p') = Some (net_now n)
        \<and> (case ck_attempted_at (op_keys p) of None \<Rightarrow> True
           | Some at \<Rightarrow> op_min_refresh_interval p \<le> net_now n - at)
        \<and> net_now n \<le> net_now n' \<and> net_discovery n' = net_discovery n
        \<and> net_jwks n' = tl (net_jwks n))"

lemma refresh_keys_once: "fetched_once s (snd (refresh_keys J kid s))"
proof -
  obtain p n where s: "s = (p, n)" by fastforce
  show ?thesis
    by (auto simp: s refresh_keys_def fetched_once_def fetch_jwks_def Let_def not_less
        split: option.splits list.splits sum.splits)
qed

lemma ensure_keys_result:
  assumes "ensure_keys J kid (p, n) = (r, (p', n'))"
  shows "op_config p' = op_config p \<and> op_algorithms p' = op_algorithms p
      \<and> op_min_refresh_interval p' = op_min_refresh_interval p \<and> op_jwks_uri p' = op_jwks_uri p"
    and "fetched_once (p, n) (p', n')"
proof -
  from assms consider "(p', n') = (p, n)" | y where "refresh_keys J kid (p, n) = (y, (p', n'))"
    unfolding ensure_keys_def Let_def by (auto split: if_splits prod.splits sum.splits)
  then have "(op_config p' = op_config p \<and> op_algorithms p' = op_algorithms p
      \<and> op_min_refresh_interval p' = op_min_refresh_interval p \<and> op_jwks_uri p' = op_jwks_uri p)
      \<and> fetched_once (p, n) (p', n')"
  proof cases
    case 2
    with refresh_keys_frame [OF 2] refresh_keys_once [of "(p, n)" J kid] show ?thesis by simp
  qed (simp add: fetched_once_def)
  then show "op_config p' = op_config p \<and> op_algorithms p' = op_algorithms p
      \<and> op_min_refresh_interval p' = op_min_refresh_interval p \<and> op_jwks_uri p' = op_jwks_uri p"
    and "fetched_once (p, n) (p', n')" by simp_all
qed

lemma verify_token_cases:
  assumes "verify_token J token (p, n) = (r, (p', n'))"
  obtains (early) e where "r = Inl e" "p' = p" "n' = n"
    | (later) header kid x where "jl_decode_header J token = Inr header" "jh_kid header = Some kid"
        "jh_alg header \<in> set (op_algorithms p)" "ensure_keys J kid (p, n) = (x, (p', n'))"
        "r = bind_r x (\<lambda>_. bind_r (signing_key J (jh_alg header) kid p') (\<lambda>key.
           jl_decode J (net_now n') token key (token_validation (op_config p') (jh_alg header))))"
proof (cases "jl_decode_header J token")
  case (Inl e)
  with assms have "r = Inl e \<and> p' = p \<and> n' = n" by (simp add: verify_token_def)
  with early show thesis by blast
next
  case (Inr header)
  note h = this
  show thesis
  proof (cases "jh_kid header")
    case None
    with h assms have "(\<exists>e. r = Inl e) \<and> p' = p \<and> n' = n" by (auto simp: verify_token_def)
    with early show thesis by blast
  next
    case (Some kid)
    show thesis
    proof (cases "jh_alg header \<in> set (op_algorithms p)")
      case False
      with h Some assms have "(\<exists>e. r = Inl e) \<and> p' = p \<and> n' = n" by (auto simp: verify_token_def)
      with early show thesis by blast
    next
      case True
      obtain x p1 n1 where e: "ensure_keys J kid (p, n) = (x, (p1, n1))" by (metis prod_cases3)
      have "r = bind_r x (\<lambda>_. bind_r (signing_key J (jh_alg header) kid p1) (\<lambda>key.
           jl_decode J (net_now n1) token key (token_validation (op_config p1) (jh_alg header))))
         \<and> p' = p1 \<and> n' = n1"
        using assms h Some True e
        by (cases x; cases "signing_key J (jh_alg header) kid p1") (auto simp: verify_token_def)
      with later [OF h Some True] e show thesis by blast
    qed
  qed
qed

lemma verify_token_result:
  assumes v: "verify_token J token (p, n) = (r, (p', n'))"
  shows "op_config p' = op_config p \<and> op_algorithms p' = op_algorithms p
    \<and> op_min_refresh_interval p' = op_min_refresh_interval p \<and> op_jwks_uri p' = op_jwks_uri p"
    and "fetched_once (p, n) (p', n')"
    and "r = Inr claims \<Longrightarrow> verified J p token claims"
proof -
  show "op_config p' = op_config p \<and> op_algorithms p' = op_algorithms p
    \<and> op_min_refresh_interval p' = op_min_refresh_interval p \<and> op_jwks_uri p' = op_jwks_uri p"
    using v by (cases rule: verify_token_cases) (simp_all add: ensure_keys_result(1))
  show "fetched_once (p, n) (p', n')"
    using v by (cases rule: verify_token_cases) (simp_all add: ensure_keys_result(2), simp add: fetched_once_def)
  show "verified J p token claims" if r: "r = Inr claims"
    using v
  proof (cases rule: verify_token_cases)
    case (later header kid x)
    from r later(5) obtain key where k: "signing_key J (jh_alg header) kid p' = Inr key"
      and d: "jl_decode J (net_now n') token key (token_validation (op_config p') (jh_alg header)) = Inr claims"
      by (auto simp: result_simps)
    from k obtain jwk where "usable_key J (jh_alg header) jwk" "jl_key_from_jwk J jwk = Inr key"
      by (auto simp: signing_key_def result_simps split: if_splits)
    with later(1,3) d ensure_keys_result(1) [OF later(4)] show ?thesis
      unfolding verified_def by metis
  qed (simp add: r)
qed

section \<open>Decisions\<close>

lemma find_provider_Some:
  "find_provider issuer ps = Some (before, p, after) \<Longrightarrow>
    ps = before @ p # after \<and> oc_issuer (op_config p) = issuer"
  by (induction ps arbitrary: before) (auto split: if_splits)

definition token_backed :: "jwt_library \<Rightarrow> authorizer \<Rightarrow> access \<Rightarrow> string \<Rightarrow> string \<Rightarrow> bool" where
  "token_backed J A a ns token \<longleftrightarrow>
     (\<exists>g \<in> set (au_grants A). tg_token g = token
        \<and> (\<exists>pattern \<in> set (grant_patterns g a). matches_namespace pattern ns))
     \<or> (\<exists>p \<in> set (au_oidc A). \<exists>claims. unverified_issuer J token = Inr (oc_issuer (op_config p))
        \<and> verified J p token claims \<and> (\<exists>rule \<in> set (oc_rules (op_config p)). rule_authorizes claims a ns rule))"

definition access_allowed :: "jwt_library \<Rightarrow> authorizer \<Rightarrow> header_map \<Rightarrow> access \<Rightarrow> string \<Rightarrow> bool" where
  "access_allowed J A headers a ns \<longleftrightarrow>
     header_str (jl_to_str J) headers ''mbx-cache-protocol'' = Some ''1''
     \<and> header_str (jl_to_str J) headers ''mbx-cache-namespace'' = Some ns \<and> valid_namespace ns
     \<and> (au_allow_anonymous A \<and> au_grants A = [] \<and> au_oidc A = []
        \<or> a = Read \<and> (\<exists>pattern \<in> set (au_anonymous_read_namespaces A). matches_namespace pattern ns)
        \<or> (\<exists>token. header_str (jl_to_str J) headers ''authorization'' = Some (''Bearer '' @ token)
             \<and> token_backed J A a ns token))"

lemma token_eq: "constant_time_eq (as_bytes s) (as_bytes t) \<longleftrightarrow> s = t"
  by (simp add: constant_time_eq_iff as_bytes_inj)

lemma authorize_token_sound:
  assumes "authorize_token J a ns token (A, n) = (Inr ns', s)"
  shows "ns' = ns \<and> token_backed J A a ns token"
proof (cases "find (\<lambda>g. constant_time_eq (as_bytes (tg_token g)) (as_bytes token)) (au_grants A)")
  case (Some g)
  then have "g \<in> set (au_grants A)" "tg_token g = token"
    by (auto simp: find_Some_iff token_eq)
  moreover have "ns' = ns \<and> (\<exists>pattern \<in> set (grant_patterns g a). matches_namespace pattern ns)"
    using assms Some by (auto simp: authorize_token_def authorize_patterns_def list_ex_iff split: if_splits)
  ultimately show ?thesis unfolding token_backed_def by blast
next
  case None
  note none = this
  obtain issuer where i: "unverified_issuer J token = Inr issuer"
    using assms None by (cases "unverified_issuer J token") (auto simp: authorize_token_def)
  obtain before p after where f: "find_provider issuer (au_oidc A) = Some (before, p, after)"
    using assms None i by (cases "find_provider issuer (au_oidc A)") (auto simp: authorize_token_def)
  obtain r p' n' where v: "verify_token J token (p, n) = (r, (p', n'))" by (metis prod_cases3)
  obtain claims where r: "r = Inr claims"
    using assms None i f v by (cases r) (auto simp: authorize_token_def Let_def)
  have "ns' = ns \<and> (\<exists>rule \<in> set (oc_rules (op_config p)). rule_authorizes claims a ns rule)"
    using assms None i f v r by (auto simp: authorize_token_def Let_def list_ex_iff split: if_splits)
  moreover have "p \<in> set (au_oidc A)" "issuer = oc_issuer (op_config p)"
    using find_provider_Some [OF f] by auto
  moreover have "verified J p token claims" using verify_token_result(3) [OF v r] .
  ultimately show ?thesis using i unfolding token_backed_def by blast
qed

lemma authorize_cases:
  obtains (refused) e where "authorize J headers a (A, n) = (Inl e, (A, n))"
    | (open_access) ns where "authorize J headers a (A, n) = (Inr ns, (A, n))" "access_allowed J A headers a ns"
    | (by_token) ns token where "authorize J headers a (A, n) = authorize_token J a ns token (A, n)"
        "header_str (jl_to_str J) headers ''mbx-cache-protocol'' = Some ''1''"
        "header_str (jl_to_str J) headers ''mbx-cache-namespace'' = Some ns" "valid_namespace ns"
        "header_str (jl_to_str J) headers ''authorization'' = Some (''Bearer '' @ token)"
proof (cases "header_str (jl_to_str J) headers ''mbx-cache-protocol'' = Some ''1''")
  case False
  then have "authorize J headers a (A, n) = (Inl upgrade_required, (A, n))" by (simp add: authorize_def)
  with refused show thesis by blast
next
  case True
  note proto = this
  show thesis
  proof (cases "case header_str (jl_to_str J) headers ''mbx-cache-namespace'' of
      None \<Rightarrow> None | Some v \<Rightarrow> if valid_namespace v then Some v else None")
    case None
    with proto have "\<exists>e. authorize J headers a (A, n) = (Inl e, (A, n))" by (simp add: authorize_def)
    with refused show thesis by blast
  next
    case (Some ns)
    then have ns: "header_str (jl_to_str J) headers ''mbx-cache-namespace'' = Some ns" "valid_namespace ns"
      by (auto split: option.splits if_splits)
    show thesis
    proof (cases "au_allow_anonymous A \<and> au_grants A = [] \<and> au_oidc A = []
        \<or> a = Read \<and> list_ex (\<lambda>pattern. matches_namespace pattern ns) (au_anonymous_read_namespaces A)")
      case True
      then have "authorize J headers a (A, n) = (Inr ns, (A, n))" using proto ns by (auto simp: authorize_def)
      moreover have "access_allowed J A headers a ns"
        using True proto ns by (auto simp: access_allowed_def list_ex_iff)
      ultimately show thesis using open_access by blast
    next
      case False
      show thesis
      proof (cases "case header_str (jl_to_str J) headers ''authorization'' of
          None \<Rightarrow> None | Some v \<Rightarrow> strip_prefix ''Bearer '' v")
        case None
        with False proto ns have "\<exists>e. authorize J headers a (A, n) = (Inl e, (A, n))"
          by (auto simp: authorize_def)
        with refused show thesis by blast
      next
        case (Some token)
        then have "header_str (jl_to_str J) headers ''authorization'' = Some (''Bearer '' @ token)"
          by (auto simp: strip_prefix_Some split: option.splits)
        moreover have "authorize J headers a (A, n) = authorize_token J a ns token (A, n)"
          using False proto ns Some by (auto simp: authorize_def)
        ultimately show thesis using by_token proto ns by blast
      qed
    qed
  qed
qed

lemma authorize_allowed:
  assumes "authorize J headers a (A, n) = (Inr ns, s)"
  shows "access_allowed J A headers a ns"
proof (cases rule: authorize_cases [of J headers a A n])
  case (by_token ns' token)
  with authorize_token_sound [of J a ns' token A n ns s] assms show ?thesis
    by (auto simp: access_allowed_def)
qed (use assms in auto)

section \<open>Configuration in use\<close>

definition provider_ok :: "oidc_provider \<Rightarrow> bool" where
  "provider_ok p \<longleftrightarrow>
     op_algorithms p \<noteq> [] \<and> set (op_algorithms p) \<subseteq> set default_algorithms
     \<and> oc_issuer (op_config p) \<noteq> [] \<and> oc_audiences (op_config p) \<noteq> []
     \<and> (\<forall>rule \<in> set (oc_rules (op_config p)). or_claims rule \<noteq> [])
     \<and> op_min_refresh_interval p = 30000"

definition authorizer_ok :: "authorizer \<Rightarrow> bool" where
  "authorizer_ok A \<longleftrightarrow>
     list_all provider_ok (au_oidc A) \<and> distinct (map (\<lambda>p. oc_issuer (op_config p)) (au_oidc A))"

lemma configured_algorithms_ok:
  "configured_algorithms J configured advertised = Inr algs \<Longrightarrow>
    algs \<noteq> [] \<and> set algs \<subseteq> set default_algorithms"
  by (auto simp: configured_algorithms_def result_simps Let_def split: if_splits)

lemma validate_provider_config_ok:
  "validate_provider_config c = Inr u \<Longrightarrow> oc_issuer c \<noteq> [] \<and> oc_audiences c \<noteq> []
    \<and> (\<forall>rule \<in> set (oc_rules c). or_claims rule \<noteq> [])"
  by (auto simp: validate_provider_config_def list_ex_iff split: if_splits)

lemma oidc_provider_new_ok:
  assumes "oidc_provider_new J c n = (Inr p, n')"
  shows "provider_ok p \<and> op_config p = c"
  using assms configured_algorithms_ok validate_provider_config_ok
  by (fastforce simp: oidc_provider_new_def result_simps provider_ok_def min_jwks_refresh_seconds_def
      split: prod.splits)

lemma providers_new_ok:
  "providers_new J issuers cs n = (Inr ps, n') \<Longrightarrow>
    list_all provider_ok ps \<and> distinct (map (\<lambda>p. oc_issuer (op_config p)) ps)
    \<and> set issuers \<inter> set (map (\<lambda>p. oc_issuer (op_config p)) ps) = {}"
proof (induction cs arbitrary: issuers ps n)
  case (Cons c cs)
  from Cons.prems have new: "oc_issuer c \<notin> set issuers" by (auto split: if_splits)
  with Cons.prems obtain p n1 qs n2 where p: "oidc_provider_new J c n = (Inr p, n1)"
    and qs: "providers_new J (oc_issuer c # issuers) cs n1 = (Inr qs, n')" and ps: "ps = p # qs"
    by (auto simp: result_simps)
  from Cons.IH [OF qs] oidc_provider_new_ok [OF p] new show ?case by (auto simp: ps)
qed simp

lemma authorize_token_frame:
  assumes "authorize_token J a ns token (A, n) = (r, (A', n'))"
  shows "A' = A \<and> n' = n \<or> (\<exists>before p after p'. au_oidc A = before @ p # after
    \<and> A' = A\<lparr>au_oidc := before @ p' # after\<rparr> \<and> op_config p' = op_config p
    \<and> op_algorithms p' = op_algorithms p \<and> op_min_refresh_interval p' = op_min_refresh_interval p
    \<and> fetched_once (p, n) (p', n'))"
proof (cases "find (\<lambda>g. constant_time_eq (as_bytes (tg_token g)) (as_bytes token)) (au_grants A)")
  case (Some g)
  with assms show ?thesis by (simp add: authorize_token_def)
next
  case None
  note none = this
  show ?thesis
  proof (cases "unverified_issuer J token")
    case (Inl e)
    with assms None show ?thesis by (simp add: authorize_token_def)
  next
    case (Inr issuer)
    show ?thesis
    proof (cases "find_provider issuer (au_oidc A)")
      case None
      with none Inr assms show ?thesis by (simp add: authorize_token_def)
    next
      case (Some t)
      obtain before p after where t: "t = (before, p, after)" by (metis prod_cases3)
      obtain x p' n1 where v: "verify_token J token (p, n) = (x, (p', n1))" by (metis prod_cases3)
      from assms none Inr Some t v have "A' = A\<lparr>au_oidc := before @ p' # after\<rparr> \<and> n' = n1"
        by (cases x) (auto simp: authorize_token_def Let_def)
      with find_provider_Some [OF Some [unfolded t]] verify_token_result(1,2) [OF v]
      show ?thesis by blast
    qed
  qed
qed

lemma authorize_frame:
  assumes "authorize J headers a (A, n) = (r, (A', n'))"
  shows "A' = A \<and> n' = n \<or> (\<exists>before p after p'. au_oidc A = before @ p # after
    \<and> A' = A\<lparr>au_oidc := before @ p' # after\<rparr> \<and> op_config p' = op_config p
    \<and> op_algorithms p' = op_algorithms p \<and> op_min_refresh_interval p' = op_min_refresh_interval p
    \<and> fetched_once (p, n) (p', n'))"
proof (cases rule: authorize_cases [of J headers a A n])
  case (by_token ns token)
  with assms authorize_token_frame show ?thesis by metis
qed (use assms in auto)

lemma authorize_keeps_ok:
  assumes "authorizer_ok A" and "authorize J headers a (A, n) = (r, (A', n'))"
  shows "authorizer_ok A'"
  using authorize_frame [OF assms(2)] assms(1) by (auto simp: authorizer_ok_def provider_ok_def)

lemma authorizer_new_ok:
  assumes "authorizer_new J gj cj pj tokens providers anon anonymous_read n = (Inr A, n')"
  shows "authorizer_ok A"
  using assms providers_new_ok by (fastforce simp: authorizer_new_def result_simps authorizer_ok_def)

section \<open>Properties of authorization\<close>

definition sample_jwt :: jwt_library where
  "sample_jwt =
     \<lparr>jl_decode_header = (\<lambda>t. Inr \<lparr>jh_kid = Some ''k1'', jh_alg = RS256\<rparr>),
      jl_find = (\<lambda>ks kid. find (\<lambda>k. jwk_key_id k = Some kid) ks),
      jl_algorithm_from_str = (\<lambda>s. if s = ''RS256'' then Some RS256 else None),
      jl_key_from_jwk = (\<lambda>k. Inr (jwk_material k)),
      jl_decode = (\<lambda>t token key v. Inr (JObject [(''sub'', JString ''ci'')])),
      jl_base64 = (\<lambda>s. Inr (as_bytes s)),
      jl_json = (\<lambda>_. Inr (JObject [(''iss'', JString ''https://id'')])),
      jl_to_str = Some\<rparr>"

definition sample_key :: jwk where
  "sample_key = \<lparr>jwk_key_id = Some ''k1'', jwk_key_algorithm = Some ''RS256'',
     jwk_public_key_use = Some Signature, jwk_key_operations = None, jwk_material = [1]\<rparr>"

definition sample_provider :: oidc_provider where
  "sample_provider =
     \<lparr>op_config = \<lparr>oc_issuer = ''https://id'', oc_audiences = [''mbx''], oc_discovery_uri = None,
        oc_jwks_uri = Some ''https://id/keys'', oc_algorithms = [], oc_jwks_refresh_seconds = 300,
        oc_clock_skew_seconds = 60,
        oc_rules = [\<lparr>or_claims = [(''sub'', One (SV_String ''ci''))], or_read = [''team/*''], or_write = []\<rparr>]\<rparr>,
      op_algorithms = [RS256], op_jwks_uri = ''https://id/keys'',
      op_keys = \<lparr>ck_set = [], ck_fetched_at = 0, ck_attempted_at = None\<rparr>,
      op_min_refresh_interval = 30000\<rparr>"

definition sample_authorizer :: authorizer where
  "sample_authorizer =
     \<lparr>au_grants = [\<lparr>tg_token = ''secret'', tg_read = [''team/*''], tg_write = [''team/app'']\<rparr>],
      au_oidc = [sample_provider], au_allow_anonymous = False,
      au_anonymous_read_namespaces = [''public/*'']\<rparr>"

definition sample_net :: net where
  "sample_net = \<lparr>net_now = 1000, net_jwks = [(5, \<lambda>_. Inr [sample_key])], net_discovery = []\<rparr>"

definition sample_headers :: "string \<Rightarrow> header_map" where
  "sample_headers token =
     [''mbx-cache-protocol'' \<mapsto> ''1'', ''mbx-cache-namespace'' \<mapsto> ''team/app'',
      ''authorization'' \<mapsto> ''Bearer '' @ token]"

lemma sample_authorizer_ok: "authorizer_ok sample_authorizer"
  by (simp add: authorizer_ok_def provider_ok_def sample_authorizer_def sample_provider_def
      default_algorithms_def)

lemma sample_namespace: "valid_namespace ''team/app''"
  by (simp add: valid_namespace_def namespace_byte_def is_ascii_alphanumeric_def is_ascii_digit_def)

lemmas authorize_eval = authorize_def authorize_token_def authorize_patterns_def grant_patterns_def
  header_str_def sample_headers_def sample_jwt_def sample_authorizer_def sample_namespace
  matches_namespace_def strip_prefix_def token_eq

text \<open>
  C17. Namespace isolation of patterns: \<open>*\<close> covers every namespace, a pattern without wildcard covers
  the namespace of that name, and \<open>team/*\<close> covers exactly the namespaces strictly below \<open>team\<close> in
  whole path components, so never \<open>team\<close> itself nor a namespace such as \<open>team-b/x\<close>.
\<close>

theorem pattern_scope:
  "matches_namespace pattern ns \<longleftrightarrow> pattern = ''*'' \<or> pattern = ns \<or>
    (\<exists>team. pattern = team @ ''/*'' \<and> strict_prefix (split_on (CHR ''/'') team) (split_on (CHR ''/'') ns))"
  by (rule matches_namespace_iff)



text \<open>
  A static token decides alone: with pairwise different tokens, a well-formed request that
  carries the token of grant \<open>g\<close> and is not open to anonymous readers is accepted exactly when one of
  the patterns of \<open>g\<close> for this access covers the namespace, and refused with 403 otherwise; no
  identity provider is asked and no state changes.
\<close>

theorem static_grant_decides:
  assumes "header_str (jl_to_str J) headers ''mbx-cache-protocol'' = Some ''1''"
    and "header_str (jl_to_str J) headers ''mbx-cache-namespace'' = Some ns" and "valid_namespace ns"
    and "header_str (jl_to_str J) headers ''authorization'' = Some (''Bearer '' @ tg_token g)"
    and "g \<in> set (au_grants A)" and "distinct (map tg_token (au_grants A))"
    and "a = Read \<Longrightarrow> \<not> (\<exists>pattern \<in> set (au_anonymous_read_namespaces A). matches_namespace pattern ns)"
  shows "authorize J headers a (A, n) =
    (if \<exists>pattern \<in> set (grant_patterns g a). matches_namespace pattern ns then Inr ns
     else Inl (forbidden ''token is not authorized for this namespace''), (A, n))"
proof -
  have "find (\<lambda>h. tg_token h = tg_token g) gs = Some g"
    if "g \<in> set gs" "distinct (map tg_token gs)" for gs
    using that by (induction gs) auto
  from this [OF assms(5,6)]
  have f: "find (\<lambda>h. constant_time_eq (as_bytes (tg_token h)) (as_bytes (tg_token g))) (au_grants A) = Some g"
    by (simp add: token_eq)
  have "strip_prefix ''Bearer '' (''Bearer '' @ tg_token g) = Some (tg_token g)"
    by (simp only: strip_prefix_Some)
  moreover have "au_grants A \<noteq> []" using assms(5) by auto
  ultimately have "authorize J headers a (A, n) = authorize_token J a ns (tg_token g) (A, n)"
    using assms(1-4,7) by (cases a) (simp_all add: authorize_def list_ex_iff)
  then show ?thesis by (simp add: authorize_token_def f authorize_patterns_def list_ex_iff)
qed

theorem static_grant_decides_witness:
  "authorize sample_jwt (sample_headers ''secret'') Write (sample_authorizer, sample_net)
    = (Inr ''team/app'', (sample_authorizer, sample_net))"
  using static_grant_decides [where J = sample_jwt and headers = "sample_headers ''secret''" and ns = "''team/app''"
      and g = "hd (au_grants sample_authorizer)" and A = sample_authorizer and a = Write and n = sample_net]
  by (simp add: authorize_eval)

text \<open>
  C18. The configuration in use is safe from construction on: every provider of a constructed
  authorizer has at least one signing algorithm, all of them asymmetric ones of the default list, an
  issuer no other provider has, an audience, and only rules that require a claim; and authorizing
  requests, which refreshes keys, preserves this.
\<close>

theorem authorizer_configuration_safe:
  "(\<forall>A'. fst (authorizer_new J gj cj pj tokens providers anon readers n) = Inr A' \<longrightarrow> authorizer_ok A')
    \<and> (authorizer_ok A \<longrightarrow> authorizer_ok (fst (snd (authorize J headers a (A, n)))))"
proof (intro conjI allI impI)
  fix A' assume "fst (authorizer_new J gj cj pj tokens providers anon readers n) = Inr A'"
  then show "authorizer_ok A'" by (metis authorizer_new_ok prod.collapse)
next
  assume "authorizer_ok A"
  then show "authorizer_ok (fst (snd (authorize J headers a (A, n))))"
    by (metis authorize_keeps_ok prod.collapse)
qed

theorem authorizer_configuration_safe_witness:
  "authorizer_ok (fst (snd (authorize sample_jwt (sample_headers ''a.b.c'') Read (sample_authorizer, sample_net))))"
  using authorizer_configuration_safe sample_authorizer_ok by blast

text \<open>
  C19. Tokens cannot be used to hammer an identity provider: a request causes at most one fetch of
  signing keys, of one provider; and it causes one only when the last attempt for that provider, if
  there was any, lies at least its refresh interval back, and then records the new attempt.
\<close>

theorem key_fetches_limited:
  assumes "authorize J headers a (A, n) = (r, (A', n'))"
  shows "A' = A \<and> n' = n \<or> (\<exists>before p after p'. au_oidc A = before @ p # after
    \<and> A' = A\<lparr>au_oidc := before @ p' # after\<rparr> \<and> op_config p' = op_config p
    \<and> ((p', n') = (p, n)
       \<or> ck_attempted_at (op_keys p') = Some (net_now n) \<and> net_jwks n' = tl (net_jwks n)
         \<and> (\<forall>at. ck_attempted_at (op_keys p) = Some at \<longrightarrow> op_min_refresh_interval p \<le> net_now n - at)))"
proof -
  from authorize_frame [OF assms] consider "A' = A \<and> n' = n"
    | before p after p' where "au_oidc A = before @ p # after" "A' = A\<lparr>au_oidc := before @ p' # after\<rparr>"
      "op_config p' = op_config p" "fetched_once (p, n) (p', n')" by blast
  then show ?thesis
  proof cases
    case 2
    have "(p', n') = (p, n)
       \<or> ck_attempted_at (op_keys p') = Some (net_now n) \<and> net_jwks n' = tl (net_jwks n)
         \<and> (\<forall>at. ck_attempted_at (op_keys p) = Some at \<longrightarrow> op_min_refresh_interval p \<le> net_now n - at)"
      using 2(4) unfolding fetched_once_def prod.case by (auto split: option.splits)
    with 2(1-3) show ?thesis by blast
  qed blast
qed

theorem key_fetches_limited_witness:
  "length (au_oidc (fst (snd (authorize sample_jwt (sample_headers ''a.b.c'') Read
    (sample_authorizer, sample_net))))) = 1"
proof -
  obtain r A' n' where e: "authorize sample_jwt (sample_headers ''a.b.c'') Read (sample_authorizer, sample_net)
      = (r, (A', n'))" by (metis prod_cases3)
  have "length (au_oidc sample_authorizer) = 1" by (simp add: sample_authorizer_def)
  with key_fetches_limited [OF e] show ?thesis by (auto simp: e)
qed

end
