(* ===== verification/Storage.thy ===== *)
theory Storage
  imports Api_Error "HOL-Library.Sublist"
begin

text \<open>
  \<open>src/storage/mod.rs\<close> and \<open>src/storage/filesystem.rs\<close>: the trait \<open>BlobStore\<close> as a record of its two
  operations over a state, its contract as the locale \<open>blob_storage\<close>, and the filesystem backend,
  which the locale is interpreted on.

  A file passed by path (\<open>source\<close>) is its content. The directory tree is a map from paths to files;
  a file knows whether its data has reached the disk. Before every system call the environment may
  make the call fail and may have published blobs of its own (other requests of the server share the
  directory), so one run of \<open>fs_put\<close> covers every interleaving with other uploads.
\<close>

section \<open>The trait\<close>

record blob =
  bl_size :: u64
  bl_stream :: "(string + bytes) list"

datatype put_outcome = Created | AlreadyExists

record 'b blob_store =
  bs_get :: "digest \<Rightarrow> ('b, anyhow, blob option) comp"
  bs_put :: "digest \<Rightarrow> bytes \<Rightarrow> ('b, anyhow, put_outcome) comp"

text \<open>What a stream delivers before it ends or fails.\<close>

fun delivered :: "('e + bytes) list \<Rightarrow> bytes" where
  "delivered [] = []"
| "delivered (Inl _ # _) = []"
| "delivered (Inr c # cs) = c @ delivered cs"

definition completes :: "('e + bytes) list \<Rightarrow> bool" where
  "completes cs \<longleftrightarrow> list_all (\<lambda>c. \<exists>b. c = Inr b) cs"

lemma completes_simps [simp]:
  "completes []" "\<not> completes (Inl e # cs)" "completes (Inr c # cs) \<longleftrightarrow> completes cs"
  by (simp_all add: completes_def)

lemma delivered_all: "delivered (map Inr bs) = concat bs" "completes (map Inr bs)"
  by (induction bs) auto

text \<open>\<open>while let Some(chunk) = stream.next().await { bytes.extend(chunk?) }\<close>\<close>

fun read_stream :: "(string + bytes) list \<Rightarrow> bytes \<Rightarrow> string + bytes" where
  "read_stream [] acc = Inr acc"
| "read_stream (Inl e # _) acc = Inl e"
| "read_stream (Inr c # cs) acc = read_stream cs (acc @ c)"

lemma read_stream_iff: "read_stream cs acc = Inr b \<longleftrightarrow> completes cs \<and> b = acc @ delivered cs"
  by (induction cs acc rule: read_stream.induct) auto

section \<open>The contract\<close>

text \<open>
  \<open>held\<close> is what a store holds, \<open>usable\<close> the digests it may be asked about, \<open>good\<close> says that a content
  belongs under a digest, and \<open>ok\<close> is the store's own invariant together with what it relies on of its
  environment. A store hands out what it holds, an upload ends with the digest held, nothing held is
  ever replaced, and nothing but good contents enters.
\<close>

locale blob_storage =
  fixes get :: "digest \<Rightarrow> ('b, anyhow, blob option) comp"
    and put :: "digest \<Rightarrow> bytes \<Rightarrow> ('b, anyhow, put_outcome) comp"
    and ok :: "'b \<Rightarrow> bool"
    and held :: "'b \<Rightarrow> digest \<Rightarrow> bytes option"
    and usable :: "digest \<Rightarrow> bool"
    and good :: "digest \<Rightarrow> bytes \<Rightarrow> bool"
  assumes get_ok: "ok s \<Longrightarrow> ok (snd (get d s))"
    and put_ok: "ok s \<Longrightarrow> usable d \<Longrightarrow> good d src \<Longrightarrow> ok (snd (put d src s))"
    and held_good: "ok s \<Longrightarrow> usable d \<Longrightarrow> held s d = Some c \<Longrightarrow> good d c"
    and get_found: "ok s \<Longrightarrow> usable d \<Longrightarrow> get d s = (Inr (Some b), t) \<Longrightarrow>
      \<exists>c. held t d = Some c \<and> bl_size b = of_nat (length c) \<and> prefix (delivered (bl_stream b)) c
        \<and> (completes (bl_stream b) \<longrightarrow> delivered (bl_stream b) = c)"
    and get_missing: "ok s \<Longrightarrow> usable d \<Longrightarrow> get d s = (Inr None, t) \<Longrightarrow> held s d = None"
    and put_created: "ok s \<Longrightarrow> usable d \<Longrightarrow> put d src s = (Inr Created, t) \<Longrightarrow>
      held s d = None \<and> held t d = Some src"
    and put_exists: "ok s \<Longrightarrow> usable d \<Longrightarrow> put d src s = (Inr AlreadyExists, t) \<Longrightarrow> held t d \<noteq> None"
    and get_keeps: "ok s \<Longrightarrow> usable e \<Longrightarrow> held s e = Some c \<Longrightarrow> held (snd (get d s)) e = Some c"
    and put_keeps: "ok s \<Longrightarrow> usable e \<Longrightarrow> held s e = Some c \<Longrightarrow> held (snd (put d src s)) e = Some c"
begin

lemma served_good:
  assumes "ok s" and "usable d" and "get d s = (Inr (Some b), t)" and "completes (bl_stream b)"
  shows "good d (delivered (bl_stream b))" and "length (delivered (bl_stream b)) < 2 ^ 64 \<Longrightarrow>
    bl_size b = of_nat (length (delivered (bl_stream b)))"
proof -
  obtain c where c: "held t d = Some c" "bl_size b = of_nat (length c)" "delivered (bl_stream b) = c"
    using get_found [OF assms(1-3)] assms(4) by blast
  have "ok t" using get_ok [OF assms(1), of d] assms(3) by simp
  with c held_good [OF _ assms(2)] show "good d (delivered (bl_stream b))" by blast
  show "bl_size b = of_nat (length (delivered (bl_stream b)))" using c by simp
qed

lemma put_then_get:
  assumes "ok s" and "usable d" and "good d src" and "put d src s = (Inr out, t)"
    and "get d t = (Inr r, u)"
  shows "\<exists>b. r = Some b \<and> (completes (bl_stream b) \<longrightarrow> good d (delivered (bl_stream b)))"
proof -
  have t: "ok t" using put_ok [OF assms(1-3)] assms(4) by (metis snd_conv)
  have "held t d \<noteq> None"
    using put_created [OF assms(1,2)] put_exists [OF assms(1,2)] assms(4) by (cases out) fastforce+
  moreover have "held t d = None" if "r = None"
    using get_missing [OF t assms(2)] assms(5) that by simp
  ultimately obtain b where "r = Some b" by (cases r) auto
  with served_good(1) [OF t assms(2)] assms(5) show ?thesis by auto
qed

text \<open>What the first upload stored stays: later uploads of the digest do not change it.\<close>

lemma created_stays:
  assumes "ok s" and "usable d" and "good d src" and "put d src s = (Inr Created, t)"
    and "usable e" and "good e src'"
  shows "held (snd (put e src' t)) d = Some src"
proof -
  have "ok t" using put_ok [OF assms(1-3)] assms(4) by (metis snd_conv)
  moreover have "held t d = Some src" using put_created [OF assms(1,2,4)] by simp
  ultimately show ?thesis using put_keeps assms(2) by blast
qed

end

section \<open>The filesystem\<close>

type_synonym path = "string list"

record disk_file =
  fi_content :: bytes
  fi_synced :: bool

record io_event =
  ie_fault :: "string option"
  ie_published :: "(path \<times> disk_file) list"

record fs =
  fs_files :: "path \<rightharpoonup> disk_file"
  fs_events :: "io_event list"

record filesystem_store =
  fss_root :: path

text \<open>A rename that does not replace: the file is added unless the name is taken.\<close>

definition add_noclobber :: "path \<Rightarrow> disk_file \<Rightarrow> (path \<rightharpoonup> disk_file) \<Rightarrow> (path \<rightharpoonup> disk_file)" where
  "add_noclobber p f files = (if p \<in> dom files then files else files(p \<mapsto> f))"

definition publish_all :: "(path \<times> disk_file) list \<Rightarrow> (path \<rightharpoonup> disk_file) \<Rightarrow> (path \<rightharpoonup> disk_file)" where
  "publish_all pub files = fold (\<lambda>(p, f). add_noclobber p f) pub files"

definition io :: "(fs, anyhow, 'a) comp \<Rightarrow> (fs, anyhow, 'a) comp" where
  "io op s =
     (case fs_events s of
        [] \<Rightarrow> op s
      | e # es \<Rightarrow>
          let s' = s\<lparr>fs_files := publish_all (ie_published e) (fs_files s), fs_events := es\<rparr>
          in (case ie_fault e of Some m \<Rightarrow> (Inl (OtherError m), s') | None \<Rightarrow> op s'))"

definition blob_path :: "protocol \<Rightarrow> filesystem_store \<Rightarrow> digest \<Rightarrow> anyhow + path" where
  "blob_path P st d =
     bind_r (map_err OtherError (digest_validate P d)) (\<lambda>_.
     bind_r (map_err OtherError (algorithm_kind P d)) (\<lambda>algorithm.
     Inr (fss_root st @ [''blobs'', algorithm_name P algorithm, take 2 (d_hash d), d_hash d,
       nat_to_string (unat (d_size d))])))"

fun chunks_of :: "nat \<Rightarrow> 'a list \<Rightarrow> 'a list list" where
  "chunks_of n bs = (if bs = [] \<or> n = 0 then [] else take n bs # chunks_of n (drop n bs))"

declare chunks_of.simps [simp del]

lemma concat_chunks_of: "0 < n \<Longrightarrow> concat (chunks_of n bs) = bs"
  by (induction n bs rule: chunks_of.induct) (subst chunks_of.simps, simp)

definition fs_stream :: "u64 \<Rightarrow> disk_file \<Rightarrow> (fs, anyhow, blob option) comp" where
  "fs_stream len f s =
     (case io (returnE ()) s of
        (Inl _, s') \<Rightarrow> (Inr (Some \<lparr>bl_size = len, bl_stream = [Inl ''read error'']\<rparr>), s')
      | (Inr _, s') \<Rightarrow> (Inr (Some \<lparr>bl_size = len,
          bl_stream = map Inr (chunks_of 4096 (fi_content f))\<rparr>), s'))"

definition fs_get :: "protocol \<Rightarrow> filesystem_store \<Rightarrow> digest \<Rightarrow> (fs, anyhow, blob option) comp" where
  "fs_get P st d =
     bindE (liftE (blob_path P st d)) (\<lambda>path.
     bindE (io (\<lambda>s. (Inr (fs_files s path), s))) (\<lambda>opened.
     case opened of
       None \<Rightarrow> returnE None
     | Some f \<Rightarrow> bindE (io (returnE (of_nat (length (fi_content f))))) (\<lambda>len. fs_stream len f)))"

text \<open>\<open>create_dir_all\<close>, \<open>NamedTempFile::new_in\<close>, \<open>copy\<close>, \<open>try_clone\<close> and \<open>sync_all\<close>: the staged file, under a
  name of its own until it is published. \<open>persist_noclobber\<close> publishes it.\<close>

definition fs_stage :: "bytes \<Rightarrow> (fs, anyhow, disk_file) comp" where
  "fs_stage source =
     bindE (io (returnE ())) (\<lambda>_.
     bindE (io (returnE \<lparr>fi_content = [], fi_synced = False\<rparr>)) (\<lambda>staging.
     bindE (io (returnE (staging\<lparr>fi_content := source\<rparr>))) (\<lambda>staging.
     bindE (io (returnE ())) (\<lambda>_.
     io (returnE (staging\<lparr>fi_synced := True\<rparr>))))))"

definition fs_publish :: "path \<Rightarrow> disk_file \<Rightarrow> (fs, anyhow, put_outcome) comp" where
  "fs_publish destination staging =
     io (\<lambda>s. if destination \<in> dom (fs_files s) then (Inr AlreadyExists, s)
             else (Inr Created, s\<lparr>fs_files := (fs_files s)(destination \<mapsto> staging)\<rparr>))"

definition fs_put :: "protocol \<Rightarrow> filesystem_store \<Rightarrow> digest \<Rightarrow> bytes \<Rightarrow> (fs, anyhow, put_outcome) comp" where
  "fs_put P st d source =
     bindE (liftE (blob_path P st d)) (\<lambda>destination.
     bindE (io (\<lambda>s. (Inr (destination \<in> dom (fs_files s)), s))) (\<lambda>present.
     if present then returnE AlreadyExists
     else bindE (fs_stage source) (fs_publish destination)))"

definition filesystem_blob_store :: "protocol \<Rightarrow> filesystem_store \<Rightarrow> fs blob_store" where
  "filesystem_blob_store P st = \<lparr>bs_get = fs_get P st, bs_put = fs_put P st\<rparr>"

definition fs_held :: "protocol \<Rightarrow> filesystem_store \<Rightarrow> fs \<Rightarrow> digest \<Rightarrow> bytes option" where
  "fs_held P st s d =
     (case blob_path P st d of Inl _ \<Rightarrow> None | Inr p \<Rightarrow> map_option fi_content (fs_files s p))"

text \<open>A crash keeps what was synced; the rest of the data may be lost from some byte on.\<close>

definition crash :: "(path \<Rightarrow> nat) \<Rightarrow> fs \<Rightarrow> fs" where
  "crash kept s = s\<lparr>fs_files := (\<lambda>p. map_option (\<lambda>f. if fi_synced f then f
     else f\<lparr>fi_content := take (kept p) (fi_content f)\<rparr>) (fs_files s p))\<rparr>"

definition files_ok :: "protocol \<Rightarrow> filesystem_store \<Rightarrow> (digest \<Rightarrow> bytes \<Rightarrow> bool) \<Rightarrow> (path \<times> disk_file) \<Rightarrow> bool" where
  "files_ok P st good pf \<longleftrightarrow> fi_synced (snd pf) \<and>
     (\<forall>d. digest_ok P d \<longrightarrow> blob_path P st d = Inr (fst pf) \<longrightarrow> good d (fi_content (snd pf)))"

definition fs_ok :: "protocol \<Rightarrow> filesystem_store \<Rightarrow> (digest \<Rightarrow> bytes \<Rightarrow> bool) \<Rightarrow> fs \<Rightarrow> bool" where
  "fs_ok P st good s \<longleftrightarrow>
     (\<forall>p f. fs_files s p = Some f \<longrightarrow> files_ok P st good (p, f))
     \<and> (\<forall>e \<in> set (fs_events s). \<forall>pf \<in> set (ie_published e). files_ok P st good pf)"

section \<open>The filesystem keeps the contract\<close>

lemma publish_all_Some:
  "publish_all pub files p = Some f \<Longrightarrow> files p = Some f \<or> (p, f) \<in> set pub"
  by (induction pub arbitrary: files) (fastforce simp: publish_all_def add_noclobber_def split: if_splits)+

lemma publish_all_keeps: "files p = Some f \<Longrightarrow> publish_all pub files p = Some f"
proof (induction pub arbitrary: files)
  case (Cons x pub)
  obtain a b where x: "x = (a, b)" by fastforce
  have "add_noclobber a b files p = Some f" using Cons.prems by (auto simp: add_noclobber_def)
  with Cons.IH [where files = "add_noclobber a b files"] show ?case by (simp add: publish_all_def x)
qed (simp add: publish_all_def)

lemma blob_path_ok:
  assumes "protocol_ok P" and "digest_ok P d"
  obtains a where "algorithm_kind P d = Inr a" and "d_algorithm d = algorithm_name P a"
    and "blob_path P st d = Inr (fss_root st @ [''blobs'', d_algorithm d, take 2 (d_hash d), d_hash d,
       nat_to_string (unat (d_size d))])"
proof -
  obtain a where a: "algorithm_kind P d = Inr a" using assms by (rule digest_ok_algorithm)
  moreover from a have "d_algorithm d = algorithm_name P a" using assms(1) by (simp add: algorithm_kind_iff)
  ultimately show thesis using assms(2) by (intro that [of a]) (simp_all add: blob_path_def)
qed

lemma blob_path_digest_ok: "blob_path P st d = Inr p \<Longrightarrow> digest_ok P d"
  by (auto simp: blob_path_def result_simps)

lemma blob_path_inj:
  assumes "protocol_ok P" and "blob_path P st d = Inr p" and "blob_path P st e = Inr p"
  shows "d = e"
proof -
  note d = blob_path_digest_ok [OF assms(2)] and e = blob_path_digest_ok [OF assms(3)]
  obtain a where "blob_path P st d = Inr (fss_root st @ [''blobs'', d_algorithm d, take 2 (d_hash d),
      d_hash d, nat_to_string (unat (d_size d))])"
    using assms(1) d by (rule blob_path_ok)
  moreover obtain b where "blob_path P st e = Inr (fss_root st @ [''blobs'', d_algorithm e,
      take 2 (d_hash e), d_hash e, nat_to_string (unat (d_size e))])"
    using assms(1) e by (rule blob_path_ok)
  ultimately have "d_algorithm d = d_algorithm e \<and> d_hash d = d_hash e \<and> d_size d = d_size e"
    using assms(2,3) by (simp add: word_unat_eq_iff)
  then show "d = e" by (cases d; cases e) simp
qed

text \<open>Every step of the store only adds files, and only good ones.\<close>

definition fs_step :: "protocol \<Rightarrow> filesystem_store \<Rightarrow> (digest \<Rightarrow> bytes \<Rightarrow> bool) \<Rightarrow> fs \<Rightarrow> fs \<Rightarrow> bool" where
  "fs_step P st good s t \<longleftrightarrow>
     (fs_ok P st good s \<longrightarrow> fs_ok P st good t) \<and> fs_files s \<subseteq>\<^sub>m fs_files t"

lemma fs_step_preorder [simp]: "preorder_rel (fs_step P st good)"
  by (rule preorder_relI) (auto simp: fs_step_def intro: map_le_trans)

lemma fs_step_event:
  assumes "fs_events s = e # es"
  shows "fs_step P st good s (s\<lparr>fs_files := publish_all (ie_published e) (fs_files s), fs_events := es\<rparr>)"
  using assms publish_all_Some [of "ie_published e" "fs_files s"] publish_all_keeps [of "fs_files s"]
  by (fastforce simp: fs_step_def fs_ok_def map_le_def)

lemma moves_io [keeps_intros]:
  assumes "moves (fs_step P st good) op"
  shows "moves (fs_step P st good) (io op)"
  unfolding moves_def
proof
  fix s
  show "fs_step P st good s (snd (io op s))"
  proof (cases "fs_events s")
    case Nil
    with assms show ?thesis by (simp add: io_def moves_def)
  next
    case (Cons e es)
    note ev = fs_step_event [OF Cons, of P st good]
    from ev assms show ?thesis
      by (cases "ie_fault e")
        (auto simp: io_def Cons Let_def moves_def intro: preorder_rel_trans [OF fs_step_preorder])
  qed
qed

lemma io_return: "fst (io (returnE v) s) = Inr x \<Longrightarrow> x = v"
  by (auto simp: io_def Let_def split: list.splits option.splits)

lemma io_value: "io (returnE v) s = (Inr x, t) \<Longrightarrow> x = v"
  using io_return [of v s x] by simp

lemma moves_bind_value:
  assumes R: "preorder_rel R" and m: "moves R m" and v: "\<And>s x t. m s = (Inr x, t) \<Longrightarrow> x = v"
    and f: "moves R (f v)"
  shows "moves R (bindE m f)"
  unfolding moves_def
proof
  fix s
  obtain r t where r: "m s = (r, t)" by fastforce
  note st = moves_step [OF m r]
  show "R s (snd (bindE m f s))"
  proof (cases r)
    case (Inl e)
    with r st show ?thesis by simp
  next
    case (Inr x)
    with r v have "bindE m f s = f v t" by auto
    with f st show ?thesis by (auto simp: moves_def intro: preorder_rel_trans [OF R])
  qed
qed

lemma moves_io_return [keeps_intros]:
  "moves (fs_step P st good) (f v) \<Longrightarrow> moves (fs_step P st good) (bindE (io (returnE v)) f)"
  by (rule moves_bind_value [OF fs_step_preorder moves_io [OF moves_return [OF fs_step_preorder]] io_value])

lemma fs_stage_moves: "moves (fs_step P st good) (fs_stage src)"
  unfolding fs_stage_def by (rule moves_io_return)+ (rule moves_io [OF moves_return [OF fs_step_preorder]])

lemma fs_stage_result: "fs_stage src s = (Inr f, t) \<Longrightarrow> f = \<lparr>fi_content = src, fi_synced = True\<rparr>"
  by (auto simp: fs_stage_def bindE_eq_Inr dest!: io_value)

lemma moves_read_state [keeps_intros]: "preorder_rel R \<Longrightarrow> moves R (\<lambda>s. (f s, s))"
  by (simp add: moves_def preorder_rel_refl)

lemma fs_stream_moves [keeps_intros]: "moves (fs_step P st good) (fs_stream len f)"
  unfolding moves_def
proof
  fix s
  have io: "moves (fs_step P st good) (io (returnE ()))"
    by (intro moves_io moves_return fs_step_preorder)
  obtain r t where r: "io (returnE ()) s = (r, t)" by fastforce
  have "snd (fs_stream len f s) = t" unfolding fs_stream_def r by (cases r) simp_all
  with moves_step [OF io r] show "fs_step P st good s (snd (fs_stream len f s))" by metis
qed

lemma fs_get_moves: "moves (fs_step P st good) (fs_get P st d)"
  unfolding fs_get_def
  apply (rule moves_bind [OF fs_step_preorder moves_lift [OF fs_step_preorder]])
  apply (rule moves_bind [OF fs_step_preorder moves_io [OF moves_read_state [OF fs_step_preorder]]])
  apply (rule moves_case_option [OF moves_return [OF fs_step_preorder]])
  apply (rule moves_io_return [OF fs_stream_moves])
  done

lemma fs_publish_moves:
  assumes "protocol_ok P" and "blob_path P st d = Inr p" and "good d (fi_content f)" and "fi_synced f"
  shows "moves (fs_step P st good) (fs_publish p f)"
proof -
  have "files_ok P st good (p, f)"
    unfolding files_ok_def
  proof (intro conjI allI impI)
    fix e assume "blob_path P st e = Inr (fst (p, f))"
    then have "e = d" using blob_path_inj [OF assms(1) _ assms(2)] by simp
    with assms(3) show "good e (fi_content (snd (p, f)))" by simp
  qed (simp add: assms(4))
  then have "moves (fs_step P st good) (\<lambda>s. if p \<in> dom (fs_files s) then (Inr AlreadyExists, s)
      else (Inr Created, s\<lparr>fs_files := (fs_files s)(p \<mapsto> f)\<rparr>))"
    unfolding moves_def by (auto simp: fs_step_def fs_ok_def map_le_def)
  then show ?thesis unfolding fs_publish_def by (rule moves_io)
qed

lemma fs_put_moves:
  assumes "protocol_ok P" and "digest_ok P d \<Longrightarrow> good d src"
  shows "moves (fs_step P st good) (fs_put P st d src)"
proof (cases "blob_path P st d")
  case (Inl e)
  then show ?thesis unfolding fs_put_def
    by (simp add: moves_def bindE_def preorder_rel_refl)
next
  case (Inr p)
  have g: "good d src" using assms(2) blob_path_digest_ok [OF Inr] by blast
  have lift: "bindE (liftE (Inr p)) f = f p" for f :: "path \<Rightarrow> (fs, anyhow, put_outcome) comp"
    by (simp add: bindE_def fun_eq_iff)
  have pub: "moves (fs_step P st good) (bindE (fs_stage src) (fs_publish p))"
  proof (rule moves_bind_value [OF fs_step_preorder fs_stage_moves])
    show "moves (fs_step P st good) (fs_publish p \<lparr>fi_content = src, fi_synced = True\<rparr>)"
      by (rule fs_publish_moves [OF assms(1) Inr]) (simp_all add: g)
  qed (rule fs_stage_result)
  show ?thesis
    unfolding fs_put_def Inr lift
    by (rule moves_bind [OF fs_step_preorder moves_io [OF moves_read_state [OF fs_step_preorder]]])
      (rule moves_if [OF moves_return [OF fs_step_preorder] pub])
qed

lemma fs_held_mono: "fs_files s \<subseteq>\<^sub>m fs_files t \<Longrightarrow> fs_held P st s d = Some c \<Longrightarrow> fs_held P st t d = Some c"
  by (cases "blob_path P st d") (auto simp: fs_held_def map_le_def dom_def)

lemma fs_held_good:
  assumes "fs_ok P st good s" and "digest_ok P d" and "fs_held P st s d = Some c"
  shows "good d c"
proof -
  from assms(3) obtain p f where "blob_path P st d = Inr p" "fs_files s p = Some f" "c = fi_content f"
    by (cases "blob_path P st d") (auto simp: fs_held_def)
  with assms(1,2) show ?thesis by (auto simp: fs_ok_def files_ok_def)
qed

lemma io_run:
  assumes "io op s = (r, t)"
  obtains (fault) m where "r = Inl (OtherError m)" | (ran) u where "op u = (r, t)" "fs_files s \<subseteq>\<^sub>m fs_files u"
proof (cases "fs_events s")
  case Nil
  with assms ran [of s] show thesis by (simp add: io_def)
next
  case (Cons e es)
  define u where "u = s\<lparr>fs_files := publish_all (ie_published e) (fs_files s), fs_events := es\<rparr>"
  have le: "fs_files s \<subseteq>\<^sub>m fs_files u"
    using publish_all_keeps [of "fs_files s"] by (fastforce simp: u_def map_le_def)
  have "r = Inl (OtherError m)" if "ie_fault e = Some m" for m
    using assms that by (simp add: io_def Cons Let_def)
  moreover have "op u = (r, t)" if "ie_fault e = None"
    using assms that by (simp add: io_def Cons Let_def u_def)
  ultimately show thesis using fault ran [OF _ le] by (cases "ie_fault e") auto
qed

lemma fs_get_result:
  assumes "fs_get P st d s = (Inr r, t)"
  obtains p and u :: fs where "blob_path P st d = Inr p" "fs_files s \<subseteq>\<^sub>m fs_files u" "fs_files u \<subseteq>\<^sub>m fs_files t"
    "case r of None \<Rightarrow> fs_files u p = None
     | Some b \<Rightarrow> \<exists>f. fs_files u p = Some f \<and> bl_size b = of_nat (length (fi_content f))
         \<and> (bl_stream b = [Inl ''read error''] \<or> bl_stream b = map Inr (chunks_of 4096 (fi_content f)))"
proof -
  from assms obtain p v opened where p: "blob_path P st d = Inr p"
    and o: "io (\<lambda>s. (Inr (fs_files s p), s)) s = (Inr opened, v)"
    and rest: "(case opened of None \<Rightarrow> returnE None
      | Some f \<Rightarrow> bindE (io (returnE (of_nat (length (fi_content f))))) (\<lambda>len. fs_stream len f)) v = (Inr r, t)"
    by (auto simp: fs_get_def result_simps)
  from o obtain u where u: "opened = fs_files u p" "v = u" "fs_files s \<subseteq>\<^sub>m fs_files u"
    by (cases rule: io_run) auto
  show thesis
  proof (cases opened)
    case None
    with rest u p that [of p u] show thesis by simp
  next
    case (Some f)
    from rest obtain len w where l: "io (returnE (of_nat (length (fi_content f)))) v = (Inr len, w)"
      and str: "fs_stream len f w = (Inr r, t)" by (auto simp: Some result_simps)
    have len: "len = of_nat (length (fi_content f))" using io_return l by (metis fst_conv)
    have st: "fs_step P st (\<lambda>_ _. True) v w" "fs_step P st (\<lambda>_ _. True) w t"
      using moves_step [OF moves_io [OF moves_return [OF fs_step_preorder]] l]
        moves_step [OF fs_stream_moves str] by blast+
    then have "fs_files v \<subseteq>\<^sub>m fs_files t" by (auto simp: fs_step_def intro: map_le_trans)
    moreover have "\<exists>b. r = Some b \<and> bl_size b = len
        \<and> (bl_stream b = [Inl ''read error''] \<or> bl_stream b = map Inr (chunks_of 4096 (fi_content f)))"
      using str by (auto simp: fs_stream_def split: prod.splits sum.splits)
    moreover have fu: "fs_files u p = Some f" using u(1) Some by simp
    ultimately show thesis using that [OF p u(3)] u(2) len by (auto simp: fu)
  qed
qed

lemma fs_put_result:
  assumes "fs_put P st d src s = (Inr out, t)"
  obtains p where "blob_path P st d = Inr p" and "p \<in> dom (fs_files t)"
    and "out = Created \<Longrightarrow> fs_files s p = None \<and> fs_files t p = Some \<lparr>fi_content = src, fi_synced = True\<rparr>"
proof -
  from assms obtain p v present where p: "blob_path P st d = Inr p"
    and o: "io (\<lambda>s. (Inr (p \<in> dom (fs_files s)), s)) s = (Inr present, v)"
    and rest: "(if present then returnE AlreadyExists else bindE (fs_stage src) (fs_publish p)) v = (Inr out, t)"
    by (auto simp: fs_put_def result_simps)
  from o have present: "present \<longleftrightarrow> p \<in> dom (fs_files v)" and sv: "fs_files s \<subseteq>\<^sub>m fs_files v"
    by (cases rule: io_run; auto)+
  show thesis
  proof (cases present)
    case True
    with rest present p that [of p] show thesis by simp
  next
    case False
    let ?f = "\<lparr>fi_content = src, fi_synced = True\<rparr>"
    from rest False obtain f w where stage: "fs_stage src v = (Inr f, w)"
      and "fs_publish p f w = (Inr out, t)" by (auto simp: result_simps)
    with fs_stage_result [OF stage] have pub: "io (\<lambda>s. if p \<in> dom (fs_files s) then (Inr AlreadyExists, s)
        else (Inr Created, s\<lparr>fs_files := (fs_files s)(p \<mapsto> ?f)\<rparr>)) w = (Inr out, t)"
      by (simp add: fs_publish_def)
    have "fs_files v \<subseteq>\<^sub>m fs_files w" using moves_step [OF fs_stage_moves stage] by (simp add: fs_step_def)
    with sv have sw: "fs_files s \<subseteq>\<^sub>m fs_files w" by (rule map_le_trans)
    have "p \<in> dom (fs_files t) \<and> (out = Created \<longrightarrow> fs_files s p = None \<and> fs_files t p = Some ?f)"
      using pub
    proof (cases rule: io_run)
      case (ran u)
      from sw ran(2) have su: "fs_files s \<subseteq>\<^sub>m fs_files u" by (rule map_le_trans)
      show ?thesis
      proof (cases "p \<in> dom (fs_files u)")
        case True
        with ran(1) show ?thesis by auto
      next
        case False
        with su have "fs_files s p = None" by (auto simp: map_le_def dom_def)
        with False ran(1) show ?thesis by auto
      qed
    qed simp
    with that [OF p] show thesis by simp
  qed
qed


lemma fs_step_files: "moves (fs_step P st good) m \<Longrightarrow> m s = (r, t) \<Longrightarrow> fs_files s \<subseteq>\<^sub>m fs_files t"
  by (drule (1) moves_step) (simp add: fs_step_def)

lemma fs_step_ok: "moves (fs_step P st good) m \<Longrightarrow> fs_ok P st good s \<Longrightarrow> fs_ok P st good (snd (m s))"
  by (simp add: moves_def fs_step_def)

lemma filesystem_contract:
  assumes P: "protocol_ok P"
  shows "blob_storage (fs_get P st) (fs_put P st) (fs_ok P st good) (fs_held P st) (digest_ok P) good"
proof
  fix s d assume "fs_ok P st good s"
  then show "fs_ok P st good (snd (fs_get P st d s))" by (rule fs_step_ok [OF fs_get_moves])
next
  fix s d src assume "fs_ok P st good s" "digest_ok P d" "good d src"
  then show "fs_ok P st good (snd (fs_put P st d src s))" by (intro fs_step_ok [OF fs_put_moves [OF P]])
next
  fix s d c assume "fs_ok P st good s" "digest_ok P d" "fs_held P st s d = Some c"
  then show "good d c" by (rule fs_held_good)
next
  fix s d b t assume "fs_get P st d s = (Inr (Some b), t)"
  then obtain p and u :: fs where p0: "blob_path P st d = Inr p" "fs_files u \<subseteq>\<^sub>m fs_files t"
    and c: "case Some b of None \<Rightarrow> fs_files u p = None
      | Some b \<Rightarrow> \<exists>f. fs_files u p = Some f \<and> bl_size b = of_nat (length (fi_content f))
          \<and> (bl_stream b = [Inl ''read error''] \<or> bl_stream b = map Inr (chunks_of 4096 (fi_content f)))"
    by (rule fs_get_result)
  from c obtain f where f: "fs_files u p = Some f" and b: "bl_size b = of_nat (length (fi_content f))"
      "bl_stream b = [Inl ''read error''] \<or> bl_stream b = map Inr (chunks_of 4096 (fi_content f))"
    by auto
  note p = p0(1) f p0(2)
  have "fs_files t p = Some f" using p(2,3) by (auto simp: map_le_def dom_def)
  with p(1) have "fs_held P st t d = Some (fi_content f)" by (simp add: fs_held_def)
  with b show "\<exists>c. fs_held P st t d = Some c \<and> bl_size b = of_nat (length c) \<and> prefix (delivered (bl_stream b)) c
        \<and> (completes (bl_stream b) \<longrightarrow> delivered (bl_stream b) = c)"
    by (auto simp: delivered_all concat_chunks_of)
next
  fix s d t assume "fs_get P st d s = (Inr None, t)"
  then obtain p and u :: fs where "blob_path P st d = Inr p" "fs_files u p = None" "fs_files s \<subseteq>\<^sub>m fs_files u"
    by (rule fs_get_result) auto
  then show "fs_held P st s d = None" by (auto simp: fs_held_def map_le_def dom_def)
next
  fix s d src t assume "fs_put P st d src s = (Inr Created, t)"
  then show "fs_held P st s d = None \<and> fs_held P st t d = Some src"
    by (rule fs_put_result) (auto simp: fs_held_def)
next
  fix s d src t assume "fs_put P st d src s = (Inr AlreadyExists, t)"
  then show "fs_held P st t d \<noteq> None"
    by (rule fs_put_result) (auto simp: fs_held_def)
next
  fix s d e c assume "fs_held P st s e = Some c"
  then show "fs_held P st (snd (fs_get P st d s)) e = Some c"
    using fs_step_files [OF fs_get_moves, of P st d s] by (metis fs_held_mono prod.collapse)
next
  fix s d src e c assume "fs_held P st s e = Some c"
  moreover have "fs_files s \<subseteq>\<^sub>m fs_files (snd (fs_put P st d src s))"
    using fs_step_files [OF fs_put_moves [OF P, where good = "\<lambda>_ _. True" and d = d and src = src and st = st]]
    by (metis prod.collapse)
  ultimately show "fs_held P st (snd (fs_put P st d src s)) e = Some c" by (metis fs_held_mono)
qed

interpretation filesystem: blob_storage "fs_get reference_protocol st" "fs_put reference_protocol st"
    "fs_ok reference_protocol st good" "fs_held reference_protocol st" "digest_ok reference_protocol" good
  for st good
  by (rule filesystem_contract [OF reference_protocol_ok])

lemma crash_ok: "fs_ok P st good s \<Longrightarrow> fs_files (crash kept s) = fs_files s"
  by (rule ext) (auto simp: crash_def fs_ok_def files_ok_def map_option_case split: option.split)


section \<open>Properties of the filesystem store\<close>

text \<open>
  C20. An upload can be read back: after a put that reported success, whatever other uploads publish
  and whichever system calls fail in between, a get of the digest that does not fail finds a blob,
  and what its stream delivers, if it completes, is a content that belongs under the digest.
\<close>

theorem filesystem_put_then_get:
  assumes "protocol_ok P" and "fs_ok P st good s" and "digest_ok P d" and "good d src"
    and "fs_put P st d src s = (Inr out, t)" and "fs_get P st d t = (Inr r, u)"
  shows "\<exists>b. r = Some b \<and> (completes (bl_stream b) \<longrightarrow> good d (delivered (bl_stream b)))"
  by (rule blob_storage.put_then_get [OF filesystem_contract [OF assms(1)] assms(2-6)])

definition sample_blake :: digest where
  "sample_blake = \<lparr>d_algorithm = ''blake3'', d_hash = sample_hash, d_size = 2\<rparr>"

lemma sample_size: "nat_to_string 2 = ''2''"
  by (subst nat_to_string.simps) (simp add: digit_char_def char_of_def bit_iff_odd)

lemma sample_blob_path:
  "blob_path reference_protocol \<lparr>fss_root = []\<rparr> sample_blake
    = Inr [''blobs'', ''blake3'', take 2 sample_hash, sample_hash, ''2'']"
proof -
  obtain a where "blob_path reference_protocol \<lparr>fss_root = []\<rparr> sample_blake
      = Inr (fss_root \<lparr>fss_root = []\<rparr> @ [''blobs'', d_algorithm sample_blake, take 2 (d_hash sample_blake),
          d_hash sample_blake, nat_to_string (unat (d_size sample_blake))])"
    unfolding sample_blake_def by (rule blob_path_ok [OF reference_protocol_ok sample_hash_ok])
  then show ?thesis by (simp add: sample_blake_def sample_size)
qed

lemma sample_blake_ok: "digest_ok reference_protocol sample_blake"
  by (simp add: sample_blake_def sample_hash_ok)

definition quiet :: fs where
  "quiet = \<lparr>fs_files = Map.empty, fs_events = []\<rparr>"

lemma quiet_ok: "fs_ok P st good quiet"
  by (simp add: fs_ok_def quiet_def)

definition stored :: fs where
  "stored = quiet\<lparr>fs_files := [[''blobs'', ''blake3'', take 2 sample_hash, sample_hash, ''2''] \<mapsto>
      \<lparr>fi_content = [7, 8], fi_synced = True\<rparr>]\<rparr>"

lemma quiet_put: "fs_put reference_protocol \<lparr>fss_root = []\<rparr> sample_blake [7, 8] quiet = (Inr Created, stored)"
  by (simp add: fs_put_def sample_blob_path io_def quiet_def stored_def fs_stage_def fs_publish_def bindE_def)

lemma stored_get: "fs_get reference_protocol \<lparr>fss_root = []\<rparr> sample_blake stored =
    (Inr (Some \<lparr>bl_size = 2, bl_stream = map Inr (chunks_of 4096 [7, 8])\<rparr>), stored)"
  by (simp add: fs_get_def sample_blob_path io_def quiet_def stored_def fs_stream_def bindE_def)

theorem filesystem_put_then_get_witness:
  "\<exists>b. Some \<lparr>bl_size = 2, bl_stream = map Inr (chunks_of 4096 [7, 8])\<rparr> = Some b
    \<and> delivered (bl_stream b) = [7, 8]"
  using filesystem_put_then_get [where good = "\<lambda>d c. c = [7, 8]", OF reference_protocol_ok quiet_ok
      sample_blake_ok _ quiet_put stored_get]
  by (simp add: delivered_all)



end
