(* ===== verification/Object_Stores.thy ===== *)
theory Object_Stores
  imports Storage
begin

text \<open>
  The object-storage backends: \<open>src/storage/s3.rs\<close>, \<open>azure.rs\<close> and \<open>gcs.rs\<close>. The services and their
  client crates are third-party: their operations are the records \<open>s3_service\<close> and
  \<open>object_service\<close>, and what the backends rely on is stated as \<open>s3_conforms\<close> and
  \<open>objects_conform\<close>: create-only writes, reads of what was written, and nothing else touching the
  keys of blobs. Under it the backends keep the contract of \<open>blob_storage\<close>; of Azure, whose copies
  may still be pending when they return, it is shown that a put waits for the data.
\<close>

section \<open>S3\<close>

record s3_error =
  s3e_code :: "string option"
  s3e_no_such_key :: bool
  s3e_http_status :: "nat option"
  s3e_message :: string

record s3_object =
  s3o_content_length :: "int option"
  s3o_body :: "(string + bytes) list"

record 'o s3_service =
  s3_get_object :: "string \<Rightarrow> string \<Rightarrow> ('o, s3_error, s3_object) comp"
  s3_put_if_none_match :: "string \<Rightarrow> string \<Rightarrow> bytes \<Rightarrow> ('o, s3_error, unit) comp"
  s3_read_source :: "bytes \<Rightarrow> ('o, string, bytes) comp"

record s3_store =
  s3_bucket :: string
  s3_prefix :: string

definition s3_store_new :: "string option \<Rightarrow> string \<Rightarrow> string + s3_store" where
  "s3_store_new bucket pre =
     bind_r (ok_or ''--s3-bucket is required with S3 storage'' bucket) (\<lambda>b.
       Inr \<lparr>s3_bucket = b, s3_prefix = trim_matches (CHR ''/'') pre\<rparr>)"

definition blob_key :: "protocol \<Rightarrow> string \<Rightarrow> digest \<Rightarrow> string" where
  "blob_key P pre d = pre @ ''/blobs/'' @ digest_key P d"

definition s3_get :: "'o s3_service \<Rightarrow> protocol \<Rightarrow> s3_store \<Rightarrow> digest \<Rightarrow> ('o, anyhow, blob option) comp" where
  "s3_get svc P st d = (\<lambda>s.
     case s3_get_object svc (s3_bucket st) (blob_key P (s3_prefix st) d) s of
       (Inl e, t) \<Rightarrow>
         (if s3e_code e = Some ''NoSuchBucket'' then Inl (OtherError (s3e_message e))
          else if s3e_no_such_key e \<or> s3e_http_status e = Some 404 then Inr None
          else Inl (OtherError (s3e_message e)), t)
     | (Inr out, t) \<Rightarrow>
         (case (case s3o_content_length out of None \<Rightarrow> None
                | Some n \<Rightarrow> if 0 \<le> n then Some (of_int n :: u64) else None) of
            None \<Rightarrow> Inl (OtherError ''S3 object response is missing content length'')
          | Some len \<Rightarrow> Inr (Some \<lparr>bl_size = len, bl_stream = s3o_body out\<rparr>), t))"

definition s3_put :: "'o s3_service \<Rightarrow> protocol \<Rightarrow> s3_store \<Rightarrow> digest \<Rightarrow> bytes \<Rightarrow> ('o, anyhow, put_outcome) comp" where
  "s3_put svc P st d source =
     handleE (s3_read_source svc source) (\<lambda>e. throwE (OtherError e)) (\<lambda>body.
     handleE (s3_put_if_none_match svc (s3_bucket st) (blob_key P (s3_prefix st) d) body)
       (\<lambda>e. if s3e_http_status e = Some 412 then returnE AlreadyExists
            else throwE (OtherError (s3e_message e)))
       (\<lambda>_. returnE Created))"

section \<open>Azure and Google Cloud Storage\<close>

datatype object_error = NotFound | ObjectAlreadyExists | PreconditionFailed | ObjectError string

record 'o object_service =
  os_get :: "string \<Rightarrow> ('o, object_error, u64 \<times> (string + bytes) list) comp"
  os_get_range :: "string \<Rightarrow> u64 \<Rightarrow> u64 \<Rightarrow> ('o, object_error, bytes) comp"
  os_put_create :: "string \<Rightarrow> bytes \<Rightarrow> ('o, object_error, unit) comp"
  os_copy_create :: "string \<Rightarrow> string \<Rightarrow> ('o, object_error, unit) comp"
  os_delete :: "string \<Rightarrow> ('o, object_error, unit) comp"
  os_read_source :: "bytes \<Rightarrow> ('o, string, bytes) comp"
  os_write :: "string \<Rightarrow> bytes \<Rightarrow> ('o, string, unit) comp"
  os_abort :: "string \<Rightarrow> ('o, string, unit) comp"
  os_shutdown :: "string \<Rightarrow> ('o, string, unit) comp"
  os_uuid :: "('o, string, string) comp"
  os_sleep :: "('o, string, unit) comp"

definition ignore_result :: "('o, 'e, 'a) comp \<Rightarrow> ('o, 'f, unit) comp" where
  "ignore_result m = handleE m (\<lambda>_. returnE ()) (\<lambda>_. returnE ())"

definition object_message :: "object_error \<Rightarrow> string" where
  "object_message e =
     (case e of NotFound \<Rightarrow> ''not found'' | ObjectAlreadyExists \<Rightarrow> ''already exists''
      | PreconditionFailed \<Rightarrow> ''precondition failed'' | ObjectError m \<Rightarrow> m)"

text \<open>The \<open>get\<close> the two backends share.\<close>

definition object_get :: "'o object_service \<Rightarrow> protocol \<Rightarrow> string \<Rightarrow> digest \<Rightarrow> ('o, anyhow, blob option) comp" where
  "object_get svc P pre d =
     handleE (os_get svc (blob_key P pre d))
       (\<lambda>e. if e = NotFound then returnE None else throwE (OtherError (object_message e)))
       (\<lambda>(sz, stream). returnE (Some \<lparr>bl_size = sz, bl_stream = stream\<rparr>))"

definition create_outcome :: "object_error + unit \<Rightarrow> anyhow + put_outcome" where
  "create_outcome r =
     (case r of
        Inr _ \<Rightarrow> Inr Created
      | Inl ObjectAlreadyExists \<Rightarrow> Inr AlreadyExists
      | Inl PreconditionFailed \<Rightarrow> Inr AlreadyExists
      | Inl e \<Rightarrow> Inl (OtherError (object_message e)))"

text \<open>Opening the source, \<open>tokio::io::copy\<close> into a \<open>BufWriter\<close> and \<open>shutdown\<close>, with their clean-up.\<close>

definition stage_upload :: "'o object_service \<Rightarrow> string \<Rightarrow> bytes \<Rightarrow> ('o, anyhow, unit) comp" where
  "stage_upload svc upload_key source =
     handleE (os_read_source svc source) (\<lambda>e. throwE (OtherError e)) (\<lambda>content.
     handleE (os_write svc upload_key content)
       (\<lambda>e. bindE (ignore_result (os_abort svc upload_key)) (\<lambda>_. throwE (OtherError e))) (\<lambda>_.
     handleE (os_shutdown svc upload_key)
       (\<lambda>e. bindE (ignore_result (os_delete svc upload_key)) (\<lambda>_. throwE (OtherError e))) returnE))"

definition new_upload_key :: "'o object_service \<Rightarrow> string \<Rightarrow> ('o, anyhow, string) comp" where
  "new_upload_key svc pre =
     handleE (os_uuid svc) (\<lambda>e. throwE (OtherError e)) (\<lambda>u. returnE (pre @ ''/uploads/'' @ u))"

definition single_request_bytes :: u64 where "single_request_bytes = 10 * 1024 * 1024"

definition fits_one_request :: "u64 \<Rightarrow> bool" where
  "fits_one_request sz \<longleftrightarrow> sz \<le> single_request_bytes"

record gcs_store =
  gcs_prefix :: string

record azure_store =
  azure_prefix :: string

definition gcs_from_store :: "string \<Rightarrow> gcs_store" where
  "gcs_from_store pre = \<lparr>gcs_prefix = trim_matches (CHR ''/'') pre\<rparr>"

definition azure_from_store :: "string \<Rightarrow> azure_store" where
  "azure_from_store pre = \<lparr>azure_prefix = trim_matches (CHR ''/'') pre\<rparr>"

definition gcs_get :: "'o object_service \<Rightarrow> protocol \<Rightarrow> gcs_store \<Rightarrow> digest \<Rightarrow> ('o, anyhow, blob option) comp" where
  "gcs_get svc P st = object_get svc P (gcs_prefix st)"

definition gcs_put :: "'o object_service \<Rightarrow> protocol \<Rightarrow> gcs_store \<Rightarrow> digest \<Rightarrow> bytes \<Rightarrow> ('o, anyhow, put_outcome) comp" where
  "gcs_put svc P st d source =
     (let destination_key = blob_key P (gcs_prefix st) d in
      if fits_one_request (d_size d)
      then handleE (os_read_source svc source) (\<lambda>e. throwE (OtherError e)) (\<lambda>content.
           (\<lambda>s. case os_put_create svc destination_key content s of (r, t) \<Rightarrow> (create_outcome r, t)))
      else
        bindE (new_upload_key svc (gcs_prefix st)) (\<lambda>upload_key.
        bindE (stage_upload svc upload_key source) (\<lambda>_.
        (\<lambda>s. case os_copy_create svc upload_key destination_key s of
             (r, t) \<Rightarrow> bindE (ignore_result (os_delete svc upload_key)) (\<lambda>_. liftE (create_outcome r)) t))))"

definition azure_get :: "'o object_service \<Rightarrow> protocol \<Rightarrow> azure_store \<Rightarrow> digest \<Rightarrow> ('o, anyhow, blob option) comp" where
  "azure_get svc P st = object_get svc P (azure_prefix st)"

fun read_attempts :: "'o object_service \<Rightarrow> string \<Rightarrow> u64 \<Rightarrow> nat \<Rightarrow> ('o, anyhow, unit) comp" where
  "read_attempts svc key sz 0 = throwE (OtherError ''Azure blob did not become readable after copy'')"
| "read_attempts svc key sz (Suc k) =
     handleE (os_get_range svc key (sz - 1) sz)
       (\<lambda>_. bindE (ignore_result (os_sleep svc)) (\<lambda>_. read_attempts svc key sz k)) (\<lambda>_. returnE ())"

definition wait_until_readable :: "'o object_service \<Rightarrow> string \<Rightarrow> u64 \<Rightarrow> ('o, anyhow, unit) comp" where
  "wait_until_readable svc key sz = read_attempts svc key sz 120"

definition azure_put :: "'o object_service \<Rightarrow> protocol \<Rightarrow> azure_store \<Rightarrow> digest \<Rightarrow> bytes \<Rightarrow> ('o, anyhow, put_outcome) comp" where
  "azure_put svc P st d source =
     (let destination_key = blob_key P (azure_prefix st) d in
      if d_size d = 0
      then (\<lambda>s. case os_put_create svc destination_key [] s of (r, t) \<Rightarrow> (create_outcome r, t))
      else
        bindE (new_upload_key svc (azure_prefix st)) (\<lambda>upload_key.
        bindE (stage_upload svc upload_key source) (\<lambda>_.
        handleE (os_copy_create svc upload_key destination_key)
          (\<lambda>e. bindE (ignore_result (os_delete svc upload_key)) (\<lambda>_.
             if e = ObjectAlreadyExists \<or> e = PreconditionFailed
             then bindE (wait_until_readable svc destination_key (d_size d)) (\<lambda>_. returnE AlreadyExists)
             else throwE (OtherError (object_message e))))
          (\<lambda>_. bindE (wait_until_readable svc destination_key (d_size d)) (\<lambda>_. returnE Created)))))"

definition s3_blob_store :: "'o s3_service \<Rightarrow> protocol \<Rightarrow> s3_store \<Rightarrow> 'o blob_store" where
  "s3_blob_store svc P st = \<lparr>bs_get = s3_get svc P st, bs_put = s3_put svc P st\<rparr>"

definition gcs_blob_store :: "'o object_service \<Rightarrow> protocol \<Rightarrow> gcs_store \<Rightarrow> 'o blob_store" where
  "gcs_blob_store svc P st = \<lparr>bs_get = gcs_get svc P st, bs_put = gcs_put svc P st\<rparr>"

definition azure_blob_store :: "'o object_service \<Rightarrow> protocol \<Rightarrow> azure_store \<Rightarrow> 'o blob_store" where
  "azure_blob_store svc P st = \<lparr>bs_get = azure_get svc P st, bs_put = azure_put svc P st\<rparr>"

section \<open>What the services promise\<close>

text \<open>
  \<open>objects s k\<close> is the content under key \<open>k\<close> once every pending copy has finished, \<open>settled s k\<close> that
  it can be read now. A computation \<open>writes\<close> the keys in \<open>K\<close> when it leaves the objects under all
  others alone.
\<close>

definition leaves :: "('o \<Rightarrow> string \<Rightarrow> bytes option) \<Rightarrow> ('o \<Rightarrow> string \<Rightarrow> bool) \<Rightarrow> string set
    \<Rightarrow> ('o, 'e, 'a) comp \<Rightarrow> bool" where
  "leaves objects settled K m \<longleftrightarrow>
     (\<forall>s k. k \<notin> K \<longrightarrow> objects (snd (m s)) k = objects s k \<and> (settled s k \<longrightarrow> settled (snd (m s)) k))"

definition objects_conform :: "'o object_service \<Rightarrow> ('o \<Rightarrow> string \<Rightarrow> bytes option)
    \<Rightarrow> ('o \<Rightarrow> string \<Rightarrow> bool) \<Rightarrow> bool" where
  "objects_conform svc objects settled \<longleftrightarrow>
     (\<forall>k a b c. leaves objects settled {} (os_get svc k) \<and> leaves objects settled {} (os_get_range svc k a b)
        \<and> leaves objects settled {} (os_read_source svc c) \<and> leaves objects settled {} (os_uuid svc)
        \<and> leaves objects settled {} (os_sleep svc) \<and> leaves objects settled {k} (os_put_create svc k c)
        \<and> (\<forall>j. leaves objects settled {k} (os_copy_create svc j k)) \<and> leaves objects settled {k} (os_delete svc k)
        \<and> leaves objects settled {k} (os_write svc k c) \<and> leaves objects settled {k} (os_abort svc k)
        \<and> leaves objects settled {k} (os_shutdown svc k))
     \<and> (\<forall>k s sz stream t. os_get svc k s = (Inr (sz, stream), t) \<longrightarrow> settled s k \<longrightarrow>
          (\<exists>c. objects s k = Some c \<and> sz = of_nat (length c) \<and> prefix (delivered stream) c
             \<and> (completes stream \<longrightarrow> delivered stream = c)))
     \<and> (\<forall>k s t. os_get svc k s = (Inl NotFound, t) \<longrightarrow> objects s k = None)
     \<and> (\<forall>k a b s r t. os_get_range svc k a b s = (Inr r, t) \<longrightarrow> settled t k \<and> objects t k \<noteq> None)
     \<and> (\<forall>k c s r t. os_put_create svc k c s = (r, t) \<longrightarrow>
          (case r of
             Inr _ \<Rightarrow> objects s k = None \<and> objects t k = Some c \<and> settled t k
           | Inl _ \<Rightarrow> objects t k = objects s k \<and> (settled s k \<longrightarrow> settled t k)
               \<and> (r = Inl ObjectAlreadyExists \<or> r = Inl PreconditionFailed \<longrightarrow> objects s k \<noteq> None)))
     \<and> (\<forall>j k s r t. j \<noteq> k \<longrightarrow> os_copy_create svc j k s = (r, t) \<longrightarrow>
          (case r of
             Inr _ \<Rightarrow> objects s k = None \<and> objects t k = objects s j \<and> objects s j \<noteq> None
           | Inl _ \<Rightarrow> objects t k = objects s k \<and> (settled s k \<longrightarrow> settled t k)
               \<and> (r = Inl ObjectAlreadyExists \<or> r = Inl PreconditionFailed \<longrightarrow> objects s k \<noteq> None)))
     \<and> (\<forall>c s r t. os_read_source svc c s = (Inr r, t) \<longrightarrow> r = c)
     \<and> (\<forall>k c s t u v. os_write svc k c s = (Inr u, t) \<longrightarrow> os_shutdown svc k t = (Inr u, v) \<longrightarrow>
          objects v k = Some c)"

definition s3_conforms :: "'o s3_service \<Rightarrow> string \<Rightarrow> ('o \<Rightarrow> string \<Rightarrow> bytes option) \<Rightarrow> bool" where
  "s3_conforms svc bucket objects \<longleftrightarrow>
     (\<forall>k s r t. s3_get_object svc bucket k s = (r, t) \<longrightarrow> objects t = objects s \<and>
        (case r of
           Inl e \<Rightarrow> s3e_code e \<noteq> Some ''NoSuchBucket'' \<and> (s3e_no_such_key e \<or> s3e_http_status e = Some 404)
             \<longrightarrow> objects s k = None
         | Inr out \<Rightarrow> \<exists>c. objects s k = Some c
             \<and> (\<forall>n. s3o_content_length out = Some n \<longrightarrow> n = int (length c)) \<and> prefix (delivered (s3o_body out)) c
             \<and> (completes (s3o_body out) \<longrightarrow> delivered (s3o_body out) = c)))
     \<and> (\<forall>k c s r t. s3_put_if_none_match svc bucket k c s = (r, t) \<longrightarrow>
          (\<forall>j. j \<noteq> k \<longrightarrow> objects t j = objects s j) \<and>
          (case r of
             Inr _ \<Rightarrow> objects s k = None \<and> objects t k = Some c
           | Inl e \<Rightarrow> (objects t k = objects s k \<or> objects s k = None \<and> objects t k = Some c)
               \<and> (s3e_http_status e = Some 412 \<longrightarrow> objects t k \<noteq> None)))
     \<and> (\<forall>c s r t. s3_read_source svc c s = (r, t) \<longrightarrow> objects t = objects s \<and> (\<forall>b. r = Inr b \<longrightarrow> b = c))"

text \<open>Different digests have different keys: \<open>Digest::key\<close> names algorithm, hash and size.\<close>

definition keys_distinct :: "protocol \<Rightarrow> bool" where
  "keys_distinct P \<longleftrightarrow> (\<forall>d e. digest_ok P d \<longrightarrow> digest_ok P e \<longrightarrow> digest_key P d = digest_key P e \<longrightarrow> d = e)"

section \<open>The contract from the effects of the operations\<close>

definition objects_good :: "protocol \<Rightarrow> string \<Rightarrow> (digest \<Rightarrow> bytes \<Rightarrow> bool)
    \<Rightarrow> ('o \<Rightarrow> string \<Rightarrow> bytes option) \<Rightarrow> 'o \<Rightarrow> bool" where
  "objects_good P pre good objects s \<longleftrightarrow>
     (\<forall>d c. digest_ok P d \<longrightarrow> objects s (blob_key P pre d) = Some c \<longrightarrow> good d c)"

definition uploads :: "string \<Rightarrow> string set" where
  "uploads pre = {k. \<exists>u. k = pre @ ''/uploads/'' @ u}"

lemma blob_key_not_upload [simp]: "blob_key P pre d \<notin> uploads pre"
  by (simp add: blob_key_def uploads_def)

definition put_effect :: "('o \<Rightarrow> string \<Rightarrow> bytes option) \<Rightarrow> string \<Rightarrow> string \<Rightarrow> bytes
    \<Rightarrow> 'o \<Rightarrow> anyhow + put_outcome \<Rightarrow> 'o \<Rightarrow> bool" where
  "put_effect objects pre key src s r t \<longleftrightarrow>
     (\<forall>k. k \<notin> uploads pre \<longrightarrow> k \<noteq> key \<longrightarrow> objects t k = objects s k)
     \<and> (objects t key = objects s key \<or> objects s key = None \<and> objects t key = Some src)
     \<and> (r = Inr Created \<longrightarrow> objects s key = None \<and> objects t key = Some src)
     \<and> (r = Inr AlreadyExists \<longrightarrow> objects t key \<noteq> None)"

definition get_effect :: "('o \<Rightarrow> string \<Rightarrow> bytes option) \<Rightarrow> string \<Rightarrow> 'o \<Rightarrow> anyhow + blob option \<Rightarrow> 'o \<Rightarrow> bool" where
  "get_effect objects key s r t \<longleftrightarrow>
     (\<forall>k. objects t k = objects s k) \<and> (r = Inr None \<longrightarrow> objects s key = None)
     \<and> (\<forall>b. r = Inr (Some b) \<longrightarrow> (\<exists>c. objects s key = Some c \<and> bl_size b = of_nat (length c)
          \<and> prefix (delivered (bl_stream b)) c \<and> (completes (bl_stream b) \<longrightarrow> delivered (bl_stream b) = c)))"

lemma contract_from_effects:
  assumes inj: "keys_distinct P"
    and get: "\<And>d s. get_effect objects (blob_key P pre d) s (fst (get d s)) (snd (get d s))"
    and put: "\<And>d src s. put_effect objects pre (blob_key P pre d) src s (fst (put d src s)) (snd (put d src s))"
  shows "blob_storage get put (objects_good P pre good objects) (\<lambda>s d. objects s (blob_key P pre d))
    (digest_ok P) good"
proof
  fix s d assume "objects_good P pre good objects s"
  with get [of d s] show "objects_good P pre good objects (snd (get d s))"
    by (simp add: objects_good_def get_effect_def)
next
  fix s d src assume ok: "objects_good P pre good objects s" and d: "digest_ok P d" "good d src"
  note eff = put [of d src s, unfolded put_effect_def]
  show "objects_good P pre good objects (snd (put d src s))"
    unfolding objects_good_def
  proof (intro allI impI)
    fix e c assume e: "digest_ok P e" and c: "objects (snd (put d src s)) (blob_key P pre e) = Some c"
    show "good e c"
    proof (cases "blob_key P pre e = blob_key P pre d")
      case True
      then have "e = d" using inj e d(1) by (auto simp: keys_distinct_def blob_key_def)
      with c eff ok d show ?thesis by (auto simp: objects_good_def)
    next
      case False
      then have "objects s (blob_key P pre e) = Some c" using eff c by simp
      with ok e show ?thesis by (simp add: objects_good_def)
    qed
  qed
next
  fix s d c assume "objects_good P pre good objects s" "digest_ok P d" "objects s (blob_key P pre d) = Some c"
  then show "good d c" by (simp add: objects_good_def)
next
  fix s d b t assume "get d s = (Inr (Some b), t)"
  with get [of d s] show "\<exists>c. objects t (blob_key P pre d) = Some c \<and> bl_size b = of_nat (length c)
      \<and> prefix (delivered (bl_stream b)) c \<and> (completes (bl_stream b) \<longrightarrow> delivered (bl_stream b) = c)"
    by (simp add: get_effect_def)
next
  fix s d t assume "get d s = (Inr None, t)"
  with get [of d s] show "objects s (blob_key P pre d) = None" by (simp add: get_effect_def)
next
  fix s d src t assume "put d src s = (Inr Created, t)"
  with put [of d src s] show "objects s (blob_key P pre d) = None \<and> objects t (blob_key P pre d) = Some src"
    by (simp add: put_effect_def)
next
  fix s d src t assume "put d src s = (Inr AlreadyExists, t)"
  with put [of d src s] show "objects t (blob_key P pre d) \<noteq> None" by (simp add: put_effect_def)
next
  fix s d e c assume "objects s (blob_key P pre e) = Some c"
  with get [of d s] show "objects (snd (get d s)) (blob_key P pre e) = Some c" by (simp add: get_effect_def)
next
  fix s d src e c assume c: "objects s (blob_key P pre e) = Some c"
  show "objects (snd (put d src s)) (blob_key P pre e) = Some c"
  proof (cases "blob_key P pre e = blob_key P pre d")
    case True
    with put [of d src s] c show ?thesis by (auto simp: put_effect_def)
  next
    case False
    with put [of d src s] c show ?thesis by (simp add: put_effect_def)
  qed
qed

lemma s3_contract:
  assumes "keys_distinct P" and c: "s3_conforms svc (s3_bucket st) objects"
  shows "blob_storage (s3_get svc P st) (s3_put svc P st) (objects_good P (s3_prefix st) good objects)
    (\<lambda>s d. objects s (blob_key P (s3_prefix st) d)) (digest_ok P) good"
proof (rule contract_from_effects [OF assms(1)])
  fix d s
  obtain r t where g: "s3_get_object svc (s3_bucket st) (blob_key P (s3_prefix st) d) s = (r, t)" by fastforce
  note law = c [unfolded s3_conforms_def, THEN conjunct1, rule_format, OF g]
  show "get_effect objects (blob_key P (s3_prefix st) d) s (fst (s3_get svc P st d s)) (snd (s3_get svc P st d s))"
  proof (cases r)
    case (Inl e)
    with law show ?thesis by (auto simp: get_effect_def s3_get_def g)
  next
    case (Inr out)
    with law obtain c where "objects t = objects s" "objects s (blob_key P (s3_prefix st) d) = Some c"
      "\<forall>n. s3o_content_length out = Some n \<longrightarrow> n = int (length c)" "prefix (delivered (s3o_body out)) c"
      "completes (s3o_body out) \<longrightarrow> delivered (s3o_body out) = c" by auto
    then show ?thesis
      by (cases "s3o_content_length out") (auto simp: get_effect_def s3_get_def g Inr)
  qed
next
  fix d src s
  let ?k = "blob_key P (s3_prefix st) d"
  obtain r t where rd: "s3_read_source svc src s = (r, t)" by fastforce
  note law = c [unfolded s3_conforms_def, THEN conjunct2, THEN conjunct2, rule_format, OF rd]
  show "put_effect objects (s3_prefix st) ?k src s (fst (s3_put svc P st d src s)) (snd (s3_put svc P st d src s))"
  proof (cases r)
    case (Inl e)
    with law show ?thesis by (simp add: put_effect_def s3_put_def handleE_def rd)
  next
    case (Inr body)
    with law have body: "body = src" and t: "objects t = objects s" by simp_all
    obtain q u where w: "s3_put_if_none_match svc (s3_bucket st) ?k src t = (q, u)" by fastforce
    note law2 = c [unfolded s3_conforms_def, THEN conjunct2, THEN conjunct1, rule_format, OF w]
    show ?thesis
      using law2 by (cases q) (auto simp: put_effect_def s3_put_def handleE_def rd Inr body w t)
  qed
qed

subsection \<open>Staged uploads\<close>

lemma leaves_moves:
  "leaves objects settled K = moves (\<lambda>s t. \<forall>k. k \<notin> K \<longrightarrow> objects t k = objects s k \<and> (settled s k \<longrightarrow> settled t k))"
  by (simp add: leaves_def moves_def fun_eq_iff)

lemma leaves_preorder:
  "preorder_rel (\<lambda>s t. \<forall>k. k \<notin> K \<longrightarrow> objects t k = objects s k \<and> (settled s k \<longrightarrow> settled t k))"
  by (rule preorder_relI) auto

lemma leaves_return: "leaves objects settled K (returnE x)"
  unfolding leaves_moves by (rule moves_return [OF leaves_preorder])

lemma leaves_throw: "leaves objects settled K (throwE e)"
  unfolding leaves_moves by (rule moves_throw [OF leaves_preorder])

lemma leaves_bind:
  "leaves objects settled K m \<Longrightarrow> (\<And>x. leaves objects settled K (f x)) \<Longrightarrow> leaves objects settled K (bindE m f)"
  unfolding leaves_moves by (rule moves_bind [OF leaves_preorder])

lemma leaves_handle:
  "leaves objects settled K m \<Longrightarrow> (\<And>e. leaves objects settled K (h e)) \<Longrightarrow>
    (\<And>x. leaves objects settled K (f x)) \<Longrightarrow> leaves objects settled K (handleE m h f)"
  unfolding leaves_moves by (rule moves_handle [OF leaves_preorder])

lemmas leaves_rules = leaves_return leaves_throw leaves_bind leaves_handle

lemma leaves_mono: "leaves objects settled K m \<Longrightarrow> K \<subseteq> L \<Longrightarrow> leaves objects settled L m"
  by (auto simp: leaves_def)

lemma leaves_step:
  "leaves objects settled K m \<Longrightarrow> m s = (r, t) \<Longrightarrow> k \<notin> K \<Longrightarrow>
    objects t k = objects s k \<and> (settled s k \<longrightarrow> settled t k)"
  unfolding leaves_def by (metis snd_conv)

lemma leaves_ignore: "leaves objects settled K m \<Longrightarrow> leaves objects settled K (ignore_result m)"
  unfolding ignore_result_def by (intro leaves_handle leaves_return)

lemma service_frames:
  assumes "objects_conform svc objects settled"
  shows "leaves objects settled {} (os_get svc k)" "leaves objects settled {} (os_get_range svc k a b)"
    "leaves objects settled {} (os_read_source svc c)" "leaves objects settled {} (os_uuid svc)"
    "leaves objects settled {} (os_sleep svc)" "leaves objects settled {k} (os_put_create svc k c)"
    "leaves objects settled {k} (os_copy_create svc j k)" "leaves objects settled {k} (os_delete svc k)"
    "leaves objects settled {k} (os_write svc k c)" "leaves objects settled {k} (os_abort svc k)"
    "leaves objects settled {k} (os_shutdown svc k)"
  using assms [unfolded objects_conform_def, THEN conjunct1] by blast+

lemma service_get:
  assumes "objects_conform svc objects settled" and "os_get svc k s = (Inr (sz, stream), t)" and "settled s k"
  shows "\<exists>c. objects s k = Some c \<and> sz = of_nat (length c) \<and> prefix (delivered stream) c
    \<and> (completes stream \<longrightarrow> delivered stream = c)"
  by (rule assms(1) [unfolded objects_conform_def, THEN conjunct2, THEN conjunct1, rule_format, OF assms(2,3)])

lemma service_get_missing:
  assumes "objects_conform svc objects settled" and "os_get svc k s = (Inl NotFound, t)"
  shows "objects s k = None"
  by (rule assms(1) [unfolded objects_conform_def, THEN conjunct2, THEN conjunct2, THEN conjunct1, rule_format, OF assms(2)])

lemma service_get_range:
  assumes "objects_conform svc objects settled" and "os_get_range svc k a b s = (Inr bs, t)"
  shows "settled t k \<and> objects t k \<noteq> None"
  by (rule assms(1) [unfolded objects_conform_def, THEN conjunct2, THEN conjunct2, THEN conjunct2, THEN conjunct1, rule_format, OF assms(2)])

lemma service_put_create:
  assumes "objects_conform svc objects settled" and "os_put_create svc k c s = (r, t)"
  shows "case r of
      Inr _ \<Rightarrow> objects s k = None \<and> objects t k = Some c \<and> settled t k
    | Inl _ \<Rightarrow> objects t k = objects s k \<and> (settled s k \<longrightarrow> settled t k)
        \<and> (r = Inl ObjectAlreadyExists \<or> r = Inl PreconditionFailed \<longrightarrow> objects s k \<noteq> None)"
  by (rule assms(1) [unfolded objects_conform_def, THEN conjunct2, THEN conjunct2, THEN conjunct2, THEN conjunct2, THEN conjunct1, rule_format, OF assms(2)])

lemma service_copy:
  assumes "objects_conform svc objects settled" and "j \<noteq> k" and "os_copy_create svc j k s = (r, t)"
  shows "case r of
      Inr _ \<Rightarrow> objects s k = None \<and> objects t k = objects s j \<and> objects s j \<noteq> None
    | Inl _ \<Rightarrow> objects t k = objects s k \<and> (settled s k \<longrightarrow> settled t k)
        \<and> (r = Inl ObjectAlreadyExists \<or> r = Inl PreconditionFailed \<longrightarrow> objects s k \<noteq> None)"
  by (rule assms(1) [unfolded objects_conform_def, THEN conjunct2, THEN conjunct2, THEN conjunct2, THEN conjunct2, THEN conjunct2, THEN conjunct1, rule_format, OF assms(2,3)])

lemma service_read_source:
  assumes "objects_conform svc objects settled" and "os_read_source svc c s = (Inr content, t)"
  shows "content = c"
  by (rule assms(1) [unfolded objects_conform_def, THEN conjunct2, THEN conjunct2, THEN conjunct2, THEN conjunct2, THEN conjunct2, THEN conjunct2, THEN conjunct1, rule_format, OF assms(2)])

lemma service_write:
  assumes "objects_conform svc objects settled" and "os_write svc k c s = (Inr u, t)" and "os_shutdown svc k t = (Inr u, v)"
  shows "objects v k = Some c"
  by (rule assms(1) [unfolded objects_conform_def, THEN conjunct2, THEN conjunct2, THEN conjunct2, THEN conjunct2, THEN conjunct2, THEN conjunct2, THEN conjunct2, rule_format, OF assms(2,3)])

lemma stage_upload_leaves:
  assumes "objects_conform svc objects settled"
  shows "leaves objects settled {k} (stage_upload svc k src)"
  unfolding stage_upload_def
  by (intro leaves_rules leaves_ignore service_frames [OF assms])
    (rule leaves_mono [OF service_frames(3) [OF assms]], simp)

lemma stage_upload_result:
  assumes c: "objects_conform svc objects settled" and "stage_upload svc k src s = (Inr u, t)"
  shows "objects t k = Some src"
proof -
  from assms(2) obtain content v w where r: "os_read_source svc src s = (Inr content, v)"
    and wr: "os_write svc k content v = (Inr (), w)" and sh: "os_shutdown svc k w = (Inr (), t)"
    by (auto simp: stage_upload_def handleE_def bindE_def split: prod.splits sum.splits)
  have "content = src" by (rule service_read_source [OF c r])
  moreover have "objects t k = Some content" by (rule service_write [OF c wr sh])
  ultimately show ?thesis by simp
qed

lemma new_upload_key_leaves:
  assumes "objects_conform svc objects settled"
  shows "leaves objects settled {} (new_upload_key svc pre)"
  unfolding new_upload_key_def by (intro leaves_rules service_frames [OF assms])

lemma new_upload_key_result: "new_upload_key svc pre s = (Inr k, t) \<Longrightarrow> k \<in> uploads pre"
  by (auto simp: new_upload_key_def uploads_def handleE_def split: prod.splits sum.splits)

text \<open>The state in which the copy is made: the content is under the upload key, blobs are as before.\<close>

lemma staged:
  assumes c: "objects_conform svc objects settled"
    and "bindE (new_upload_key svc pre) (\<lambda>k. bindE (stage_upload svc k src) (\<lambda>_. f k)) s = (r, t)"
  obtains (failed) e where "r = Inl e"
      "\<And>k. k \<notin> uploads pre \<Longrightarrow> objects t k = objects s k \<and> (settled s k \<longrightarrow> settled t k)"
    | (copied) k u where "k \<in> uploads pre" "f k u = (r, t)" "objects u k = Some src"
      "\<And>k. k \<notin> uploads pre \<Longrightarrow> objects u k = objects s k \<and> (settled s k \<longrightarrow> settled u k)"
proof -
  obtain q v where n: "new_upload_key svc pre s = (q, v)" by fastforce
  have v: "objects v j = objects s j \<and> (settled s j \<longrightarrow> settled v j)" for j
    using leaves_step [OF new_upload_key_leaves [OF c] n] by simp
  show thesis
  proof (cases q)
    case (Inl e)
    with n assms(2) have "r = Inl e \<and> t = v" by simp
    with failed v show thesis by blast
  next
    case (Inr k)
    with n have k: "k \<in> uploads pre" using new_upload_key_result by metis
    obtain x w where st: "stage_upload svc k src v = (x, w)" by fastforce
    have w: "objects w j = objects s j \<and> (settled s j \<longrightarrow> settled w j)" if "j \<notin> uploads pre" for j
      using leaves_step [OF stage_upload_leaves [OF c] st, of j] v [of j] that k by auto
    show thesis
    proof (cases x)
      case (Inl e)
      with n Inr st assms(2) have "r = Inl e \<and> t = w" by simp
      with failed w show thesis by blast
    next
      case (Inr y)
      with n \<open>q = Inr k\<close> st assms(2) have "f k w = (r, t)" by simp
      with copied k w stage_upload_result [OF c] st Inr show thesis by metis
    qed
  qed
qed

lemma create_outcome_simps:
  "create_outcome r = Inr Created \<longleftrightarrow> (\<exists>u. r = Inr u)"
  "create_outcome r = Inr AlreadyExists \<longleftrightarrow> r = Inl ObjectAlreadyExists \<or> r = Inl PreconditionFailed"
  by (cases r; simp add: create_outcome_def split: object_error.splits)+

lemma put_create_effect:
  assumes c: "objects_conform svc objects settled" and p: "os_put_create svc key src s = (r, t)"
  shows "put_effect objects pre key src s (create_outcome r) t"
proof -
  have fr: "objects t k = objects s k" if "k \<noteq> key" for k
    using leaves_step [OF service_frames(6) [OF c] p] that by simp
  have "case r of
      Inr _ \<Rightarrow> objects s key = None \<and> objects t key = Some src \<and> settled t key
    | Inl _ \<Rightarrow> objects t key = objects s key \<and> (settled s key \<longrightarrow> settled t key)
        \<and> (r = Inl ObjectAlreadyExists \<or> r = Inl PreconditionFailed \<longrightarrow> objects s key \<noteq> None)"
    by (rule service_put_create [OF c p])
  then show ?thesis using fr
    by (cases r) (auto simp: put_effect_def create_outcome_simps)
qed

lemma copy_effect:
  assumes c: "objects_conform svc objects settled" and k: "k \<in> uploads pre" and key: "key \<notin> uploads pre"
    and u: "objects u k = Some src"
    and before: "\<And>j. j \<notin> uploads pre \<Longrightarrow> objects u j = objects s j"
    and p: "os_copy_create svc k key u = (r, t)"
  shows "put_effect objects pre key src s (create_outcome r) t"
proof -
  have "k \<noteq> key" using k key by auto
  note service_copy [OF c this p]
  moreover have "objects t j = objects u j" if "j \<noteq> key" for j
    using leaves_step [OF service_frames(7) [OF c] p] that by simp
  ultimately show ?thesis using u before [OF key] before
    by (cases r) (auto simp: put_effect_def create_outcome_simps)
qed

lemma put_effect_later:
  assumes "put_effect objects pre key src s r t" and "key \<notin> uploads pre"
    and "\<And>j. j \<notin> uploads pre \<Longrightarrow> objects v j = objects t j"
  shows "put_effect objects pre key src s r v"
  using assms unfolding put_effect_def by metis

lemma put_effect_weaken:
  "put_effect objects pre key src s r t \<Longrightarrow> put_effect objects pre key src s (Inl e) t"
  by (simp add: put_effect_def)

lemma put_effect_none: "(\<And>k. k \<notin> uploads pre \<Longrightarrow> objects t k = objects s k) \<Longrightarrow> key \<notin> uploads pre \<Longrightarrow>
    put_effect objects pre key src s (Inl e) t"
  by (simp add: put_effect_def)

lemma gcs_put_effect:
  assumes c: "objects_conform svc objects settled" and p: "gcs_put svc P st d src s = (r, t)"
  shows "put_effect objects (gcs_prefix st) (blob_key P (gcs_prefix st) d) src s r t"
proof (cases "fits_one_request (d_size d)")
  case True
  obtain q v where rd: "os_read_source svc src s = (q, v)" by fastforce
  have v: "objects v j = objects s j" for j using leaves_step [OF service_frames(3) [OF c] rd] by simp
  show ?thesis
  proof (cases q)
    case (Inl e)
    with p rd True have "r = Inl (OtherError e) \<and> t = v" by (simp add: gcs_put_def handleE_def)
    with v show ?thesis by (auto intro: put_effect_none)
  next
    case (Inr content)
    with rd have "content = src" using service_read_source [OF c] by blast
    with Inr p rd True obtain x where x: "os_put_create svc (blob_key P (gcs_prefix st) d) src v = (x, t)"
      "r = create_outcome x" by (auto simp: gcs_put_def handleE_def split: prod.splits)
    from put_create_effect [OF c x(1)] v show ?thesis by (simp add: x(2) put_effect_def)
  qed
next
  case False
  let ?key = "blob_key P (gcs_prefix st) d"
  from p False have "bindE (new_upload_key svc (gcs_prefix st)) (\<lambda>k. bindE (stage_upload svc k src) (\<lambda>_.
        (\<lambda>s. case os_copy_create svc k ?key s of
             (r, t) \<Rightarrow> bindE (ignore_result (os_delete svc k)) (\<lambda>_. liftE (create_outcome r)) t))) s = (r, t)"
    by (simp add: gcs_put_def)
  from c this show ?thesis
  proof (cases rule: staged)
    case (failed e)
    then show ?thesis by (auto intro: put_effect_none)
  next
    case (copied k u)
    obtain x w where cp: "os_copy_create svc k ?key u = (x, w)" by fastforce
    obtain y :: "anyhow + unit" and z where dl: "ignore_result (os_delete svc k) w = (y, z)" by fastforce
    have "\<exists>u. y = Inr u" using dl by (auto simp: ignore_result_def handleE_def split: prod.splits sum.splits)
    with copied(2) cp dl have rt: "r = create_outcome x \<and> t = z" by auto
    have "objects z j = objects w j" if "j \<notin> uploads (gcs_prefix st)" for j
    proof -
      have "j \<noteq> k" using that copied(1) by auto
      then show ?thesis using leaves_step [OF leaves_ignore [OF service_frames(8) [OF c]] dl] by simp
    qed
    moreover have "put_effect objects (gcs_prefix st) ?key src s (create_outcome x) w"
      by (rule copy_effect [OF c copied(1) _ copied(3) _ cp]) (simp_all add: copied(4))
    ultimately show ?thesis using rt by (auto intro: put_effect_later)
  qed
qed

lemma object_get_effect:
  assumes c: "objects_conform svc objects (\<lambda>_ _. True)" and g: "object_get svc P pre d s = (r, t)"
  shows "get_effect objects (blob_key P pre d) s r t"
proof -
  obtain q v where og: "os_get svc (blob_key P pre d) s = (q, v)" by fastforce
  have v: "objects v j = objects s j" for j using leaves_step [OF service_frames(1) [OF c] og] by simp
  show ?thesis
  proof (cases q)
    case (Inl e)
    have "objects s (blob_key P pre d) = None" if "e = NotFound"
      using service_get_missing [OF c] og that Inl by blast
    with g og Inl v show ?thesis
      by (cases "e = NotFound") (auto simp: object_get_def handleE_def get_effect_def)
  next
    case (Inr ss)
    obtain sz str where ss: "ss = (sz, str)" by fastforce
    have "\<exists>c. objects s (blob_key P pre d) = Some c \<and> sz = of_nat (length c) \<and> prefix (delivered str) c
        \<and> (completes str \<longrightarrow> delivered str = c)"
      using service_get [OF c og [unfolded Inr ss]] by simp
    with g og Inr ss v show ?thesis by (auto simp: object_get_def handleE_def get_effect_def)
  qed
qed

lemma gcs_contract:
  assumes "keys_distinct P" and "objects_conform svc objects (\<lambda>_ _. True)"
  shows "blob_storage (gcs_get svc P st) (gcs_put svc P st) (objects_good P (gcs_prefix st) good objects)
    (\<lambda>s d. objects s (blob_key P (gcs_prefix st) d)) (digest_ok P) good"
  by (rule contract_from_effects [OF assms(1)])
    (auto simp: gcs_get_def intro: object_get_effect [OF assms(2)] gcs_put_effect [OF assms(2)])

subsection \<open>Azure waits for its copies\<close>

lemma read_attempts_leaves:
  assumes "objects_conform svc objects settled"
  shows "leaves objects settled {} (read_attempts svc key sz n)"
proof (induction n)
  case 0
  show ?case unfolding read_attempts.simps by (rule leaves_throw)
next
  case (Suc n)
  show ?case unfolding read_attempts.simps
    by (intro leaves_handle leaves_bind leaves_return leaves_ignore service_frames(2,5) [OF assms] Suc)
qed

lemma read_attempts_result:
  assumes c: "objects_conform svc objects settled"
  shows "read_attempts svc key sz n s = (Inr u, t) \<Longrightarrow> settled t key \<and> objects t key \<noteq> None"
proof (induction n arbitrary: s)
  case (Suc n)
  obtain r v where g: "os_get_range svc key (sz - 1) sz s = (r, v)" by fastforce
  show ?case
  proof (cases r)
    case (Inl e)
    obtain x :: "anyhow + unit" and w where sl: "ignore_result (os_sleep svc) v = (x, w)" by fastforce
    have "\<exists>u. x = Inr u" using sl by (auto simp: ignore_result_def handleE_def split: prod.splits sum.splits)
    with Suc.prems g Inl sl have "read_attempts svc key sz n w = (Inr u, t)" by (auto simp: handleE_def)
    then show ?thesis by (rule Suc.IH)
  next
    case (Inr b)
    with Suc.prems g have "t = v" by (simp add: handleE_def)
    with service_get_range [OF c g [unfolded Inr]] show ?thesis by simp
  qed
qed simp

lemma ignore_result_run: "\<exists>t. ignore_result m s = (Inr (), t)"
  by (auto simp: ignore_result_def handleE_def split: prod.split sum.split)

lemma azure_put_result:
  assumes c: "objects_conform svc objects settled" and sz: "d_size d \<noteq> 0"
    and p: "azure_put svc P st d src s = (Inr out, t)"
  defines "key \<equiv> blob_key P (azure_prefix st) d"
  shows "settled t key \<and> (objects t key = objects s key \<or> objects t key = Some src) \<and> objects t key \<noteq> None"
proof -
  let ?up = "uploads (azure_prefix st)"
  have key: "key \<notin> ?up" by (simp add: key_def)
  define after where "after = (\<lambda>k. handleE (os_copy_create svc k key)
          (\<lambda>e. bindE (ignore_result (os_delete svc k)) (\<lambda>_.
             if e = ObjectAlreadyExists \<or> e = PreconditionFailed
             then bindE (wait_until_readable svc key (d_size d)) (\<lambda>_. returnE AlreadyExists)
             else throwE (OtherError (object_message e))))
          (\<lambda>_. bindE (wait_until_readable svc key (d_size d)) (\<lambda>_. returnE Created)))"
  from p sz have "bindE (new_upload_key svc (azure_prefix st)) (\<lambda>k. bindE (stage_upload svc k src) (\<lambda>_. after k)) s
      = (Inr out, t)"
    unfolding azure_put_def Let_def after_def key_def by (simp only: if_False)
  from c this show ?thesis
  proof (cases rule: staged)
    case (copied k u)
    have kk: "k \<noteq> key" using copied(1) key by auto
    obtain x w where cp: "os_copy_create svc k key u = (x, w)" by fastforce
    note law = service_copy [OF c kk cp]
    have wait: "settled b key \<and> objects b key = objects a key \<and> objects b key \<noteq> None"
      if "wait_until_readable svc key (d_size d) a = (Inr y, b)" for a b y
      using that leaves_step [OF read_attempts_leaves [OF c], of key "d_size d" 120 a "Inr y" b key]
        read_attempts_result [OF c, of key "d_size d" 120 a y b] by (simp add: wait_until_readable_def)
    show ?thesis
    proof (cases x)
      case (Inr z)
      with copied(2) cp have "\<exists>y. wait_until_readable svc key (d_size d) w = (Inr y, t)"
        by (auto simp: after_def handleE_def result_simps)
      with wait law Inr copied(3) show ?thesis by auto
    next
      case (Inl e)
      obtain v where dl: "ignore_result (os_delete svc k) w = (Inr () :: anyhow + unit, v)"
        using ignore_result_run [of "os_delete svc k" w] by blast
      have v: "objects v key = objects w key"
        using leaves_step [OF leaves_ignore [OF service_frames(8) [OF c]] dl] kk by simp
      from copied(2) cp Inl dl obtain y where "wait_until_readable svc key (d_size d) v = (Inr y, t)"
        by (auto simp: after_def handleE_def result_simps split: if_splits)
      note wt = wait [OF this]
      moreover have "objects t key = objects s key" using wt v law Inl copied(4) [OF key] by simp
      ultimately show ?thesis by metis
    qed
  qed simp
qed

section \<open>Properties of the object-storage backends\<close>

text \<open>A service for evaluations: a map, with nothing ever failing.\<close>

definition create_in_map :: "string \<Rightarrow> bytes \<Rightarrow> ((string \<rightharpoonup> bytes), object_error, unit) comp" where
  "create_in_map k c s = (if s k = None then (Inr (), s(k \<mapsto> c)) else (Inl ObjectAlreadyExists, s))"

definition map_service :: "(string \<rightharpoonup> bytes) object_service" where
  "map_service =
     \<lparr>os_get = (\<lambda>k s. case s k of None \<Rightarrow> (Inl NotFound, s)
        | Some c \<Rightarrow> (Inr (of_nat (length c), [Inr c]), s)),
      os_get_range = (\<lambda>k a b s. case s k of None \<Rightarrow> (Inl NotFound, s) | Some c \<Rightarrow> (Inr [], s)),
      os_put_create = create_in_map,
      os_copy_create = (\<lambda>j k s. case s j of None \<Rightarrow> (Inl NotFound, s) | Some c \<Rightarrow> create_in_map k c s),
      os_delete = (\<lambda>k s. (Inr (), s(k := None))),
      os_read_source = returnE,
      os_write = (\<lambda>k c s. (Inr (), s(k \<mapsto> c))),
      os_abort = (\<lambda>k s. (Inr (), s(k := None))),
      os_shutdown = (\<lambda>k. returnE ()),
      os_uuid = returnE ''u1'',
      os_sleep = returnE ()\<rparr>"

lemma map_service_simps:
  "os_read_source map_service = returnE" "os_uuid map_service = returnE ''u1''"
  "os_write map_service = (\<lambda>k c s. (Inr (), s(k \<mapsto> c)))" "os_shutdown map_service = (\<lambda>k. returnE ())"
  "os_copy_create map_service = (\<lambda>j k s. case s j of None \<Rightarrow> (Inl NotFound, s) | Some c \<Rightarrow> create_in_map k c s)"
  "os_get map_service = (\<lambda>k s. case s k of None \<Rightarrow> (Inl NotFound, s)
     | Some c \<Rightarrow> (Inr (of_nat (length c), [Inr c]), s))"
  by (simp_all add: map_service_def)

lemma map_service_readable: "s k = Some c \<Longrightarrow> wait_until_readable map_service k sz s = (Inr (), s)"
proof -
  assume s: "s k = Some c"
  have "(120 :: nat) = Suc 119" by simp
  then have "wait_until_readable map_service k sz s = read_attempts map_service k sz (Suc 119) s"
    by (simp only: wait_until_readable_def)
  also have "\<dots> = (Inr (), s)" by (simp only: read_attempts.simps handleE_def) (simp add: map_service_def s)
  finally show ?thesis .
qed

lemma map_service_conforms: "objects_conform map_service (\<lambda>s. s) (\<lambda>_ _. True)"
  unfolding objects_conform_def leaves_def
  by (auto simp: map_service_def create_in_map_def split: option.split_asm if_split_asm option.split)

lemma reference_keys_distinct: "keys_distinct reference_protocol"
proof -
  have key: "d = e" if "digest_ok reference_protocol d" "digest_ok reference_protocol e"
    "digest_key reference_protocol d = digest_key reference_protocol e" for d e
  proof -
    from that(1,2) obtain a b where ab: "algorithm_kind reference_protocol d = Inr a"
      "algorithm_kind reference_protocol e = Inr b" and len: "length (d_hash d) = 64" "length (d_hash e) = 64"
      by (auto simp: digest_ok_iff [OF reference_protocol_ok])
    from ab have al: "d_algorithm d = algorithm_name reference_protocol a"
      "d_algorithm e = algorithm_name reference_protocol b"
      by (simp_all add: algorithm_kind_iff [OF reference_protocol_ok])
    have "length (d_algorithm d) = 6 \<and> length (d_algorithm e) = 6"
      by (cases a; cases b) (simp_all add: al reference_protocol_def ref_algorithm_name_def)
    with that(3) len show "d = e"
      by (cases d; cases e) (simp add: reference_protocol_def word_unat_eq_iff)
  qed
  then show ?thesis by (simp add: keys_distinct_def)
qed


text \<open>
  C21. S3 uploads: relying only on conditional writes, a blob whose upload reported success is found by
  the next read that does not fail, with a content that belongs under its digest; and a missing
  bucket is an error, never a missing blob.
\<close>

theorem s3_put_then_get:
  assumes "keys_distinct P" and "s3_conforms svc (s3_bucket st) objects"
    and "objects_good P (s3_prefix st) good objects s" and "digest_ok P d" and "good d src"
    and "s3_put svc P st d src s = (Inr out, t)" and "s3_get svc P st d t = (Inr r, u)"
  shows "(\<exists>b. r = Some b \<and> (completes (bl_stream b) \<longrightarrow> good d (delivered (bl_stream b))))
    \<and> (\<forall>e v. s3_get_object svc (s3_bucket st) (blob_key P (s3_prefix st) d) v = (Inl e, v) \<longrightarrow>
        s3e_code e = Some ''NoSuchBucket'' \<longrightarrow> \<not> (\<exists>x. fst (s3_get svc P st d v) = Inr x))"
  using blob_storage.put_then_get [OF s3_contract [OF assms(1,2)] assms(3-7)]
  by (auto simp: s3_get_def)

definition map_s3 :: "(string \<rightharpoonup> bytes) s3_service" where
  "map_s3 =
     \<lparr>s3_get_object = (\<lambda>b k s. case s k of
          None \<Rightarrow> (Inl \<lparr>s3e_code = Some ''NoSuchKey'', s3e_no_such_key = True, s3e_http_status = Some 404,
            s3e_message = ''no such key''\<rparr>, s)
        | Some c \<Rightarrow> (Inr \<lparr>s3o_content_length = Some (int (length c)), s3o_body = [Inr c]\<rparr>, s)),
      s3_put_if_none_match = (\<lambda>b k c s. if s k = None then (Inr (), s(k \<mapsto> c))
        else (Inl \<lparr>s3e_code = None, s3e_no_such_key = False, s3e_http_status = Some 412,
          s3e_message = ''precondition''\<rparr>, s)),
      s3_read_source = returnE\<rparr>"

lemma map_s3_conforms: "s3_conforms map_s3 b (\<lambda>s. s)"
  by (auto simp: s3_conforms_def map_s3_def split: option.splits if_splits)

lemma objects_good_empty: "objects_good P pre good (\<lambda>s. s) Map.empty"
  by (simp add: objects_good_def)

theorem s3_put_then_get_witness:
  "\<exists>b. Some \<lparr>bl_size = 2, bl_stream = [Inr [7, 8]]\<rparr> = Some b \<and> delivered (bl_stream b) = [7, 8]"
proof -
  let ?st = "\<lparr>s3_bucket = ''b'', s3_prefix = ''p''\<rparr>"
  let ?k = "blob_key reference_protocol ''p'' sample_blake"
  have p: "s3_put map_s3 reference_protocol ?st sample_blake [7, 8] Map.empty = (Inr Created, [?k \<mapsto> [7, 8]])"
    by (simp add: s3_put_def map_s3_def handleE_def)
  have g: "s3_get map_s3 reference_protocol ?st sample_blake [?k \<mapsto> [7, 8]]
      = (Inr (Some \<lparr>bl_size = 2, bl_stream = [Inr [7, 8]]\<rparr>), [?k \<mapsto> [7, 8]])"
    by (simp add: s3_get_def map_s3_def)
  from s3_put_then_get [OF reference_keys_distinct map_s3_conforms _ sample_blake_ok _ p g,
      where good = "\<lambda>d c. c = [7, 8]"]
  show ?thesis by (simp add: objects_good_empty)
qed

text \<open>
  C22. Google Cloud Storage uploads, both the single create-only request and the staged upload with a
  create-only copy: whatever the put reports, it touches nothing but the blob's key and its own
  upload key, never changes a blob already there, reports a creation only when it made the object
  with the uploaded content, and an existing blob only when there is one.
\<close>

theorem gcs_put_create_only:
  assumes "objects_conform svc objects settled" and "gcs_put svc P st d src s = (r, t)"
  shows "(\<forall>k. k \<notin> uploads (gcs_prefix st) \<longrightarrow> k \<noteq> blob_key P (gcs_prefix st) d \<longrightarrow> objects t k = objects s k)
    \<and> (\<forall>c. objects s (blob_key P (gcs_prefix st) d) = Some c \<longrightarrow> objects t (blob_key P (gcs_prefix st) d) = Some c)
    \<and> (r = Inr Created \<longrightarrow> objects s (blob_key P (gcs_prefix st) d) = None
        \<and> objects t (blob_key P (gcs_prefix st) d) = Some src)
    \<and> (r = Inr AlreadyExists \<longrightarrow> objects t (blob_key P (gcs_prefix st) d) \<noteq> None)"
  using gcs_put_effect [OF assms] by (auto simp: put_effect_def)

theorem gcs_put_create_only_witness:
  "(snd (gcs_put map_service reference_protocol \<lparr>gcs_prefix = ''p''\<rparr> sample_blake [7, 8] Map.empty))
    (blob_key reference_protocol ''p'' sample_blake) = Some [7, 8]"
proof -
  have p: "gcs_put map_service reference_protocol \<lparr>gcs_prefix = ''p''\<rparr> sample_blake [7, 8] Map.empty
      = (Inr Created, [blob_key reference_protocol ''p'' sample_blake \<mapsto> [7, 8]])"
    by (simp add: gcs_put_def fits_one_request_def single_request_bytes_def sample_blake_def map_service_def
        handleE_def create_in_map_def create_outcome_def Let_def)
  from gcs_put_create_only [OF map_service_conforms p] show ?thesis by (simp add: p)
qed



end
