(* ===== verification/Codec.thy ===== *)
theory Codec
  imports Api_Error
begin

text \<open>
  What the stores ask of \<open>serde_json\<close>: action results as bytes (the in-memory store) and results and
  manifests as JSON values (PostgreSQL's \<open>jsonb\<close>). The encoders are generated code of the protocol
  crate's types, so they are the record \<open>json_codec\<close>, a parameter; \<open>codec_ok\<close> is what \<open>serde\<close>'s derived
  implementations promise, and \<open>reference_codec\<close> an instance.
\<close>

section \<open>The codec\<close>

record json_codec =
  jc_result_to_vec :: "action_result \<Rightarrow> string + bytes"
  jc_result_from_slice :: "bytes \<Rightarrow> string + action_result"
  jc_result_to_value :: "action_result \<Rightarrow> string + json"
  jc_result_from_value :: "json \<Rightarrow> string + action_result"
  jc_manifest_to_value :: "task_action_manifest \<Rightarrow> string + json"
  jc_manifest_from_value :: "json \<Rightarrow> string + task_action_manifest"

text \<open>Encoding to bytes or to a value succeeds and is undone by decoding.\<close>

definition codec_ok :: "json_codec \<Rightarrow> bool" where
  "codec_ok J \<longleftrightarrow>
     (\<forall>r. \<exists>b. jc_result_to_vec J r = Inr b \<and> jc_result_from_slice J b = Inr r)
     \<and> (\<forall>r. \<exists>v. jc_result_to_value J r = Inr v \<and> jc_result_from_value J v = Inr r)
     \<and> (\<forall>m. \<exists>v. jc_manifest_to_value J m = Inr v \<and> jc_manifest_from_value J v = Inr m)"

lemma codec_results:
  assumes "codec_ok J"
  obtains b v where "jc_result_to_vec J r = Inr b" and "jc_result_from_slice J b = Inr r"
    and "jc_result_to_value J r = Inr v" and "jc_result_from_value J v = Inr r"
  using assms by (metis codec_ok_def)

lemma codec_manifests:
  assumes "codec_ok J"
  obtains v where "jc_manifest_to_value J m = Inr v" and "jc_manifest_from_value J v = Inr m"
  using assms by (metis codec_ok_def)

lemma codec_decode:
  assumes "codec_ok J" and "jc_result_to_vec J x = Inr b"
  shows "jc_result_from_slice J b = Inr x"
proof -
  obtain c where "jc_result_to_vec J x = Inr c" "jc_result_from_slice J c = Inr x"
    using assms(1) by (rule codec_results)
  with assms(2) show ?thesis by simp
qed

section \<open>An instance\<close>

text \<open>Values.\<close>

definition json_of_digest :: "digest \<Rightarrow> json" where
  "json_of_digest d = JObject [(''algorithm'', JString (d_algorithm d)), (''hash'', JString (d_hash d)),
     (''size'', JNumber (PosInt (d_size d)))]"

definition json_string :: "json option \<Rightarrow> string option" where
  "json_string v = (case v of Some (JString s) \<Rightarrow> Some s | _ \<Rightarrow> None)"

definition json_u64 :: "json option \<Rightarrow> u64 option" where
  "json_u64 v = (case v of Some (JNumber (PosInt n)) \<Rightarrow> Some n | _ \<Rightarrow> None)"

definition digest_of_json :: "json \<Rightarrow> digest option" where
  "digest_of_json v =
     Option.bind (json_string (json_get v ''algorithm'')) (\<lambda>a.
     Option.bind (json_string (json_get v ''hash'')) (\<lambda>h.
     Option.bind (json_u64 (json_get v ''size'')) (\<lambda>n.
     Some \<lparr>d_algorithm = a, d_hash = h, d_size = n\<rparr>)))"

definition json_of_optional :: "digest option \<Rightarrow> json" where
  "json_of_optional d = (case d of None \<Rightarrow> JNull | Some d \<Rightarrow> json_of_digest d)"

definition optional_of_json :: "json \<Rightarrow> digest option option" where
  "optional_of_json v = (if v = JNull then Some None else map_option Some (digest_of_json v))"

definition json_of_result :: "action_result \<Rightarrow> json" where
  "json_of_result r = JObject [(''action'', json_of_digest (ar_action r)),
     (''metadata'', json_of_optional (ar_metadata r)), (''output_root'', json_of_optional (ar_output_root r)),
     (''version'', JNumber (PosInt (ucast (ar_version r))))]"

definition result_of_json :: "json \<Rightarrow> action_result option" where
  "result_of_json v =
     Option.bind (Option.bind (json_get v ''action'') digest_of_json) (\<lambda>a.
     Option.bind (Option.bind (json_get v ''metadata'') optional_of_json) (\<lambda>m.
     Option.bind (Option.bind (json_get v ''output_root'') optional_of_json) (\<lambda>out.
     Option.bind (json_u64 (json_get v ''version'')) (\<lambda>n.
     Some \<lparr>ar_action = a, ar_metadata = m, ar_output_root = out, ar_version = ucast n\<rparr>))))"

definition json_of_prediction :: "action_prediction \<Rightarrow> json" where
  "json_of_prediction p = JObject [(''action'', json_of_digest (ap_action p)),
     (''adapter'', JString (ap_adapter p)), (''invocation'', json_of_digest (ap_invocation p)),
     (''payload'', JString (ap_payload p))]"

definition prediction_of_json :: "json \<Rightarrow> action_prediction option" where
  "prediction_of_json v =
     Option.bind (Option.bind (json_get v ''action'') digest_of_json) (\<lambda>a.
     Option.bind (json_string (json_get v ''adapter'')) (\<lambda>adapter.
     Option.bind (Option.bind (json_get v ''invocation'') digest_of_json) (\<lambda>i.
     Option.bind (json_string (json_get v ''payload'')) (\<lambda>payload.
     Some \<lparr>ap_action = a, ap_adapter = adapter, ap_invocation = i, ap_payload = payload\<rparr>))))"

definition json_of_manifest :: "task_action_manifest \<Rightarrow> json" where
  "json_of_manifest m = JObject [(''predictions'', JArray (map json_of_prediction (tm_predictions m))),
     (''task'', JString (tm_task m)), (''version'', JNumber (PosInt (ucast (tm_version m))))]"

fun option_list :: "'a option list \<Rightarrow> 'a list option" where
  "option_list [] = Some []"
| "option_list (None # _) = None"
| "option_list (Some x # xs) = map_option (\<lambda>ys. x # ys) (option_list xs)"

definition manifest_of_json :: "json \<Rightarrow> task_action_manifest option" where
  "manifest_of_json v =
     Option.bind (case json_get v ''predictions'' of
         Some (JArray vs) \<Rightarrow> option_list (map prediction_of_json vs) | _ \<Rightarrow> None) (\<lambda>ps.
     Option.bind (json_string (json_get v ''task'')) (\<lambda>t.
     Option.bind (json_u64 (json_get v ''version'')) (\<lambda>n.
     Some \<lparr>tm_predictions = ps, tm_task = t, tm_version = ucast n\<rparr>)))"

text \<open>Bytes: the text fields of a result, each byte of a field marked by 1 and its end by 0.\<close>

fun fields_to_vec :: "string list \<Rightarrow> bytes" where
  "fields_to_vec [] = []"
| "fields_to_vec ([] # fs) = 0 # fields_to_vec fs"
| "fields_to_vec ((c # cs) # fs) = 1 # of_char c # fields_to_vec (cs # fs)"

fun fields_from_slice :: "bytes \<Rightarrow> string list" where
  "fields_from_slice (m # c # bs) =
     (if m = 0 then [] # fields_from_slice (c # bs)
      else case fields_from_slice bs of [] \<Rightarrow> [] | f # fs \<Rightarrow> (char_of (unat c) # f) # fs)"
| "fields_from_slice [m] = [[]]"
| "fields_from_slice [] = []"

definition digest_fields :: "digest option \<Rightarrow> string list" where
  "digest_fields d = (case d of None \<Rightarrow> [[], [], [], []]
     | Some d \<Rightarrow> [''d'', d_algorithm d, d_hash d, nat_to_string (unat (d_size d))])"

fun digest_of_fields :: "string list \<Rightarrow> digest option" where
  "digest_of_fields [t, a, h, n] =
     (if t = [] then None else map_option (\<lambda>n. \<lparr>d_algorithm = a, d_hash = h, d_size = n\<rparr>) (parse_u64 n))"
| "digest_of_fields _ = None"

definition result_fields :: "action_result \<Rightarrow> string list" where
  "result_fields r = digest_fields (Some (ar_action r)) @ digest_fields (ar_metadata r)
     @ digest_fields (ar_output_root r) @ [[char_of (unat (ar_version r))]]"

definition result_of_fields :: "string list \<Rightarrow> action_result option" where
  "result_of_fields fs =
     (case (digest_of_fields (take 4 fs), drop 12 fs) of
        (Some a, [[v]]) \<Rightarrow> Some \<lparr>ar_action = a, ar_metadata = digest_of_fields (take 4 (drop 4 fs)),
          ar_output_root = digest_of_fields (take 4 (drop 8 fs)), ar_version = of_char v\<rparr>
      | _ \<Rightarrow> None)"

definition reference_codec :: json_codec where
  "reference_codec = \<lparr>
     jc_result_to_vec = (\<lambda>r. Inr (fields_to_vec (result_fields r))),
     jc_result_from_slice = (\<lambda>b. ok_or ''invalid action result'' (result_of_fields (fields_from_slice b))),
     jc_result_to_value = (\<lambda>r. Inr (json_of_result r)),
     jc_result_from_value = (\<lambda>v. ok_or ''invalid action result'' (result_of_json v)),
     jc_manifest_to_value = (\<lambda>m. Inr (json_of_manifest m)),
     jc_manifest_from_value = (\<lambda>v. ok_or ''invalid manifest'' (manifest_of_json v))\<rparr>"

lemma unat_of_char: "unat (of_char c :: u8) = of_char c"
proof -
  have "unat (of_nat (of_char c) :: u8) = of_char c mod 256" by (rule unat_of_nat_byte)
  then show ?thesis by (simp add: of_nat_of_char)
qed

lemma char_byte [simp]: "char_of (unat (of_char c :: u8)) = c" "of_char (char_of (unat (w :: u8))) = w"
proof -
  show "char_of (unat (of_char c :: u8)) = c" by (simp only: unat_of_char char_of_char)
  have "unat (of_char (char_of (unat w)) :: u8) = unat w" by (simp only: unat_of_char of_char_of) simp
  then show "of_char (char_of (unat w)) = w" by (simp only: word_unat_eq_iff)
qed

lemma fields_round_trip: "fields_from_slice (fields_to_vec fs) = fs"
proof (induction fs rule: fields_to_vec.induct)
  case (2 fs)
  then show ?case by (cases "fields_to_vec fs") (auto elim: fields_to_vec.elims)
qed auto

lemma u8_ucast_u64: "ucast (ucast (w :: u8) :: u64) = w"
  by (rule bit_word_eqI) (auto simp: bit_unsigned_iff)

lemma digest_of_json [simp]: "digest_of_json (json_of_digest d) = Some d"
  by (simp add: digest_of_json_def json_of_digest_def json_get_def json_string_def json_u64_def)

lemma optional_of_json [simp]: "optional_of_json (json_of_optional d) = Some d"
proof (cases d)
  case (Some e)
  have "json_of_digest e \<noteq> JNull" by (simp add: json_of_digest_def)
  then show ?thesis by (simp add: Some optional_of_json_def json_of_optional_def)
qed (simp add: optional_of_json_def json_of_optional_def)

lemma result_of_json: "result_of_json (json_of_result r) = Some r"
  by (simp add: result_of_json_def json_of_result_def json_get_def json_u64_def u8_ucast_u64)

lemma prediction_of_json: "prediction_of_json (json_of_prediction p) = Some p"
  by (simp add: prediction_of_json_def json_of_prediction_def json_get_def json_string_def)

lemma option_list_predictions: "option_list (map (prediction_of_json \<circ> json_of_prediction) ps) = Some ps"
  by (induction ps) (simp_all add: prediction_of_json)

lemma manifest_of_json: "manifest_of_json (json_of_manifest m) = Some m"
  by (simp add: manifest_of_json_def json_of_manifest_def json_get_def json_string_def json_u64_def
      u8_ucast_u64 option_list_predictions)

lemma digest_of_fields [simp]: "digest_of_fields (digest_fields d) = d"
  by (cases d) (simp_all add: digest_fields_def parse_nat_to_string)

lemma length_digest_fields [simp]: "length (digest_fields d) = 4"
  by (simp add: digest_fields_def split: option.split)

lemma result_of_fields: "result_of_fields (result_fields r) = Some r"
  by (simp add: result_of_fields_def result_fields_def del: of_char_of)

lemma reference_codec_ok: "codec_ok reference_codec"
  by (simp add: codec_ok_def reference_codec_def fields_round_trip result_of_fields result_of_json
      manifest_of_json)

end
