(* ===== verification/Metadata.thy ===== *)
theory Metadata
  imports Storage Codec
begin

text \<open>
  \<open>src/metadata/mod.rs\<close> and \<open>src/metadata/memory.rs\<close>: the trait \<open>MetadataStore\<close> as a record of its
  operations over a state, with its default methods; its contract as the locale \<open>metadata_contract\<close>;
  and the in-memory store, which the locale is interpreted on. The in-memory maps are functions; their
  values are the encoded bytes the code stores, so the encoders of \<open>serde_json\<close> are parameters.
\<close>

section \<open>The trait\<close>

datatype commit_outcome = CommitCreated | CommitAlreadyExists | CommitConflict

datatype manifest_commit_outcome = ManifestCreated | ManifestUpdated | ManifestPreconditionFailed

record manifest_record =
  mr_etag :: string
  mr_manifest :: task_action_manifest

record sweep_outcome =
  so_blobs :: u64
  so_action_results :: u64
  so_manifests :: u64

record pool_stats =
  ps_max :: u32
  ps_open :: u32
  ps_idle :: nat

record 'm metadata_store =
  ms_visible_blobs :: "string \<Rightarrow> digest list \<Rightarrow> ('m, anyhow, digest list) comp"
  ms_register_blob :: "string \<Rightarrow> digest \<Rightarrow> put_outcome \<Rightarrow> ('m, anyhow, unit) comp"
  ms_forget_blob :: "string \<Rightarrow> digest \<Rightarrow> ('m, anyhow, unit) comp"
  ms_touch_blobs :: "string \<Rightarrow> digest list \<Rightarrow> ('m, anyhow, unit) comp"
  ms_get :: "string \<Rightarrow> digest \<Rightarrow> ('m, anyhow, action_result option) comp"
  ms_get_batch :: "string \<Rightarrow> digest list \<Rightarrow> ('m, anyhow, action_result list) comp"
  ms_commit :: "string \<Rightarrow> digest \<Rightarrow> action_result \<Rightarrow> ('m, anyhow, commit_outcome) comp"
  ms_get_manifest :: "string \<Rightarrow> digest \<Rightarrow> ('m, anyhow, manifest_record option) comp"
  ms_commit_manifest :: "string \<Rightarrow> digest \<Rightarrow> string option \<Rightarrow> string \<Rightarrow> task_action_manifest
      \<Rightarrow> ('m, anyhow, manifest_commit_outcome) comp"
  ms_sweep :: "u32 \<Rightarrow> ('m, anyhow, sweep_outcome) comp"
  ms_pool_stats :: "'m \<Rightarrow> pool_stats option"

text \<open>The default methods, over the operations they call.\<close>

definition blob_visible :: "(string \<Rightarrow> digest list \<Rightarrow> ('m, anyhow, digest list) comp)
    \<Rightarrow> string \<Rightarrow> digest \<Rightarrow> ('m, anyhow, bool) comp" where
  "blob_visible visible_blobs namespace d =
     bindE (visible_blobs namespace [d]) (\<lambda>ds. returnE (ds \<noteq> []))"

definition default_touch_blobs :: "string \<Rightarrow> digest list \<Rightarrow> ('m, anyhow, unit) comp" where
  "default_touch_blobs namespace ds = returnE ()"

fun get_each :: "(string \<Rightarrow> digest \<Rightarrow> ('m, anyhow, action_result option) comp)
    \<Rightarrow> string \<Rightarrow> digest list \<Rightarrow> action_result list \<Rightarrow> ('m, anyhow, action_result list) comp" where
  "get_each get namespace [] results = returnE results"
| "get_each get namespace (a # as) results =
     bindE (get namespace a) (\<lambda>r.
       get_each get namespace as (case r of None \<Rightarrow> results | Some x \<Rightarrow> results @ [x]))"

definition default_get_batch :: "(string \<Rightarrow> digest \<Rightarrow> ('m, anyhow, action_result option) comp)
    \<Rightarrow> string \<Rightarrow> digest list \<Rightarrow> ('m, anyhow, action_result list) comp" where
  "default_get_batch get namespace actions = get_each get namespace actions []"

definition default_sweep :: "u32 \<Rightarrow> ('m, anyhow, sweep_outcome) comp" where
  "default_sweep older_than_days = returnE \<lparr>so_blobs = 0, so_action_results = 0, so_manifests = 0\<rparr>"

definition default_pool_stats :: "'m \<Rightarrow> pool_stats option" where
  "default_pool_stats s = None"

section \<open>The contract\<close>

text \<open>
  \<open>visible\<close>, \<open>result\<close> and \<open>manifest\<close> are what a store lists in each namespace. Requests may fail, and
  a failed one changes nothing. \<open>fit\<close> are the digests a store can hold; results of actions may be
  dropped at any time (by a sweep), but a result is never replaced by another.
\<close>

locale metadata_contract =
  fixes S :: "'m metadata_store"
    and ok :: "'m \<Rightarrow> bool"
    and visible :: "'m \<Rightarrow> string \<Rightarrow> digest \<Rightarrow> bool"
    and result :: "'m \<Rightarrow> string \<Rightarrow> digest \<Rightarrow> action_result option"
    and manifest :: "'m \<Rightarrow> string \<Rightarrow> digest \<Rightarrow> (string \<times> task_action_manifest) option"
  assumes visible_blobs: "\<And>s ns ds r t. ok s \<Longrightarrow> ms_visible_blobs S ns ds s = (r, t) \<Longrightarrow>
      ok t \<and> visible t = visible s \<and> result t = result s \<and> manifest t = manifest s
      \<and> (\<forall>found. r = Inr found \<longrightarrow> found = filter (visible s ns) ds)"
    and register: "\<And>s ns d out r t. ok s \<Longrightarrow> ms_register_blob S ns d out s = (r, t) \<Longrightarrow>
      ok t \<and> result t = result s \<and> manifest t = manifest s
      \<and> visible t = (if r = Inr () then (visible s)(ns := (visible s ns)(d := True)) else visible s)"
    and forget: "\<And>s ns d r t. ok s \<Longrightarrow> ms_forget_blob S ns d s = (r, t) \<Longrightarrow>
      ok t \<and> result t = result s \<and> manifest t = manifest s
      \<and> visible t = (if r = Inr () then (visible s)(ns := (visible s ns)(d := False)) else visible s)"
    and touch: "\<And>s ns ds r t. ok s \<Longrightarrow> ms_touch_blobs S ns ds s = (r, t) \<Longrightarrow>
      ok t \<and> visible t = visible s \<and> result t = result s \<and> manifest t = manifest s"
    and get: "\<And>s ns a r t. ok s \<Longrightarrow> ms_get S ns a s = (r, t) \<Longrightarrow>
      ok t \<and> visible t = visible s \<and> result t = result s \<and> manifest t = manifest s
      \<and> (\<forall>found. r = Inr found \<longrightarrow> found = result s ns a)"
    and get_batch: "\<And>s ns as r t. ok s \<Longrightarrow> ms_get_batch S ns as s = (r, t) \<Longrightarrow>
      ok t \<and> visible t = visible s \<and> result t = result s \<and> manifest t = manifest s
      \<and> (\<forall>found. r = Inr found \<longrightarrow> found = List.map_filter (result s ns) as)"
    and commit: "\<And>s ns a x r t. ok s \<Longrightarrow> ms_commit S ns a x s = (r, t) \<Longrightarrow>
      ok t \<and> visible t = visible s \<and> manifest t = manifest s
      \<and> (\<forall>m b. (m, b) \<noteq> (ns, a) \<longrightarrow> result t m b = result s m b \<or> result t m b = None)
      \<and> (r = Inr CommitCreated \<longrightarrow> result t ns a = Some x)
      \<and> (r = Inr CommitAlreadyExists \<longrightarrow> result s ns a = Some x \<and> result t ns a = Some x)
      \<and> (r = Inr CommitConflict \<longrightarrow> (\<exists>y. y \<noteq> x \<and> result s ns a = Some y \<and> result t ns a = Some y))
      \<and> (r \<noteq> Inr CommitCreated \<longrightarrow> result t ns a = result s ns a \<or> result t ns a = None)"
    and get_manifest: "\<And>s ns k r t. ok s \<Longrightarrow> ms_get_manifest S ns k s = (r, t) \<Longrightarrow>
      ok t \<and> visible t = visible s \<and> result t = result s \<and> manifest t = manifest s
      \<and> (\<forall>found. r = Inr found \<longrightarrow> map_option (\<lambda>m. (mr_etag m, mr_manifest m)) found = manifest s ns k)"
    and commit_manifest: "\<And>s ns k expected etag m r t. ok s \<Longrightarrow> ms_commit_manifest S ns k expected etag m s = (r, t) \<Longrightarrow>
      ok t \<and> visible t = visible s \<and> result t = result s
      \<and> (r = Inr ManifestCreated \<longrightarrow> expected = None \<and> manifest s ns k = None)
      \<and> (r = Inr ManifestUpdated \<longrightarrow>
          (\<exists>e old. expected = Some e \<and> manifest s ns k = Some (e, old)))
      \<and> (r = Inr ManifestPreconditionFailed \<longrightarrow> map_option fst (manifest s ns k) \<noteq> expected)
      \<and> manifest t = (if r = Inr ManifestCreated \<or> r = Inr ManifestUpdated
          then (manifest s)(ns := (manifest s ns)(k \<mapsto> (etag, m))) else manifest s)"
begin

lemma blob_visible:
  assumes "ok s" and "blob_visible (ms_visible_blobs S) ns d s = (r, t)"
  shows "ok t \<and> visible t = visible s \<and> result t = result s \<and> manifest t = manifest s
    \<and> (\<forall>v. r = Inr v \<longrightarrow> v = visible s ns d)"
proof -
  obtain q u where q: "ms_visible_blobs S ns [d] s = (q, u)" by fastforce
  note frame = visible_blobs [OF assms(1) q]
  show ?thesis
  proof (cases q)
    case (Inl e)
    with assms(2) q have "r = Inl e" "t = u" by (simp_all add: blob_visible_def)
    with frame show ?thesis by simp
  next
    case (Inr found)
    with frame have "found = (if visible s ns d then [d] else [])" by simp
    with assms(2) q frame Inr show ?thesis by (cases "visible s ns d") (auto simp: blob_visible_def)
  qed
qed

text \<open>The batch and the single lookups agree.\<close>

lemma batch_agrees:
  assumes "ok s" and "ms_get_batch S ns as s = (Inr found, t)"
  shows "found = List.map_filter (result s ns) as" and "length found \<le> length as"
proof -
  show f: "found = List.map_filter (result s ns) as" using get_batch [OF assms] by blast
  show "length found \<le> length as" unfolding f map_filter_def by simp
qed

text \<open>Compare and swap: of two updates that both expect the current tag, only one can succeed.\<close>

lemma manifest_cas:
  assumes "ok s" and "etag \<noteq> e"
    and "ms_commit_manifest S ns k (Some e) etag m s = (Inr out, t)" and "out \<noteq> ManifestPreconditionFailed"
    and "ms_commit_manifest S ns k (Some e) etag' m' t = (Inr out', u)"
  shows "out' = ManifestPreconditionFailed \<and> manifest u ns k = Some (etag, m)"
proof -
  from commit_manifest [OF assms(1,3)] assms(4) have "ok t"
    and "manifest t = (manifest s)(ns := (manifest s ns)(k \<mapsto> (etag, m)))" by (cases out; simp)+
  then have t: "ok t" "manifest t ns k = Some (etag, m)" by simp_all
  show ?thesis
    using commit_manifest [OF t(1) assms(5)] t(2) assms(2) by (cases out') simp_all
qed

text \<open>A committed result is what is read until it is dropped, and it is never replaced.\<close>

lemma committed_stays:
  assumes "ok s" and "result s ns a = Some x"
    and "ms_commit S ns' a' y s = (r, t)" and "result t ns a = Some z"
  shows "z = x \<or> (ns', a') = (ns, a) \<and> r = Inr CommitCreated"
proof (cases "(ns', a') = (ns, a)")
  case False
  with commit [OF assms(1,3)] have "result t ns a = result s ns a \<or> result t ns a = None" by metis
  with assms(2,4) show ?thesis by auto
next
  case True
  show ?thesis
  proof (cases "r = Inr CommitCreated")
    case False
    with True commit [OF assms(1,3)] have "result t ns a = result s ns a \<or> result t ns a = None" by simp
    with assms(2,4) show ?thesis by auto
  qed (simp add: True)
qed

end

section \<open>The in-memory store\<close>

record memory_metadata =
  mm_entries :: "string \<times> digest \<rightharpoonup> bytes"
  mm_blobs :: "(string \<times> digest) set"
  mm_manifests :: "string \<times> digest \<rightharpoonup> string \<times> task_action_manifest"

definition memory_default :: memory_metadata where
  "memory_default = \<lparr>mm_entries = Map.empty, mm_blobs = {}, mm_manifests = Map.empty\<rparr>"

definition mem_visible_blobs :: "string \<Rightarrow> digest list \<Rightarrow> (memory_metadata, anyhow, digest list) comp" where
  "mem_visible_blobs namespace ds s = (Inr (filter (\<lambda>d. (namespace, d) \<in> mm_blobs s) ds), s)"

definition mem_register_blob :: "string \<Rightarrow> digest \<Rightarrow> put_outcome \<Rightarrow> (memory_metadata, anyhow, unit) comp" where
  "mem_register_blob namespace d outcome s = (Inr (), s\<lparr>mm_blobs := insert (namespace, d) (mm_blobs s)\<rparr>)"

definition mem_forget_blob :: "string \<Rightarrow> digest \<Rightarrow> (memory_metadata, anyhow, unit) comp" where
  "mem_forget_blob namespace d s = (Inr (), s\<lparr>mm_blobs := mm_blobs s - {(namespace, d)}\<rparr>)"

definition mem_get :: "json_codec \<Rightarrow> string \<Rightarrow> digest \<Rightarrow> (memory_metadata, anyhow, action_result option) comp" where
  "mem_get J namespace a s =
     (case mm_entries s (namespace, a) of
        None \<Rightarrow> Inr None
      | Some v \<Rightarrow> bind_r (map_err OtherError (jc_result_from_slice J v)) (\<lambda>r. Inr (Some r)), s)"

definition mem_commit :: "json_codec \<Rightarrow> string \<Rightarrow> digest \<Rightarrow> action_result
    \<Rightarrow> (memory_metadata, anyhow, commit_outcome) comp" where
  "mem_commit J namespace a r =
     bindE (liftE (map_err OtherError (jc_result_to_vec J r))) (\<lambda>encoded s.
       case mm_entries s (namespace, a) of
         None \<Rightarrow> (Inr CommitCreated, s\<lparr>mm_entries := (mm_entries s)((namespace, a) \<mapsto> encoded)\<rparr>)
       | Some existing \<Rightarrow>
           if existing = encoded then (Inr CommitAlreadyExists, s) else (Inr CommitConflict, s))"

definition mem_get_manifest :: "string \<Rightarrow> digest \<Rightarrow> (memory_metadata, anyhow, manifest_record option) comp" where
  "mem_get_manifest namespace k s =
     (Inr (map_option (\<lambda>(etag, m). \<lparr>mr_etag = etag, mr_manifest = m\<rparr>) (mm_manifests s (namespace, k))), s)"

definition mem_commit_manifest :: "string \<Rightarrow> digest \<Rightarrow> string option \<Rightarrow> string \<Rightarrow> task_action_manifest
    \<Rightarrow> (memory_metadata, anyhow, manifest_commit_outcome) comp" where
  "mem_commit_manifest namespace k expected etag m s =
     (let entry = mm_manifests s (namespace, k);
          matches = (case (entry, expected) of
              (None, None) \<Rightarrow> True
            | (Some (current, _), Some e) \<Rightarrow> current = e
            | _ \<Rightarrow> False)
      in if \<not> matches then (Inr ManifestPreconditionFailed, s)
         else (Inr (if entry \<noteq> None then ManifestUpdated else ManifestCreated),
               s\<lparr>mm_manifests := (mm_manifests s)((namespace, k) \<mapsto> (etag, m))\<rparr>))"

definition memory_store :: "json_codec \<Rightarrow> memory_metadata metadata_store" where
  "memory_store J =
     \<lparr>ms_visible_blobs = mem_visible_blobs, ms_register_blob = mem_register_blob,
      ms_forget_blob = mem_forget_blob, ms_touch_blobs = default_touch_blobs, ms_get = mem_get J,
      ms_get_batch = default_get_batch (mem_get J), ms_commit = mem_commit J,
      ms_get_manifest = mem_get_manifest, ms_commit_manifest = mem_commit_manifest,
      ms_sweep = default_sweep, ms_pool_stats = default_pool_stats\<rparr>"

definition mem_result :: "json_codec \<Rightarrow> memory_metadata \<Rightarrow> string \<Rightarrow> digest \<Rightarrow> action_result option" where
  "mem_result J s ns a =
     (case mm_entries s (ns, a) of
        None \<Rightarrow> None
      | Some v \<Rightarrow> (case jc_result_from_slice J v of Inl _ \<Rightarrow> None | Inr r \<Rightarrow> Some r))"

text \<open>Entries are only ever written by a commit.\<close>

definition memory_ok :: "json_codec \<Rightarrow> memory_metadata \<Rightarrow> bool" where
  "memory_ok J s \<longleftrightarrow> (\<forall>k v. mm_entries s k = Some v \<longrightarrow> (\<exists>r. jc_result_to_vec J r = Inr v))"

section \<open>The in-memory store keeps the contract\<close>

lemma memory_entry:
  assumes "codec_ok J" and "memory_ok J s" and "mm_entries s (ns, a) = Some v"
  obtains r where "jc_result_to_vec J r = Inr v" and "jc_result_from_slice J v = Inr r"
    and "mem_result J s ns a = Some r"
proof -
  from assms(2,3) obtain r where r: "jc_result_to_vec J r = Inr v" unfolding memory_ok_def by blast
  from assms(1) r have d: "jc_result_from_slice J v = Inr r" by (rule codec_decode)
  with assms(3) have "mem_result J s ns a = Some r" by (simp add: mem_result_def)
  with r d show thesis by (rule that)
qed

lemma mem_get_run:
  assumes "codec_ok J" and "memory_ok J s"
  shows "mem_get J ns a s = (Inr (mem_result J s ns a), s)"
proof (cases "mm_entries s (ns, a)")
  case None
  then show ?thesis by (simp add: mem_get_def mem_result_def)
next
  case (Some v)
  with assms obtain r where "jc_result_from_slice J v = Inr r" "mem_result J s ns a = Some r"
    by (rule memory_entry)
  with Some show ?thesis by (simp add: mem_get_def)
qed

lemma mem_get_each:
  assumes "codec_ok J" and "memory_ok J s"
  shows "get_each (mem_get J) ns as acc s = (Inr (acc @ List.map_filter (mem_result J s ns) as), s)"
proof (induction as arbitrary: acc)
  case Nil
  then show ?case by (simp add: List.map_filter_simps)
next
  case (Cons a as)
  have "bindE (mem_get J ns a) f s = f (mem_result J s ns a) s" for f :: "_ \<Rightarrow> (memory_metadata, anyhow, action_result list) comp"
    using mem_get_run [OF assms, of ns a] by (rule bindE_run(2))
  with Cons.IH show ?case by (cases "mem_result J s ns a") (simp_all add: List.map_filter_simps)
qed

lemma mem_commit_cases:
  assumes J: "codec_ok J" and ok: "memory_ok J s" and run: "mem_commit J ns a x s = (r, t)"
  obtains (created) b where "r = Inr CommitCreated" "mem_result J s ns a = None"
      "jc_result_to_vec J x = Inr b" "t = s\<lparr>mm_entries := (mm_entries s)((ns, a) \<mapsto> b)\<rparr>"
      "jc_result_from_slice J b = Inr x"
    | (exists) "r = Inr CommitAlreadyExists" "mem_result J s ns a = Some x" "t = s"
    | (conflict) y where "r = Inr CommitConflict" "mem_result J s ns a = Some y" "y \<noteq> x" "t = s"
proof -
  obtain b where b: "jc_result_to_vec J x = Inr b" "jc_result_from_slice J b = Inr x"
    using J by (rule codec_results)
  show thesis
  proof (cases "mm_entries s (ns, a)")
    case None
    with run b have "r = Inr CommitCreated" "t = s\<lparr>mm_entries := (mm_entries s)((ns, a) \<mapsto> b)\<rparr>"
      by (auto simp: mem_commit_def)
    moreover from None have "mem_result J s ns a = None" by (simp add: mem_result_def)
    ultimately show thesis using b by (intro created)
  next
    case (Some v)
    with J ok obtain y where y: "jc_result_to_vec J y = Inr v" "jc_result_from_slice J v = Inr y"
      "mem_result J s ns a = Some y" by (rule memory_entry)
    show thesis
    proof (cases "v = b")
      case True
      with y(2) b(2) have "y = x" by simp
      from run b Some True have "r = Inr CommitAlreadyExists" "t = s" by (auto simp: mem_commit_def)
      with y(3) \<open>y = x\<close> show thesis by (intro exists) simp_all
    next
      case False
      with b(1) y(1) have "y \<noteq> x" by auto
      from run b Some False have "r = Inr CommitConflict" "t = s" by (auto simp: mem_commit_def)
      with y(3) \<open>y \<noteq> x\<close> show thesis by (intro conflict)
    qed
  qed
qed

abbreviation memory_visible :: "memory_metadata \<Rightarrow> string \<Rightarrow> digest \<Rightarrow> bool" where
  "memory_visible s ns d \<equiv> (ns, d) \<in> mm_blobs s"

abbreviation memory_manifest :: "memory_metadata \<Rightarrow> string \<Rightarrow> digest \<Rightarrow> (string \<times> task_action_manifest) option" where
  "memory_manifest s ns k \<equiv> mm_manifests s (ns, k)"

lemma memory_frame:
  "memory_ok J (s\<lparr>mm_blobs := b\<rparr>) = memory_ok J s" "memory_ok J (s\<lparr>mm_manifests := m\<rparr>) = memory_ok J s"
  "mem_result J (s\<lparr>mm_blobs := b\<rparr>) = mem_result J s" "mem_result J (s\<lparr>mm_manifests := m\<rparr>) = mem_result J s"
  by (simp_all add: memory_ok_def mem_result_def [abs_def])

lemma mem_commit_manifest_cases:
  assumes "mem_commit_manifest ns k expected etag m s = (r, t)"
  obtains (created) "r = Inr ManifestCreated" "expected = None" "mm_manifests s (ns, k) = None"
      "t = s\<lparr>mm_manifests := (mm_manifests s)((ns, k) \<mapsto> (etag, m))\<rparr>"
    | (updated) e old where "r = Inr ManifestUpdated" "expected = Some e" "mm_manifests s (ns, k) = Some (e, old)"
      "t = s\<lparr>mm_manifests := (mm_manifests s)((ns, k) \<mapsto> (etag, m))\<rparr>"
    | (failed) "r = Inr ManifestPreconditionFailed" "map_option fst (mm_manifests s (ns, k)) \<noteq> expected" "t = s"
proof (cases "mm_manifests s (ns, k)")
  case None
  show thesis
  proof (cases expected)
    case None
    with assms \<open>mm_manifests s (ns, k) = None\<close> show thesis
      by (intro created) (auto simp: mem_commit_manifest_def)
  next
    case (Some e)
    with assms None show thesis by (intro failed) (auto simp: mem_commit_manifest_def)
  qed
next
  case (Some v)
  obtain e old where v: "v = (e, old)" by fastforce
  show thesis
  proof (cases "expected = Some e")
    case True
    with assms Some v show thesis by (intro updated [of e old]) (auto simp: mem_commit_manifest_def)
  next
    case False
    with assms Some v show thesis
      by (intro failed; cases expected) (auto simp: mem_commit_manifest_def)
  qed
qed

lemma memory_contract:
  assumes J: "codec_ok J"
  shows "metadata_contract (memory_store J) (memory_ok J) memory_visible (mem_result J) memory_manifest"
proof
  fix s :: memory_metadata and ns a x r t
  assume ok: "memory_ok J s" and "ms_commit (memory_store J) ns a x s = (r, t)"
  then have run: "mem_commit J ns a x s = (r, t)" by (simp add: memory_store_def)
  show "memory_ok J t \<and> memory_visible t = memory_visible s \<and> memory_manifest t = memory_manifest s
      \<and> (\<forall>m b. (m, b) \<noteq> (ns, a) \<longrightarrow> mem_result J t m b = mem_result J s m b \<or> mem_result J t m b = None)
      \<and> (r = Inr CommitCreated \<longrightarrow> mem_result J t ns a = Some x)
      \<and> (r = Inr CommitAlreadyExists \<longrightarrow> mem_result J s ns a = Some x \<and> mem_result J t ns a = Some x)
      \<and> (r = Inr CommitConflict \<longrightarrow>
          (\<exists>y. y \<noteq> x \<and> mem_result J s ns a = Some y \<and> mem_result J t ns a = Some y))
      \<and> (r \<noteq> Inr CommitCreated \<longrightarrow>
          mem_result J t ns a = mem_result J s ns a \<or> mem_result J t ns a = None)"
    using J ok run
  proof (cases rule: mem_commit_cases)
    case (created b)
    from ok created(3) have "memory_ok J t" by (auto simp: created(4) memory_ok_def)
    moreover have "mem_result J t m c = mem_result J s m c" if "(m, c) \<noteq> (ns, a)" for m c
      using that by (auto simp: created(4) mem_result_def)
    moreover have "mem_result J t ns a = Some x" by (simp add: created(4,5) mem_result_def)
    ultimately show ?thesis by (simp add: created(1,4))
  qed (use ok in simp_all)
next
  fix s :: memory_metadata and ns k expected etag m r t
  assume ok: "memory_ok J s" and "ms_commit_manifest (memory_store J) ns k expected etag m s = (r, t)"
  then have run: "mem_commit_manifest ns k expected etag m s = (r, t)" by (simp add: memory_store_def)
  show "memory_ok J t \<and> memory_visible t = memory_visible s \<and> mem_result J t = mem_result J s
      \<and> (r = Inr ManifestCreated \<longrightarrow> expected = None \<and> memory_manifest s ns k = None)
      \<and> (r = Inr ManifestUpdated \<longrightarrow>
          (\<exists>e old. expected = Some e \<and> memory_manifest s ns k = Some (e, old)))
      \<and> (r = Inr ManifestPreconditionFailed \<longrightarrow> map_option fst (memory_manifest s ns k) \<noteq> expected)
      \<and> memory_manifest t = (if r = Inr ManifestCreated \<or> r = Inr ManifestUpdated
          then (memory_manifest s)(ns := (memory_manifest s ns)(k \<mapsto> (etag, m))) else memory_manifest s)"
    using run by (cases rule: mem_commit_manifest_cases) (use ok in \<open>auto simp: memory_frame fun_eq_iff\<close>)
next
  fix s :: memory_metadata and ns as r t
  assume ok: "memory_ok J s" and "ms_get_batch (memory_store J) ns as s = (r, t)"
  then show "memory_ok J t \<and> memory_visible t = memory_visible s \<and> mem_result J t = mem_result J s
      \<and> memory_manifest t = memory_manifest s
      \<and> (\<forall>found. r = Inr found \<longrightarrow> found = List.map_filter (mem_result J s ns) as)"
    using mem_get_each [OF J ok] by (auto simp: memory_store_def default_get_batch_def)
next
  fix s :: memory_metadata and ns a r t
  assume ok: "memory_ok J s" and "ms_get (memory_store J) ns a s = (r, t)"
  then show "memory_ok J t \<and> memory_visible t = memory_visible s \<and> mem_result J t = mem_result J s
      \<and> memory_manifest t = memory_manifest s \<and> (\<forall>found. r = Inr found \<longrightarrow> found = mem_result J s ns a)"
    using mem_get_run [OF J ok] by (auto simp: memory_store_def)
next
  fix s :: memory_metadata and ns k r t
  assume ok: "memory_ok J s" and "ms_get_manifest (memory_store J) ns k s = (r, t)"
  then have "r = Inr (map_option (\<lambda>(etag, m). \<lparr>mr_etag = etag, mr_manifest = m\<rparr>) (memory_manifest s ns k))"
    and "t = s" by (auto simp: memory_store_def mem_get_manifest_def)
  with ok show "memory_ok J t \<and> memory_visible t = memory_visible s \<and> mem_result J t = mem_result J s
      \<and> memory_manifest t = memory_manifest s
      \<and> (\<forall>found. r = Inr found \<longrightarrow> map_option (\<lambda>m. (mr_etag m, mr_manifest m)) found = memory_manifest s ns k)"
    by (cases "memory_manifest s ns k") auto
next
  fix s :: memory_metadata and ns d r t and out :: put_outcome
  assume ok: "memory_ok J s" and "ms_register_blob (memory_store J) ns d out s = (r, t)"
  then have "r = Inr ()" and t: "t = s\<lparr>mm_blobs := insert (ns, d) (mm_blobs s)\<rparr>"
    by (auto simp: memory_store_def mem_register_blob_def)
  with ok show "memory_ok J t \<and> mem_result J t = mem_result J s \<and> memory_manifest t = memory_manifest s
      \<and> memory_visible t = (if r = Inr () then (memory_visible s)(ns := (memory_visible s ns)(d := True))
          else memory_visible s)"
    by (auto simp: memory_frame fun_eq_iff)
next
  fix s :: memory_metadata and ns d r t
  assume ok: "memory_ok J s" and "ms_forget_blob (memory_store J) ns d s = (r, t)"
  then have "r = Inr ()" and t: "t = s\<lparr>mm_blobs := mm_blobs s - {(ns, d)}\<rparr>"
    by (auto simp: memory_store_def mem_forget_blob_def)
  with ok show "memory_ok J t \<and> mem_result J t = mem_result J s \<and> memory_manifest t = memory_manifest s
      \<and> memory_visible t = (if r = Inr () then (memory_visible s)(ns := (memory_visible s ns)(d := False))
          else memory_visible s)"
    by (auto simp: memory_frame fun_eq_iff)
qed (auto simp: memory_store_def mem_visible_blobs_def default_touch_blobs_def)

interpretation memory: metadata_contract "memory_store reference_codec" "memory_ok reference_codec"
    memory_visible "mem_result reference_codec" memory_manifest
  by (rule memory_contract [OF reference_codec_ok])

section \<open>Any sequence of requests\<close>

text \<open>One request to a store, by any client; \<open>served\<close> is any number of them.\<close>

inductive store_step :: "'m metadata_store \<Rightarrow> 'm \<Rightarrow> 'm \<Rightarrow> bool" for S where
  visible_blobs: "ms_visible_blobs S ns ds s = (r, t) \<Longrightarrow> store_step S s t"
| register: "ms_register_blob S ns d out s = (r', t) \<Longrightarrow> store_step S s t"
| forget: "ms_forget_blob S ns d s = (r', t) \<Longrightarrow> store_step S s t"
| touch: "ms_touch_blobs S ns ds s = (r', t) \<Longrightarrow> store_step S s t"
| get: "ms_get S ns a s = (found, t) \<Longrightarrow> store_step S s t"
| get_batch: "ms_get_batch S ns ds s = (batch, t) \<Longrightarrow> store_step S s t"
| commit: "ms_commit S ns a x s = (outcome, t) \<Longrightarrow> store_step S s t"
| get_manifest: "ms_get_manifest S ns a s = (m, t) \<Longrightarrow> store_step S s t"
| commit_manifest: "ms_commit_manifest S ns a expected etag new s = (mo, t) \<Longrightarrow> store_step S s t"

inductive served :: "'m metadata_store \<Rightarrow> 'm \<Rightarrow> 'm \<Rightarrow> bool" for S where
  none: "served S s s"
| more: "served S s t \<Longrightarrow> store_step S t u \<Longrightarrow> served S s u"

lemma memory_step:
  assumes J: "codec_ok J" and ok: "memory_ok J s" and step: "store_step (memory_store J) s t"
  shows "memory_ok J t" and "mem_result J s ns a = Some x \<Longrightarrow> mem_result J t ns a = Some x"
proof -
  note contract = memory_contract [OF J]
  from step have "memory_ok J t \<and> (mem_result J s ns a = Some x \<longrightarrow> mem_result J t ns a = Some x)"
  proof cases
    case (commit ns' a' y r)
    then have "mem_commit J ns' a' y s = (r, t)" by (simp add: memory_store_def)
    with J ok show ?thesis
    proof (cases rule: mem_commit_cases)
      case (created b)
      with ok show ?thesis by (auto simp: memory_ok_def mem_result_def)
    qed (simp_all add: ok)
  qed (use metadata_contract.visible_blobs [OF contract ok] metadata_contract.register [OF contract ok]
      metadata_contract.forget [OF contract ok] metadata_contract.touch [OF contract ok]
      metadata_contract.get [OF contract ok] metadata_contract.get_batch [OF contract ok]
      metadata_contract.get_manifest [OF contract ok] metadata_contract.commit_manifest [OF contract ok]
      in \<open>metis+\<close>)
  then show "memory_ok J t" and "mem_result J s ns a = Some x \<Longrightarrow> mem_result J t ns a = Some x" by blast+
qed

lemma memory_served:
  assumes "codec_ok J" and "served (memory_store J) s t" and "memory_ok J s"
  shows "memory_ok J t \<and> (mem_result J s ns a = Some x \<longrightarrow> mem_result J t ns a = Some x)"
  using assms(2,3)
proof induction
  case (more s t u)
  from more.IH [OF more.prems] have t: "memory_ok J t"
    and keep: "mem_result J s ns a = Some x \<longrightarrow> mem_result J t ns a = Some x" by blast+
  from memory_step [OF assms(1) t more.hyps(2)] keep show ?case by blast
qed simp

section \<open>Properties of the in-memory store\<close>

text \<open>
  C12. An action result is immutable: once a commit of it succeeded, whatever requests follow, reading
  the action returns that result, committing it again is acknowledged without a change, and committing
  any other result is a conflict.
\<close>

theorem memory_result_immutable:
  assumes "codec_ok J" and "memory_ok J s"
    and "ms_commit (memory_store J) ns a x s = (Inr out, t)" and "out \<noteq> CommitConflict"
    and "served (memory_store J) t u"
  shows "fst (ms_get (memory_store J) ns a u) = Inr (Some x)
    \<and> ms_commit (memory_store J) ns a y u = (Inr (if y = x then CommitAlreadyExists else CommitConflict), u)"
proof -
  from assms(3) have run: "mem_commit J ns a x s = (Inr out, t)" by (simp add: memory_store_def)
  have "memory_ok J t" using memory_step(1) [OF assms(1,2) store_step.commit [OF assms(3)]] .
  moreover have "mem_result J t ns a = Some x"
    using assms(1,2) run by (cases rule: mem_commit_cases) (use assms(4) in \<open>simp_all add: mem_result_def\<close>)
  ultimately have u: "memory_ok J u" "mem_result J u ns a = Some x"
    using memory_served [OF assms(1,5)] by blast+
  obtain r w where w: "mem_commit J ns a y u = (r, w)" by fastforce
  with assms(1) u(1) have "w = u \<and> r = Inr (if y = x then CommitAlreadyExists else CommitConflict)"
    by (cases rule: mem_commit_cases) (use u(2) in simp_all)
  with w mem_get_run [OF assms(1) u(1)] u(2) show ?thesis by (simp add: memory_store_def)
qed

definition sample_result :: action_result where
  "sample_result = \<lparr>ar_action = sample_blake, ar_metadata = None, ar_output_root = Some sample_blake, ar_version = 1\<rparr>"

lemma memory_default_ok: "memory_ok J memory_default"
  by (simp add: memory_ok_def memory_default_def)

lemma sample_commit:
  obtains t where "ms_commit (memory_store reference_codec) ns sample_blake sample_result memory_default
      = (Inr CommitCreated, t)" and "memory_ok reference_codec t"
proof -
  obtain r t where run: "mem_commit reference_codec ns sample_blake sample_result memory_default = (r, t)" by fastforce
  from reference_codec_ok memory_default_ok this have "r = Inr CommitCreated"
    by (cases rule: mem_commit_cases) (simp_all add: mem_result_def memory_default_def)
  with run have s: "ms_commit (memory_store reference_codec) ns sample_blake sample_result memory_default
      = (Inr CommitCreated, t)" by (simp add: memory_store_def)
  from memory_step(1) [OF reference_codec_ok memory_default_ok store_step.commit [OF s]] s show thesis by (intro that)
qed

theorem memory_result_immutable_witness:
  "\<exists>t. ms_commit (memory_store reference_codec) ''org'' sample_blake sample_result memory_default
      = (Inr CommitCreated, t)
    \<and> ms_commit (memory_store reference_codec) ''org'' sample_blake (sample_result\<lparr>ar_version := 2\<rparr>) t
      = (Inr CommitConflict, t)"
proof -
  obtain t where t: "ms_commit (memory_store reference_codec) ''org'' sample_blake sample_result memory_default
      = (Inr CommitCreated, t)" by (rule sample_commit)
  from memory_result_immutable [OF reference_codec_ok memory_default_ok t _ served.none,
      where y = "sample_result\<lparr>ar_version := 2\<rparr>"] t
  show ?thesis by (simp add: sample_result_def)
qed


definition sample_manifest :: task_action_manifest where
  "sample_manifest = \<lparr>tm_predictions = [], tm_task = ''build'', tm_version = 1\<rparr>"

definition memory_tagged :: memory_metadata where
  "memory_tagged = memory_default\<lparr>mm_manifests := [(''org'', sample_blake) \<mapsto> (''a'', sample_manifest)]\<rparr>"


end
