(* ===== verification/Postgres.thy ===== *)
theory Postgres
  imports Metadata
begin

text \<open>
  \<open>src/metadata/postgres.rs\<close>: the metadata store over PostgreSQL, with the tables of \<open>src/migrations\<close>.
  The statements the code sends are SQL text; each is a function of the time and the tables, a table
  being the list of its rows under their primary keys. The server and \<open>sqlx\<close> enter as the environment
  \<open>pg_turns\<close>: for each next statement how much time passes before it runs and whether it fails (no
  connection, a time-out, an evaluation error), in which case it has no effect. Times are microseconds,
  and a day is 24 hours. Requests run one after another. \<open>json_codec\<close> is \<open>serde_json\<close>; that \<open>jsonb\<close>
  reorders the fields of an object cannot be observed by it.
\<close>

section \<open>Tables\<close>

type_synonym row_key = "string \<times> string \<times> string \<times> int"

record result_row =
  rr_result :: json
  rr_created_at :: int

record blob_row =
  br_created_at :: int
  br_last_accessed_at :: int

record manifest_row =
  mw_etag :: string
  mw_manifest :: json
  mw_created_at :: int
  mw_updated_at :: int

record database =
  db_action_results :: "(row_key \<times> result_row) list"
  db_namespace_blobs :: "(row_key \<times> blob_row) list"
  db_action_manifests :: "(row_key \<times> manifest_row) list"

record postgres =
  pg_tables :: database
  pg_now :: int
  pg_turns :: "(nat \<times> anyhow option) list"
  pg_pool :: pool_stats

text \<open>The \<open>CHECK\<close> constraints of the tables.\<close>

definition constraint_error :: anyhow where
  "constraint_error = OtherError ''new row violates a check constraint''"

definition blob_row_allowed :: "row_key \<Rightarrow> bool" where
  "blob_row_allowed = (\<lambda>(ns, algorithm, hash, sz). (algorithm = ''blake3'' \<or> algorithm = ''sha256'') \<and> 0 \<le> sz)"

definition result_row_allowed :: "row_key \<Rightarrow> bool" where
  "result_row_allowed = (\<lambda>(ns, algorithm, hash, sz). (algorithm = ''blake3'' \<or> algorithm = ''sha256'') \<and> 0 \<le> sz)"

definition manifest_row_allowed :: "row_key \<Rightarrow> bool" where
  "manifest_row_allowed = (\<lambda>(ns, algorithm, hash, sz). algorithm = ''blake3'' \<and> 0 \<le> sz)"

text \<open>The values the statements bind for a digest; \<open>digest.size as i64\<close> wraps.\<close>

definition key_of :: "string \<Rightarrow> digest \<Rightarrow> row_key" where
  "key_of namespace d = (namespace, d_algorithm d, d_hash d, sint (d_size d))"

definition representable_digests :: "digest list \<Rightarrow> (digest \<times> int) list" where
  "representable_digests ds =
     List.map_filter (\<lambda>d. if unat (d_size d) < 2 ^ 63 then Some (d, int (unat (d_size d))) else None) ds"

definition requested_keys :: "string \<Rightarrow> (digest \<times> int) list \<Rightarrow> row_key list" where
  "requested_keys namespace digests = map (\<lambda>(d, sz). (namespace, d_algorithm d, d_hash d, sz)) digests"

section \<open>Statements\<close>

definition turn :: "(postgres, anyhow, unit) comp" where
  "turn w =
     (case pg_turns w of
        [] \<Rightarrow> (Inr (), w)
      | (t, fault) # ts \<Rightarrow>
          (case fault of None \<Rightarrow> Inr () | Some e \<Rightarrow> Inl e, w\<lparr>pg_now := pg_now w + int t, pg_turns := ts\<rparr>))"

definition fetch :: "(database \<Rightarrow> 'a) \<Rightarrow> (postgres, anyhow, 'a) comp" where
  "fetch q = bindE turn (\<lambda>_ w. (Inr (q (pg_tables w)), w))"

definition execute :: "(int \<Rightarrow> database \<Rightarrow> anyhow + 'a \<times> database) \<Rightarrow> (postgres, anyhow, 'a) comp" where
  "execute q = bindE turn (\<lambda>_ w.
     case q (pg_now w) (pg_tables w) of
       Inl e \<Rightarrow> (Inl e, w)
     | Inr (x, db) \<Rightarrow> (Inr x, w\<lparr>pg_tables := db\<rparr>))"

section \<open>Blobs\<close>

text \<open>\<open>SELECT requested.ordinality FROM UNNEST(...) WITH ORDINALITY JOIN namespace_blobs\<close>.\<close>

definition select_ordinals :: "row_key list \<Rightarrow> database \<Rightarrow> int list" where
  "select_ordinals keys db =
     concat (map (\<lambda>(i, k). map (\<lambda>_. int i) (filter (\<lambda>(k', _). k' = k) (db_namespace_blobs db)))
       (enumerate 1 keys))"

fun digests_at :: "(digest \<times> int) list \<Rightarrow> int list \<Rightarrow> anyhow + digest list" where
  "digests_at digests [] = Inr []"
| "digests_at digests (ordinal # rows) =
     (if ordinal - 1 < 0 then Inl (OtherError ''out of range integral type conversion attempted'')
      else if nat (ordinal - 1) < length digests
      then bind_r (digests_at digests rows) (\<lambda>ds. Inr (fst (digests ! nat (ordinal - 1)) # ds))
      else Inl (OtherError ''database returned an invalid blob ordinal''))"

definition pg_visible_blobs :: "string \<Rightarrow> digest list \<Rightarrow> (postgres, anyhow, digest list) comp" where
  "pg_visible_blobs namespace ds =
     (let digests = representable_digests ds in
      if digests = [] then returnE []
      else
        bindE (fetch (select_ordinals (requested_keys namespace digests))) (\<lambda>rows.
        liftE (digests_at digests rows)))"

text \<open>\<open>INSERT INTO namespace_blobs ... ON CONFLICT DO UPDATE\<close>.\<close>

definition upsert_blob :: "row_key \<Rightarrow> bool \<Rightarrow> int \<Rightarrow> database \<Rightarrow> anyhow + unit \<times> database" where
  "upsert_blob k created now db =
     (if \<not> blob_row_allowed k then Inl constraint_error
      else Inr ((), db\<lparr>db_namespace_blobs :=
        if k \<in> fst ` set (db_namespace_blobs db)
        then map (\<lambda>(k', row). (k', if k' = k
             then row\<lparr>br_created_at := if created then now else br_created_at row, br_last_accessed_at := now\<rparr>
             else row)) (db_namespace_blobs db)
        else db_namespace_blobs db @ [(k, \<lparr>br_created_at = now, br_last_accessed_at = now\<rparr>)]\<rparr>))"

definition pg_register_blob :: "string \<Rightarrow> digest \<Rightarrow> put_outcome \<Rightarrow> (postgres, anyhow, unit) comp" where
  "pg_register_blob namespace d outcome = execute (upsert_blob (key_of namespace d) (outcome = Created))"

text \<open>\<open>DELETE FROM namespace_blobs\<close>.\<close>

definition delete_blob :: "row_key \<Rightarrow> int \<Rightarrow> database \<Rightarrow> anyhow + unit \<times> database" where
  "delete_blob k now db =
     Inr ((), db\<lparr>db_namespace_blobs := filter (\<lambda>(k', _). k' \<noteq> k) (db_namespace_blobs db)\<rparr>)"

definition pg_forget_blob :: "string \<Rightarrow> digest \<Rightarrow> (postgres, anyhow, unit) comp" where
  "pg_forget_blob namespace d = execute (delete_blob (key_of namespace d))"

text \<open>\<open>UPDATE namespace_blobs SET last_accessed_at = now() ... AND last_accessed_at < now() - '1 hour'\<close>.\<close>

definition access_refresh_interval :: int where "access_refresh_interval = 60 * 60 * 1000000"

definition update_accesses :: "row_key list \<Rightarrow> int \<Rightarrow> database \<Rightarrow> anyhow + unit \<times> database" where
  "update_accesses keys now db =
     Inr ((), db\<lparr>db_namespace_blobs := map (\<lambda>(k, row). (k,
        if k \<in> set keys \<and> br_last_accessed_at row < now - access_refresh_interval
        then row\<lparr>br_last_accessed_at := now\<rparr> else row)) (db_namespace_blobs db)\<rparr>)"

definition pg_touch_blobs :: "string \<Rightarrow> digest list \<Rightarrow> (postgres, anyhow, unit) comp" where
  "pg_touch_blobs namespace ds =
     (let digests = representable_digests ds in
      if digests = [] then returnE () else execute (update_accesses (requested_keys namespace digests)))"

section \<open>Action results\<close>

definition select_result :: "row_key \<Rightarrow> database \<Rightarrow> json option" where
  "select_result k db = map_option rr_result (map_of (db_action_results db) k)"

definition pg_get :: "json_codec \<Rightarrow> string \<Rightarrow> digest \<Rightarrow> (postgres, anyhow, action_result option) comp" where
  "pg_get J namespace a =
     bindE (fetch (select_result (key_of namespace a))) (\<lambda>row.
     liftE (case row of
        None \<Rightarrow> Inr None
      | Some v \<Rightarrow> bind_r (map_err OtherError (jc_result_from_value J v)) (\<lambda>r. Inr (Some r))))"

text \<open>One scalar subquery for each requested key, in the order of the request.\<close>

definition select_results :: "row_key list \<Rightarrow> database \<Rightarrow> json option list" where
  "select_results keys db = map (\<lambda>k. select_result k db) keys"

fun decode_results :: "json_codec \<Rightarrow> json option list \<Rightarrow> anyhow + action_result list" where
  "decode_results J [] = Inr []"
| "decode_results J (None # rows) = decode_results J rows"
| "decode_results J (Some v # rows) =
     bind_r (map_err OtherError (jc_result_from_value J v)) (\<lambda>r.
     bind_r (decode_results J rows) (\<lambda>rs. Inr (r # rs)))"

definition pg_get_batch :: "json_codec \<Rightarrow> string \<Rightarrow> digest list \<Rightarrow> (postgres, anyhow, action_result list) comp" where
  "pg_get_batch J namespace ds =
     (let actions = representable_digests ds in
      if actions = [] then returnE []
      else
        bindE (fetch (select_results (requested_keys namespace actions))) (\<lambda>rows.
        liftE (decode_results J rows)))"

text \<open>\<open>INSERT INTO action_results ... ON CONFLICT DO NOTHING\<close>, with the rows affected.\<close>

definition insert_result :: "row_key \<Rightarrow> json \<Rightarrow> int \<Rightarrow> database \<Rightarrow> anyhow + u64 \<times> database" where
  "insert_result k v now db =
     (if \<not> result_row_allowed k then Inl constraint_error
      else if k \<in> fst ` set (db_action_results db) then Inr (0, db)
      else Inr (1, db\<lparr>db_action_results :=
        db_action_results db @ [(k, \<lparr>rr_result = v, rr_created_at = now\<rparr>)]\<rparr>))"

definition pg_commit :: "json_codec \<Rightarrow> string \<Rightarrow> digest \<Rightarrow> action_result
    \<Rightarrow> (postgres, anyhow, commit_outcome) comp" where
  "pg_commit J namespace a r =
     bindE (liftE (map_err OtherError (jc_result_to_value J r))) (\<lambda>encoded.
     bindE (execute (insert_result (key_of namespace a) encoded)) (\<lambda>inserted.
     if inserted = 1 then returnE CommitCreated
     else
       bindE (pg_get J namespace a) (\<lambda>found.
       bindE (liftE (ok_or (OtherError ''action result disappeared after conflict'') found)) (\<lambda>existing.
       bindE (liftE (map_err OtherError (jc_result_to_value J existing))) (\<lambda>v.
       returnE (if v = encoded then CommitAlreadyExists else CommitConflict))))))"

section \<open>Manifests\<close>

definition select_manifest :: "row_key \<Rightarrow> database \<Rightarrow> manifest_row option" where
  "select_manifest k db = map_of (db_action_manifests db) k"

definition pg_get_manifest :: "json_codec \<Rightarrow> string \<Rightarrow> digest \<Rightarrow> (postgres, anyhow, manifest_record option) comp" where
  "pg_get_manifest J namespace k =
     bindE (fetch (select_manifest (key_of namespace k))) (\<lambda>row.
     liftE (case row of
        None \<Rightarrow> Inr None
      | Some row \<Rightarrow> bind_r (map_err OtherError (jc_manifest_from_value J (mw_manifest row))) (\<lambda>m.
          Inr (Some \<lparr>mr_etag = mw_etag row, mr_manifest = m\<rparr>))))"

text \<open>\<open>UPDATE action_manifests ... AND etag = $7\<close>, and \<open>INSERT ... ON CONFLICT DO NOTHING\<close>.\<close>

definition update_manifest :: "row_key \<Rightarrow> string \<Rightarrow> string \<Rightarrow> json \<Rightarrow> int \<Rightarrow> database \<Rightarrow> anyhow + u64 \<times> database" where
  "update_manifest k expected etag v now db =
     (let hit = (\<lambda>(k', row). k' = k \<and> mw_etag row = expected) in
      Inr (of_nat (length (filter hit (db_action_manifests db))),
        db\<lparr>db_action_manifests := map (\<lambda>r. if hit r
           then (fst r, (snd r)\<lparr>mw_etag := etag, mw_manifest := v, mw_updated_at := now\<rparr>) else r)
           (db_action_manifests db)\<rparr>))"

definition insert_manifest :: "row_key \<Rightarrow> string \<Rightarrow> json \<Rightarrow> int \<Rightarrow> database \<Rightarrow> anyhow + u64 \<times> database" where
  "insert_manifest k etag v now db =
     (if \<not> manifest_row_allowed k then Inl constraint_error
      else if k \<in> fst ` set (db_action_manifests db) then Inr (0, db)
      else Inr (1, db\<lparr>db_action_manifests := db_action_manifests db
        @ [(k, \<lparr>mw_etag = etag, mw_manifest = v, mw_created_at = now, mw_updated_at = now\<rparr>)]\<rparr>))"

definition pg_commit_manifest :: "json_codec \<Rightarrow> string \<Rightarrow> digest \<Rightarrow> string option \<Rightarrow> string \<Rightarrow> task_action_manifest
    \<Rightarrow> (postgres, anyhow, manifest_commit_outcome) comp" where
  "pg_commit_manifest J namespace k expected etag m =
     bindE (liftE (map_err OtherError (jc_manifest_to_value J m))) (\<lambda>v.
     bindE (case expected of
         Some e \<Rightarrow> execute (update_manifest (key_of namespace k) e etag v)
       | None \<Rightarrow> execute (insert_manifest (key_of namespace k) etag v)) (\<lambda>rows.
     returnE (if rows = 0 then ManifestPreconditionFailed
       else if expected \<noteq> None then ManifestUpdated
       else ManifestCreated)))"

section \<open>Sweeping\<close>

text \<open>
  \<open>DELETE FROM action_results\<close> of those whose metadata or output root is an object that no row of
  \<open>namespace_blobs\<close> lists. The column holds encoded results only, whose digests have texts for their
  algorithm and hash and a number for their size. A size that is no \<open>bigint\<close> matches no row; if the
  server evaluates the cast of one, the statement fails, which is one of the faults of \<open>pg_turns\<close>.
\<close>

definition json_text :: "json option \<Rightarrow> string option" where
  "json_text v = (case v of Some (JString s) \<Rightarrow> Some s | _ \<Rightarrow> None)"

definition json_bigint :: "json option \<Rightarrow> int option" where
  "json_bigint v =
     (case v of Some (JNumber (PosInt n)) \<Rightarrow> if unat n < 2 ^ 63 then Some (int (unat n)) else None
      | _ \<Rightarrow> None)"

definition is_object :: "json \<Rightarrow> bool" where
  "is_object v = (case v of JObject _ \<Rightarrow> True | _ \<Rightarrow> False)"

definition lists_reference :: "string \<Rightarrow> json \<Rightarrow> row_key \<Rightarrow> bool" where
  "lists_reference namespace v = (\<lambda>(ns, algorithm, hash, sz).
     ns = namespace \<and> json_text (json_get v ''algorithm'') = Some algorithm
     \<and> json_text (json_get v ''hash'') = Some hash \<and> json_bigint (json_get v ''size'') = Some sz)"

definition dangling :: "(row_key \<times> blob_row) list \<Rightarrow> row_key \<times> result_row \<Rightarrow> bool" where
  "dangling blobs = (\<lambda>((namespace, _), row).
     list_ex (\<lambda>field. case json_get (rr_result row) field of
         None \<Rightarrow> False
       | Some v \<Rightarrow> is_object v \<and> \<not> list_ex (\<lambda>(k, _). lists_reference namespace v k) blobs)
       [''metadata'', ''output_root''])"

definition sweep_age :: "u32 \<Rightarrow> int" where
  "sweep_age older_than_days = uint older_than_days * (24 * 60 * 60 * 1000000)"

definition delete_old_blobs :: "int \<Rightarrow> int \<Rightarrow> database \<Rightarrow> u64 \<times> database" where
  "delete_old_blobs age now db =
     (let old = (\<lambda>(k, row). br_created_at row < now - age) in
      (of_nat (length (filter old (db_namespace_blobs db))),
       db\<lparr>db_namespace_blobs := filter (\<lambda>r. \<not> old r) (db_namespace_blobs db)\<rparr>))"

definition delete_dangling_results :: "database \<Rightarrow> u64 \<times> database" where
  "delete_dangling_results db =
     (let gone = dangling (db_namespace_blobs db) in
      (of_nat (length (filter gone (db_action_results db))),
       db\<lparr>db_action_results := filter (\<lambda>r. \<not> gone r) (db_action_results db)\<rparr>))"

definition delete_old_manifests :: "int \<Rightarrow> int \<Rightarrow> database \<Rightarrow> u64 \<times> database" where
  "delete_old_manifests age now db =
     (let old = (\<lambda>(k, row). mw_updated_at row < now - age) in
      (of_nat (length (filter old (db_action_manifests db))),
       db\<lparr>db_action_manifests := filter (\<lambda>r. \<not> old r) (db_action_manifests db)\<rparr>))"

text \<open>
  The transaction works on its own copy of the tables, with the time it began; only \<open>COMMIT\<close> makes the
  copy the database, and an error on the way drops it.
\<close>

definition begin_transaction :: "(postgres, anyhow, int \<times> database) comp" where
  "begin_transaction = bindE turn (\<lambda>_ w. (Inr (pg_now w, pg_tables w), w))"

definition commit_transaction :: "database \<Rightarrow> (postgres, anyhow, unit) comp" where
  "commit_transaction db = bindE turn (\<lambda>_. modifyE (\<lambda>w. w\<lparr>pg_tables := db\<rparr>))"

definition pg_sweep :: "u32 \<Rightarrow> (postgres, anyhow, sweep_outcome) comp" where
  "pg_sweep older_than_days =
     (let age = sweep_age older_than_days in
     bindE begin_transaction (\<lambda>(now, db).
     bindE turn (\<lambda>_. case delete_old_blobs age now db of (blobs, db) \<Rightarrow>
     bindE turn (\<lambda>_. case delete_dangling_results db of (action_results, db) \<Rightarrow>
     bindE turn (\<lambda>_. case delete_old_manifests age now db of (manifests, db) \<Rightarrow>
     bindE (commit_transaction db) (\<lambda>_.
     returnE \<lparr>so_blobs = blobs, so_action_results = action_results, so_manifests = manifests\<rparr>))))))"

definition pg_pool_stats :: "postgres \<Rightarrow> pool_stats option" where
  "pg_pool_stats w = Some (pg_pool w)"

definition postgres_store :: "json_codec \<Rightarrow> postgres metadata_store" where
  "postgres_store J =
     \<lparr>ms_visible_blobs = pg_visible_blobs, ms_register_blob = pg_register_blob,
      ms_forget_blob = pg_forget_blob, ms_touch_blobs = pg_touch_blobs, ms_get = pg_get J,
      ms_get_batch = pg_get_batch J, ms_commit = pg_commit J, ms_get_manifest = pg_get_manifest J,
      ms_commit_manifest = pg_commit_manifest J, ms_sweep = pg_sweep, ms_pool_stats = pg_pool_stats\<rparr>"

section \<open>What the tables list\<close>

definition db_visible :: "database \<Rightarrow> string \<Rightarrow> digest \<Rightarrow> bool" where
  "db_visible db ns d \<longleftrightarrow> key_of ns d \<in> fst ` set (db_namespace_blobs db)"

definition db_result :: "json_codec \<Rightarrow> database \<Rightarrow> string \<Rightarrow> digest \<Rightarrow> action_result option" where
  "db_result J db ns a =
     (case select_result (key_of ns a) db of
        None \<Rightarrow> None
      | Some v \<Rightarrow> (case jc_result_from_value J v of Inl _ \<Rightarrow> None | Inr r \<Rightarrow> Some r))"

definition db_manifest :: "json_codec \<Rightarrow> database \<Rightarrow> string \<Rightarrow> digest \<Rightarrow> (string \<times> task_action_manifest) option" where
  "db_manifest J db ns k =
     (case select_manifest (key_of ns k) db of
        None \<Rightarrow> None
      | Some row \<Rightarrow> (case jc_manifest_from_value J (mw_manifest row) of
          Inl _ \<Rightarrow> None | Inr m \<Rightarrow> Some (mw_etag row, m)))"

text \<open>Primary keys are unique, every row keeps the constraints, and the values are encodings.\<close>

definition blobs_ok :: "(row_key \<times> blob_row) list \<Rightarrow> bool" where
  "blobs_ok blobs \<longleftrightarrow> distinct (map fst blobs) \<and> (\<forall>(k, row) \<in> set blobs. blob_row_allowed k)"

definition results_ok :: "json_codec \<Rightarrow> (row_key \<times> result_row) list \<Rightarrow> bool" where
  "results_ok J results \<longleftrightarrow> distinct (map fst results)
     \<and> (\<forall>(k, row) \<in> set results. result_row_allowed k \<and> (\<exists>r. jc_result_to_value J r = Inr (rr_result row)))"

definition manifests_ok :: "json_codec \<Rightarrow> (row_key \<times> manifest_row) list \<Rightarrow> bool" where
  "manifests_ok J manifests \<longleftrightarrow> distinct (map fst manifests)
     \<and> (\<forall>(k, row) \<in> set manifests. manifest_row_allowed k \<and> (\<exists>m. jc_manifest_to_value J m = Inr (mw_manifest row)))"

definition tables_ok :: "json_codec \<Rightarrow> database \<Rightarrow> bool" where
  "tables_ok J db \<longleftrightarrow> blobs_ok (db_namespace_blobs db) \<and> results_ok J (db_action_results db)
     \<and> manifests_ok J (db_action_manifests db)"

section \<open>Keys and statements\<close>

lemma sint_size:
  fixes w :: u64
  shows "unat w < 2 ^ 63 \<Longrightarrow> sint w = int (unat w)" and "0 \<le> sint w \<longleftrightarrow> unat w < 2 ^ 63"
proof -
  have s: "sint w = signed_take_bit 63 (uint w)" by (simp add: sint_uint)
  have n: "unat w < 2 ^ 63 \<longleftrightarrow> uint w < 2 ^ 63" 
    using of_nat_less_iff [of "unat w" "2 ^ 63", where ?'a = int] by simp
  have u: "uint w < 18446744073709551616" using unsigned_less [of w, where ?'a = int] by simp
  have "uint w div 9223372036854775808 = 1" if "\<not> uint w < 9223372036854775808"
    using that u by (intro int_div_pos_eq [where r = "uint w - 9223372036854775808"]) simp_all
  then have e: "signed_take_bit 63 (uint w) = (if uint w < 2 ^ 63 then uint w else uint w - 2 ^ 64)"
    using u by (simp add: signed_take_bit_eq_take_bit_minus bit_iff_odd take_bit_int_eq_self)
  show "unat w < 2 ^ 63 \<Longrightarrow> sint w = int (unat w)" and "0 \<le> sint w \<longleftrightarrow> unat w < 2 ^ 63"
    using s e u n by (simp_all split: if_splits)
qed

lemma key_of_inject [simp]: "key_of ns d = key_of m e \<longleftrightarrow> ns = m \<and> d = e"
  by (auto simp: key_of_def intro: digest.equality signed_word_eqI)

lemma representable_keys:
  "representable_digests ds = map (\<lambda>d. (d, sint (d_size d))) (filter (\<lambda>d. unat (d_size d) < 2 ^ 63) ds)"
  by (induction ds) (simp_all add: representable_digests_def List.map_filter_simps sint_size(1))

lemma requested_keys_of:
  "requested_keys ns (map (\<lambda>d. (d, sint (d_size d))) ds) = map (key_of ns) ds"
  by (simp add: requested_keys_def key_of_def)

lemma turn_run:
  assumes "turn w = (r, t)"
  shows "pg_tables t = pg_tables w"
  using assms by (auto simp: turn_def split: list.splits prod.splits)

lemma fetch_run:
  assumes "fetch q w = (r, t)"
  shows "pg_tables t = pg_tables w" and "r = Inr x \<Longrightarrow> x = q (pg_tables w)"
proof -
  obtain r' t' where turn: "turn w = (r', t')" by fastforce
  note same = turn_run [OF turn]
  show "pg_tables t = pg_tables w" and "r = Inr x \<Longrightarrow> x = q (pg_tables w)"
    using assms turn same by (cases r'; auto simp: fetch_def)+
qed

lemma execute_run:
  assumes "execute q w = (r, t)"
  obtains (failed) e where "r = Inl e" "pg_tables t = pg_tables w"
    | (done_with) now x where "r = Inr x" "q now (pg_tables w) = Inr (x, pg_tables t)"
proof -
  obtain r' t' where turn: "turn w = (r', t')" by fastforce
  note same = turn_run [OF turn]
  show thesis
  proof (cases r')
    case (Inl e)
    with assms turn same show thesis by (intro failed [of e]) (auto simp: execute_def)
  next
    case (Inr u)
    show thesis
    proof (cases "q (pg_now t') (pg_tables t')")
      case (Inl e)
      with assms turn \<open>r' = Inr u\<close> same show thesis by (intro failed [of e]) (auto simp: execute_def)
    next
      case (Inr p)
      with assms turn \<open>r' = Inr u\<close> same show thesis
        by (intro done_with [of "fst p" "pg_now t'"]) (auto simp: execute_def split: prod.splits)
    qed
  qed
qed

section \<open>Blobs\<close>

lemma listed_representable:
  assumes "tables_ok J db" and "db_visible db ns d"
  shows "unat (d_size d) < 2 ^ 63"
proof -
  from assms have "blob_row_allowed (key_of ns d)"
    by (auto simp: tables_ok_def blobs_ok_def db_visible_def)
  then show ?thesis by (simp add: blob_row_allowed_def key_of_def sint_size(2))
qed

lemma unique_row:
  assumes "distinct (map fst rows)"
  shows "map (\<lambda>_. i) (filter (\<lambda>(k', _). k' = k) rows) = (if k \<in> fst ` set rows then [i] else [])"
  using assms by (induction rows) (auto simp: filter_empty_conv)

lemma digests_at_ordinals:
  assumes "distinct (map fst (db_namespace_blobs db))"
  shows "digests_at (pre @ map (\<lambda>d. (d, f d)) ds)
      (concat (map (\<lambda>(i, k). map (\<lambda>_. int i) (filter (\<lambda>(k', _). k' = k) (db_namespace_blobs db)))
        (enumerate (Suc (length pre)) (map (key_of ns) ds))))
    = Inr (filter (db_visible db ns) ds)"
proof (induction ds arbitrary: pre)
  case (Cons d ds)
  from Cons.IH [of "pre @ [(d, f d)]"] show ?case
    by (simp add: unique_row [OF assms] db_visible_def nth_append)
qed simp

lemma select_visible:
  assumes "tables_ok J db"
  shows "digests_at (representable_digests ds) (select_ordinals (requested_keys ns (representable_digests ds)) db)
    = Inr (filter (db_visible db ns) ds)"
proof -
  have "filter (db_visible db ns) (filter (\<lambda>d. unat (d_size d) < 2 ^ 63) ds) = filter (db_visible db ns) ds"
    using listed_representable [OF assms] by (induction ds) auto
  moreover from assms have "distinct (map fst (db_namespace_blobs db))"
    by (simp add: tables_ok_def blobs_ok_def)
  note digests_at_ordinals [OF this, of "[]"]
  ultimately show ?thesis
    by (simp add: representable_keys requested_keys_of select_ordinals_def)
qed

lemma visible_blobs_run:
  assumes "tables_ok J (pg_tables w)" and "pg_visible_blobs ns ds w = (r, t)"
  shows "pg_tables t = pg_tables w" and "r = Inr found \<Longrightarrow> found = filter (db_visible (pg_tables w) ns) ds"
proof -
  note select = select_visible [OF assms(1), of ds ns]
  have "pg_tables t = pg_tables w \<and> (r = Inr found \<longrightarrow> found = filter (db_visible (pg_tables w) ns) ds)"
  proof (cases "representable_digests ds = []")
    case True
    with select have "filter (db_visible (pg_tables w) ns) ds = []"
      by (simp add: requested_keys_def select_ordinals_def)
    with True assms(2) show ?thesis by (auto simp: pg_visible_blobs_def)
  next
    case False
    obtain r' t' where f: "fetch (select_ordinals (requested_keys ns (representable_digests ds))) w = (r', t')"
      by fastforce
    note run = fetch_run [OF f]
    from False assms(2) f show ?thesis
      by (cases r') (use run select in \<open>auto simp: pg_visible_blobs_def Let_def\<close>)
  qed
  then show "pg_tables t = pg_tables w" and "r = Inr found \<Longrightarrow> found = filter (db_visible (pg_tables w) ns) ds"
    by blast+
qed

text \<open>Rows are only updated under their keys.\<close>

lemma keys_of_update: "map fst (map (\<lambda>(k, row). (k, f k row)) rows) = map fst rows"
  by (induction rows) auto

lemma keys_set_update: "fst ` set (map (\<lambda>(k, row). (k, f k row)) rows) = fst ` set rows"
  by (force simp: image_iff)

lemma blobs_ok_update:
  assumes "blobs_ok rows"
  shows "blobs_ok (map (\<lambda>(k, row). (k, f k row)) rows)"
proof -
  have e: "blobs_ok rows \<longleftrightarrow> distinct (map fst rows) \<and> (\<forall>k \<in> set (map fst rows). blob_row_allowed k)" for rows
    by (auto simp: blobs_ok_def)
  from assms show ?thesis unfolding e keys_of_update .
qed

lemma visible_update:
  "db_visible (db\<lparr>db_namespace_blobs := map (\<lambda>(k, row). (k, f k row)) (db_namespace_blobs db)\<rparr>) = db_visible db"
  by (simp add: db_visible_def fun_eq_iff keys_set_update del: set_map)

lemma tables_frame:
  "db_result J (db\<lparr>db_namespace_blobs := b\<rparr>) = db_result J db"
  "db_manifest J (db\<lparr>db_namespace_blobs := b\<rparr>) = db_manifest J db"
  "db_visible (db\<lparr>db_action_results := a\<rparr>) = db_visible db"
  "db_manifest J (db\<lparr>db_action_results := a\<rparr>) = db_manifest J db"
  "db_visible (db\<lparr>db_action_manifests := m\<rparr>) = db_visible db"
  "db_result J (db\<lparr>db_action_manifests := m\<rparr>) = db_result J db"
  by (simp_all add: fun_eq_iff db_result_def db_manifest_def db_visible_def select_result_def select_manifest_def)

lemma tables_ok_blobs:
  "tables_ok J db \<Longrightarrow> tables_ok J (db\<lparr>db_namespace_blobs := b\<rparr>) \<longleftrightarrow> blobs_ok b"
  by (simp add: tables_ok_def)

lemma upsert_run:
  assumes ok: "tables_ok J db" and run: "upsert_blob (key_of ns d) created now db = Inr (u, db')"
  shows "tables_ok J db' \<and> db_result J db' = db_result J db \<and> db_manifest J db' = db_manifest J db
    \<and> db_visible db' = (db_visible db)(ns := (db_visible db ns)(d := True))"
proof -
  let ?blobs = "db_namespace_blobs db"
  from run have allowed: "blob_row_allowed (key_of ns d)" by (auto simp: upsert_blob_def split: if_splits)
  from ok have b: "blobs_ok ?blobs" by (simp add: tables_ok_def)
  show ?thesis
  proof (cases "key_of ns d \<in> fst ` set ?blobs")
    case True
    with run allowed obtain f where db': "db' = db\<lparr>db_namespace_blobs := map (\<lambda>(k, row). (k, f k row)) ?blobs\<rparr>"
      by (auto simp: upsert_blob_def)
    from True have "db_visible db ns d" by (simp add: db_visible_def)
    with ok blobs_ok_update [OF b] show ?thesis
      by (auto simp: db' tables_frame tables_ok_blobs visible_update fun_eq_iff)
  next
    case False
    with run allowed have db': "db' = db\<lparr>db_namespace_blobs := ?blobs
        @ [(key_of ns d, \<lparr>br_created_at = now, br_last_accessed_at = now\<rparr>)]\<rparr>"
      by (auto simp: upsert_blob_def)
    from False b allowed have "blobs_ok (db_namespace_blobs db')"
      by (auto simp: db' blobs_ok_def)
    with ok show ?thesis by (auto simp: db' tables_frame tables_ok_blobs fun_eq_iff db_visible_def)
  qed
qed

lemma delete_run:
  assumes ok: "tables_ok J db" and run: "delete_blob (key_of ns d) now db = Inr (u, db')"
  shows "tables_ok J db' \<and> db_result J db' = db_result J db \<and> db_manifest J db' = db_manifest J db
    \<and> db_visible db' = (db_visible db)(ns := (db_visible db ns)(d := False))"
proof -
  from run have db': "db' = db\<lparr>db_namespace_blobs := filter (\<lambda>(k', _). k' \<noteq> key_of ns d) (db_namespace_blobs db)\<rparr>"
    by (auto simp: delete_blob_def)
  from ok have "blobs_ok (db_namespace_blobs db')"
    by (auto simp: db' tables_ok_def blobs_ok_def distinct_map_filter)
  moreover have "db_visible db' m e \<longleftrightarrow> db_visible db m e \<and> (m, e) \<noteq> (ns, d)" for m e
    by (force simp: db_visible_def db')
  ultimately show ?thesis using ok by (auto simp: db' tables_frame tables_ok_blobs fun_eq_iff)
qed

lemma update_accesses_run:
  assumes ok: "tables_ok J db" and run: "update_accesses keys now db = Inr (u, db')"
  shows "tables_ok J db' \<and> db_result J db' = db_result J db \<and> db_manifest J db' = db_manifest J db
    \<and> db_visible db' = db_visible db"
proof -
  from run obtain f where db': "db' = db\<lparr>db_namespace_blobs := map (\<lambda>(k, row). (k, f k row)) (db_namespace_blobs db)\<rparr>"
    by (auto simp: update_accesses_def)
  from ok have "blobs_ok (db_namespace_blobs db)" by (simp add: tables_ok_def)
  with ok show ?thesis by (simp add: db' tables_frame tables_ok_blobs visible_update blobs_ok_update)
qed

section \<open>Action results and manifests\<close>

lemma select_result_Some:
  assumes J: "codec_ok J" and ok: "tables_ok J db" and v: "select_result (key_of ns a) db = Some v"
  obtains r where "jc_result_to_value J r = Inr v" and "jc_result_from_value J v = Inr r"
    and "db_result J db ns a = Some r" and "unat (d_size a) < 2 ^ 63"
proof -
  from v obtain row where row: "(key_of ns a, row) \<in> set (db_action_results db)" "rr_result row = v"
    by (auto simp: select_result_def dest: map_of_SomeD)
  with ok have "result_row_allowed (key_of ns a)" and "\<exists>r. jc_result_to_value J r = Inr v"
    by (auto simp: tables_ok_def results_ok_def)
  then obtain r where r: "jc_result_to_value J r = Inr v" "unat (d_size a) < 2 ^ 63"
    by (auto simp: result_row_allowed_def key_of_def sint_size(2))
  moreover obtain v' where "jc_result_to_value J r = Inr v'" "jc_result_from_value J v' = Inr r"
    using J by (rule codec_results)
  ultimately show thesis using v by (intro that [of r]) (simp_all add: db_result_def)
qed

lemma pg_get_run:
  assumes J: "codec_ok J" and ok: "tables_ok J (pg_tables w)" and run: "pg_get J ns a w = (r, t)"
  shows "pg_tables t = pg_tables w \<and> (\<forall>found. r = Inr found \<longrightarrow> found = db_result J (pg_tables w) ns a)"
proof -
  obtain r' t' where f: "fetch (select_result (key_of ns a)) w = (r', t')" by fastforce
  note fetched = fetch_run [OF f]
  show ?thesis
  proof (cases "\<exists>v. r' = Inr (Some v)")
    case True
    then obtain v where v: "r' = Inr (Some v)" by blast
    with fetched(2) have "select_result (key_of ns a) (pg_tables w) = Some v" by simp
    with J ok obtain x where "jc_result_from_value J v = Inr x" "db_result J (pg_tables w) ns a = Some x"
      by (rule select_result_Some)
    with run f v fetched(1) show ?thesis by (auto simp: pg_get_def)
  next
    case False
    show ?thesis
    proof (cases r')
      case (Inr x)
      with False fetched(2) have "x = None" "select_result (key_of ns a) (pg_tables w) = None" by auto
      with run f Inr fetched(1) show ?thesis by (auto simp: pg_get_def db_result_def)
    qed (use run f fetched(1) in \<open>auto simp: pg_get_def\<close>)
  qed
qed

lemma decode_selected:
  assumes J: "codec_ok J" and ok: "tables_ok J db"
  shows "decode_results J (select_results (map (key_of ns) (filter (\<lambda>d. unat (d_size d) < 2 ^ 63) as)) db)
    = Inr (List.map_filter (db_result J db ns) as)"
proof (induction as)
  case (Cons a as)
  show ?case
  proof (cases "select_result (key_of ns a) db")
    case None
    then have "db_result J db ns a = None" by (simp add: db_result_def)
    with None Cons.IH show ?thesis by (simp add: select_results_def List.map_filter_simps)
  next
    case (Some v)
    with J ok obtain r where "jc_result_from_value J v = Inr r" "db_result J db ns a = Some r" "unat (d_size a) < 2 ^ 63"
      by (rule select_result_Some)
    with Some Cons.IH show ?thesis by (simp add: select_results_def List.map_filter_simps)
  qed
qed (simp add: select_results_def List.map_filter_simps)

lemma pg_get_batch_run:
  assumes J: "codec_ok J" and ok: "tables_ok J (pg_tables w)" and run: "pg_get_batch J ns as w = (r, t)"
  shows "pg_tables t = pg_tables w
    \<and> (\<forall>found. r = Inr found \<longrightarrow> found = List.map_filter (db_result J (pg_tables w) ns) as)"
proof -
  note decoded = decode_selected [OF J ok, of ns as]
  let ?actions = "representable_digests as"
  have keys: "requested_keys ns ?actions = map (key_of ns) (filter (\<lambda>d. unat (d_size d) < 2 ^ 63) as)"
    by (simp add: representable_keys requested_keys_of)
  show ?thesis
  proof (cases "?actions = []")
    case True
    then have "filter (\<lambda>d. unat (d_size d) < 2 ^ 63) as = []" by (simp add: representable_keys)
    with decoded have "List.map_filter (db_result J (pg_tables w) ns) as = []" by (simp add: select_results_def)
    with True run show ?thesis by (auto simp: pg_get_batch_def)
  next
    case False
    obtain r' t' where f: "fetch (select_results (requested_keys ns ?actions)) w = (r', t')" by fastforce
    note fetched = fetch_run [OF f]
    from False run f show ?thesis
      by (cases r') (use fetched decoded keys in \<open>auto simp: pg_get_batch_def Let_def\<close>)
  qed
qed

lemma insert_result_run:
  assumes ok: "tables_ok J db" and v: "jc_result_to_value J x = Inr v" "jc_result_from_value J v = Inr x"
    and run: "insert_result (key_of ns a) v now db = Inr (n, db')"
  obtains (created) "n = 1" "db_result J db ns a = None" "tables_ok J db'" "db_visible db' = db_visible db"
      "db_manifest J db' = db_manifest J db" "db_result J db' = (db_result J db)(ns := (db_result J db ns)(a \<mapsto> x))"
    | (present) v' where "n = 0" "db' = db" "select_result (key_of ns a) db = Some v'"
proof (cases "key_of ns a \<in> fst ` set (db_action_results db)")
  case True
  then obtain row where "map_of (db_action_results db) (key_of ns a) = Some row"
    by (metis map_of_eq_None_iff not_Some_eq)
  with True run show thesis
    by (intro present [of "rr_result row"]) (auto simp: insert_result_def select_result_def split: if_splits)
next
  case False
  with run have n: "n = 1" and allowed: "result_row_allowed (key_of ns a)" and db': "db' = db\<lparr>db_action_results :=
      db_action_results db @ [(key_of ns a, \<lparr>rr_result = v, rr_created_at = now\<rparr>)]\<rparr>"
    by (auto simp: insert_result_def split: if_splits)
  from False have none: "select_result (key_of ns a) db = None"
    by (simp add: select_result_def map_of_eq_None_iff)
  have "select_result (key_of m b) db' = (if (m, b) = (ns, a) then Some v else select_result (key_of m b) db)" for m b
    using none by (auto simp: select_result_def db' map_add_def split: option.splits)
  with v(2) have "db_result J db' = (db_result J db)(ns := (db_result J db ns)(a \<mapsto> x))"
    by (auto simp: fun_eq_iff db_result_def)
  moreover from ok False allowed v(1) have "tables_ok J db'"
    by (auto simp: db' tables_ok_def results_ok_def)
  moreover from none have "db_result J db ns a = None" by (simp add: db_result_def)
  ultimately show thesis using n by (intro created) (simp_all add: db' tables_frame)
qed

lemma pg_commit_cases:
  assumes J: "codec_ok J" and ok: "tables_ok J (pg_tables w)" and run: "pg_commit J ns a x w = (r, t)"
  obtains (created) "r = Inr CommitCreated" "db_result J (pg_tables w) ns a = None" "tables_ok J (pg_tables t)"
      "db_visible (pg_tables t) = db_visible (pg_tables w)" "db_manifest J (pg_tables t) = db_manifest J (pg_tables w)"
      "db_result J (pg_tables t) = (db_result J (pg_tables w))(ns := (db_result J (pg_tables w) ns)(a \<mapsto> x))"
    | (exists) "r = Inr CommitAlreadyExists" "db_result J (pg_tables w) ns a = Some x" "pg_tables t = pg_tables w"
    | (conflict) y where "r = Inr CommitConflict" "db_result J (pg_tables w) ns a = Some y" "y \<noteq> x"
      "pg_tables t = pg_tables w"
    | (failed) e where "r = Inl e" "pg_tables t = pg_tables w"
proof -
  obtain v where v: "jc_result_to_value J x = Inr v" "jc_result_from_value J v = Inr x"
    using J by (rule codec_results)
  obtain ri u where ins: "execute (insert_result (key_of ns a) v) w = (ri, u)" by fastforce
  from ins show thesis
  proof (cases rule: execute_run)
    case (failed e)
    with run v ins show thesis by (intro that(4)) (auto simp: pg_commit_def)
  next
    case (done_with now n)
    from ok v done_with(2) show thesis
    proof (cases rule: insert_result_run)
      case created
      with run v ins done_with(1) show thesis by (intro that(1)) (auto simp: pg_commit_def)
    next
      case (present v')
      note n = present(1) and u = present(2)
      from J ok present(3) obtain y where y: "jc_result_to_value J y = Inr v'"
        "db_result J (pg_tables w) ns a = Some y" by (rule select_result_Some)
      obtain rg s where get: "pg_get J ns a u = (rg, s)" by fastforce
      from ok u have "tables_ok J (pg_tables u)" by simp
      note got = pg_get_run [OF J this get]
      show thesis
      proof (cases rg)
        case (Inl e)
        with run v ins done_with(1) n get got u show thesis by (intro that(4)) (auto simp: pg_commit_def)
      next
        case (Inr found)
        with got u y have found: "found = Some y" by simp
        obtain v'' where v'': "jc_result_from_value J v' = Inr v''" "v'' = y"
          using J y(1) by (metis codec_results sum.inject(2))
        have r: "r = Inr (if v' = v then CommitAlreadyExists else CommitConflict)" "t = s"
          using run v ins done_with(1) n get Inr found y(1) by (auto simp: pg_commit_def)
        have "v' = v \<longleftrightarrow> y = x" using v y(1) v'' by auto
        with r got u y(2) show thesis by (cases "y = x") (auto intro: that(2,3))
      qed
    qed
  qed
qed

lemma select_manifest_Some:
  assumes J: "codec_ok J" and ok: "tables_ok J db" and row: "select_manifest (key_of ns k) db = Some row"
  obtains m where "jc_manifest_from_value J (mw_manifest row) = Inr m"
    and "db_manifest J db ns k = Some (mw_etag row, m)"
proof -
  from row have "(key_of ns k, row) \<in> set (db_action_manifests db)"
    by (simp add: select_manifest_def map_of_SomeD)
  with ok obtain m where "jc_manifest_to_value J m = Inr (mw_manifest row)"
    by (auto simp: tables_ok_def manifests_ok_def)
  moreover obtain v where "jc_manifest_to_value J m = Inr v" "jc_manifest_from_value J v = Inr m"
    using J by (rule codec_manifests)
  ultimately show thesis using row by (intro that [of m]) (simp_all add: db_manifest_def)
qed

lemma pg_get_manifest_run:
  assumes J: "codec_ok J" and ok: "tables_ok J (pg_tables w)" and run: "pg_get_manifest J ns k w = (r, t)"
  shows "pg_tables t = pg_tables w
    \<and> (\<forall>found. r = Inr found \<longrightarrow> map_option (\<lambda>m. (mr_etag m, mr_manifest m)) found = db_manifest J (pg_tables w) ns k)"
proof -
  obtain r' t' where f: "fetch (select_manifest (key_of ns k)) w = (r', t')" by fastforce
  note fetched = fetch_run [OF f]
  show ?thesis
  proof (cases r')
    case (Inr found)
    with fetched(2) have found: "found = select_manifest (key_of ns k) (pg_tables w)" by simp
    show ?thesis
    proof (cases found)
      case None
      with run f Inr fetched(1) found show ?thesis by (auto simp: pg_get_manifest_def db_manifest_def)
    next
      case (Some row)
      with found J ok obtain m where "jc_manifest_from_value J (mw_manifest row) = Inr m"
        "db_manifest J (pg_tables w) ns k = Some (mw_etag row, m)" by (metis select_manifest_Some)
      with run f Inr fetched(1) Some show ?thesis by (auto simp: pg_get_manifest_def)
    qed
  qed (use run f fetched(1) in \<open>auto simp: pg_get_manifest_def\<close>)
qed

text \<open>What an update and an insertion of a manifest do.\<close>

lemma insert_manifest_run:
  assumes ok: "tables_ok J db" and v: "jc_manifest_to_value J m = Inr v" "jc_manifest_from_value J v = Inr m"
    and J: "codec_ok J" and run: "insert_manifest (key_of ns k) etag v now db = Inr (n, db')"
  obtains (created) "n = 1" "db_manifest J db ns k = None" "tables_ok J db'" "db_visible db' = db_visible db"
      "db_result J db' = db_result J db"
      "db_manifest J db' = (db_manifest J db)(ns := (db_manifest J db ns)(k \<mapsto> (etag, m)))"
    | (present) "n = 0" "db' = db" "db_manifest J db ns k \<noteq> None"
proof (cases "key_of ns k \<in> fst ` set (db_action_manifests db)")
  case True
  then obtain row where "select_manifest (key_of ns k) db = Some row"
    by (metis map_of_eq_None_iff not_Some_eq select_manifest_def)
  with J ok have "db_manifest J db ns k \<noteq> None" by (metis select_manifest_Some option.distinct(1))
  with True run show thesis by (intro present) (auto simp: insert_manifest_def split: if_splits)
next
  case False
  with run have n: "n = 1" and allowed: "manifest_row_allowed (key_of ns k)"
    and db': "db' = db\<lparr>db_action_manifests := db_action_manifests db
      @ [(key_of ns k, \<lparr>mw_etag = etag, mw_manifest = v, mw_created_at = now, mw_updated_at = now\<rparr>)]\<rparr>"
    by (auto simp: insert_manifest_def split: if_splits)
  from False have none: "select_manifest (key_of ns k) db = None"
    by (simp add: select_manifest_def map_of_eq_None_iff)
  have "select_manifest (key_of j b) db' = (if (j, b) = (ns, k)
      then Some \<lparr>mw_etag = etag, mw_manifest = v, mw_created_at = now, mw_updated_at = now\<rparr>
      else select_manifest (key_of j b) db)" for j b
    using none by (auto simp: select_manifest_def db' map_add_def split: option.splits)
  with v(2) have "db_manifest J db' = (db_manifest J db)(ns := (db_manifest J db ns)(k \<mapsto> (etag, m)))"
    by (auto simp: fun_eq_iff db_manifest_def)
  moreover from ok False allowed v(1) have "tables_ok J db'"
    by (auto simp: db' tables_ok_def manifests_ok_def)
  moreover from none have "db_manifest J db ns k = None" by (simp add: db_manifest_def)
  ultimately show thesis using n by (intro created) (simp_all add: db' tables_frame)
qed

lemma unique_hit:
  assumes "distinct (map fst rows)"
  shows "filter (\<lambda>(k', row). k' = k \<and> P row) rows =
    (case map_of rows k of None \<Rightarrow> [] | Some row \<Rightarrow> if P row then [(k, row)] else [])"
proof -
  have none: "k \<notin> fst ` set rows \<Longrightarrow> filter (\<lambda>(k', row). k' = k \<and> P row) rows = []" for rows :: "('a \<times> 'b) list"
    by (force simp: filter_empty_conv)
  from assms show ?thesis by (induction rows) (auto simp: none)
qed

lemma map_of_update_hit:
  "map_of (map (\<lambda>r. if (case r of (k', row) \<Rightarrow> k' = k \<and> P row) then (fst r, f (snd r)) else r) rows) j =
    (if j = k then map_option (\<lambda>row. if P row then f row else row) (map_of rows k) else map_of rows j)"
  by (induction rows) auto

lemma update_manifest_run:
  assumes ok: "tables_ok J db" and v: "jc_manifest_to_value J m = Inr v" "jc_manifest_from_value J v = Inr m"
    and J: "codec_ok J" and run: "update_manifest (key_of ns k) expected etag v now db = Inr (n, db')"
  obtains (updated) old where "n = 1" "db_manifest J db ns k = Some (expected, old)" "tables_ok J db'"
      "db_visible db' = db_visible db" "db_result J db' = db_result J db"
      "db_manifest J db' = (db_manifest J db)(ns := (db_manifest J db ns)(k \<mapsto> (etag, m)))"
    | (refused) "n = 0" "db' = db" "map_option fst (db_manifest J db ns k) \<noteq> Some expected"
proof -
  let ?rows = "db_action_manifests db" and ?k = "key_of ns k"
  let ?f = "\<lambda>row. row\<lparr>mw_etag := etag, mw_manifest := v, mw_updated_at := now\<rparr>"
  let ?hit = "\<lambda>(k', row). k' = ?k \<and> mw_etag row = expected"
  from run have n: "n = of_nat (length (filter ?hit ?rows))"
    and db': "db' = db\<lparr>db_action_manifests := map (\<lambda>r. if ?hit r then (fst r, ?f (snd r)) else r) ?rows\<rparr>"
    by (auto simp: update_manifest_def Let_def)
  from ok have dist: "distinct (map fst ?rows)" by (simp add: tables_ok_def manifests_ok_def)
  note hits = unique_hit [OF dist, of ?k "\<lambda>row. mw_etag row = expected"]
  show thesis
  proof (cases "\<exists>row. map_of ?rows ?k = Some row \<and> mw_etag row = expected")
    case True
    then obtain row where row: "map_of ?rows ?k = Some row" "mw_etag row = expected" by blast
    then have "select_manifest ?k db = Some row" by (simp add: select_manifest_def)
    with J ok obtain old where old: "db_manifest J db ns k = Some (expected, old)"
      by (metis select_manifest_Some row(2))
    have sel: "select_manifest (key_of j b) db' =
        (if (j, b) = (ns, k) then Some (?f row) else select_manifest (key_of j b) db)" for j b
      using row map_of_update_hit [of ?k "\<lambda>row. mw_etag row = expected" ?f ?rows "key_of j b"]
      by (simp add: select_manifest_def db')
    then have "db_manifest J db' = (db_manifest J db)(ns := (db_manifest J db ns)(k \<mapsto> (etag, m)))"
      using v(2) by (auto simp: fun_eq_iff db_manifest_def)
    moreover have "manifests_ok J (db_action_manifests db')"
    proof -
      have "map fst (db_action_manifests db') = map fst ?rows" by (auto simp: db')
      with dist have "distinct (map fst (db_action_manifests db'))" by (simp only:)
      moreover have "\<forall>(k, row) \<in> set (db_action_manifests db'). manifest_row_allowed k
          \<and> (\<exists>m. jc_manifest_to_value J m = Inr (mw_manifest row))"
        using ok v(1) by (auto simp: db' tables_ok_def manifests_ok_def)
      ultimately show ?thesis by (simp add: manifests_ok_def)
    qed
    with ok have "tables_ok J db'" by (simp add: tables_ok_def db')
    moreover have "n = 1" using n hits row by simp
    ultimately show thesis using old by (intro updated [of old]) (simp_all add: db' tables_frame)
  next
    case False
    then have none: "filter ?hit ?rows = []" by (auto simp: hits split: option.split)
    then have "map (\<lambda>r. if ?hit r then (fst r, ?f (snd r)) else r) ?rows = ?rows"
      by (intro map_idI) (auto simp: filter_empty_conv)
    then have "db' = db" by (simp add: db')
    moreover have "map_option fst (db_manifest J db ns k) \<noteq> Some expected"
    proof (cases "select_manifest ?k db")
      case (Some row)
      with J ok have "\<exists>m. db_manifest J db ns k = Some (mw_etag row, m)" by (metis select_manifest_Some)
      with Some False show ?thesis by (auto simp: select_manifest_def)
    qed (simp add: db_manifest_def)
    ultimately show thesis using n none by (intro refused) simp_all
  qed
qed

lemma pg_commit_manifest_cases:
  assumes J: "codec_ok J" and ok: "tables_ok J (pg_tables w)"
    and run: "pg_commit_manifest J ns k expected etag m w = (r, t)"
  obtains (created) "r = Inr ManifestCreated" "expected = None" "db_manifest J (pg_tables w) ns k = None"
      "tables_ok J (pg_tables t)" "db_visible (pg_tables t) = db_visible (pg_tables w)"
      "db_result J (pg_tables t) = db_result J (pg_tables w)"
      "db_manifest J (pg_tables t) = (db_manifest J (pg_tables w))(ns := (db_manifest J (pg_tables w) ns)(k \<mapsto> (etag, m)))"
    | (updated) e old where "r = Inr ManifestUpdated" "expected = Some e" "db_manifest J (pg_tables w) ns k = Some (e, old)"
      "tables_ok J (pg_tables t)" "db_visible (pg_tables t) = db_visible (pg_tables w)"
      "db_result J (pg_tables t) = db_result J (pg_tables w)"
      "db_manifest J (pg_tables t) = (db_manifest J (pg_tables w))(ns := (db_manifest J (pg_tables w) ns)(k \<mapsto> (etag, m)))"
    | (refused) "r = Inr ManifestPreconditionFailed" "map_option fst (db_manifest J (pg_tables w) ns k) \<noteq> expected"
      "pg_tables t = pg_tables w"
    | (failed) e where "r = Inl e" "pg_tables t = pg_tables w"
proof -
  obtain v where v: "jc_manifest_to_value J m = Inr v" "jc_manifest_from_value J v = Inr m"
    using J by (rule codec_manifests)
  show thesis
  proof (cases expected)
    case None
    obtain ri u where ins: "execute (insert_manifest (key_of ns k) etag v) w = (ri, u)" by fastforce
    from ins show thesis
    proof (cases rule: execute_run)
      case (failed e)
      with run v ins None show thesis by (intro that(4)) (auto simp: pg_commit_manifest_def)
    next
      case (done_with now n)
      from ok v J done_with(2) show thesis
      proof (cases rule: insert_manifest_run)
        case created
        with run v ins None done_with(1) show thesis by (intro that(1)) (auto simp: pg_commit_manifest_def)
      next
        case present
        with run v ins None done_with(1) show thesis by (intro that(3)) (auto simp: pg_commit_manifest_def)
      qed
    qed
  next
    case (Some e)
    obtain ri u where ins: "execute (update_manifest (key_of ns k) e etag v) w = (ri, u)" by fastforce
    from ins show thesis
    proof (cases rule: execute_run)
      case (failed err)
      with run v ins Some show thesis by (intro that(4)) (auto simp: pg_commit_manifest_def)
    next
      case (done_with now n)
      from ok v J done_with(2) show thesis
      proof (cases rule: update_manifest_run)
        case (updated old)
        with run v ins Some done_with(1) show thesis by (intro that(2)) (auto simp: pg_commit_manifest_def)
      next
        case refused
        with run v ins Some done_with(1) show thesis by (intro that(3)) (auto simp: pg_commit_manifest_def)
      qed
    qed
  qed
qed

section \<open>PostgreSQL keeps the contract\<close>

lemma pg_execute_blobs:
  assumes run: "execute q w = (r, t)" and ok: "tables_ok J (pg_tables w)"
    and q: "\<And>now u db'. q now (pg_tables w) = Inr (u, db') \<Longrightarrow> tables_ok J db'
      \<and> db_result J db' = db_result J (pg_tables w) \<and> db_manifest J db' = db_manifest J (pg_tables w)
      \<and> db_visible db' = vis"
  shows "tables_ok J (pg_tables t) \<and> db_result J (pg_tables t) = db_result J (pg_tables w)
    \<and> db_manifest J (pg_tables t) = db_manifest J (pg_tables w)
    \<and> db_visible (pg_tables t) = (if r = Inr () then vis else db_visible (pg_tables w))"
  using run
proof (cases rule: execute_run)
  case (done_with now u)
  with q [OF done_with(2)] show ?thesis by simp
qed (use ok in simp_all)

lemma pg_touch_run:
  assumes ok: "tables_ok J (pg_tables w)" and run: "pg_touch_blobs ns ds w = (r, t)"
  shows "tables_ok J (pg_tables t) \<and> db_result J (pg_tables t) = db_result J (pg_tables w)
    \<and> db_manifest J (pg_tables t) = db_manifest J (pg_tables w) \<and> db_visible (pg_tables t) = db_visible (pg_tables w)"
proof (cases "representable_digests ds = []")
  case False
  with run have "execute (update_accesses (requested_keys ns (representable_digests ds))) w = (r, t)"
    by (simp add: pg_touch_blobs_def Let_def)
  from pg_execute_blobs [OF this ok update_accesses_run [OF ok]] show ?thesis by simp
qed (use ok run in \<open>auto simp: pg_touch_blobs_def\<close>)

abbreviation pg_ok :: "json_codec \<Rightarrow> postgres \<Rightarrow> bool" where
  "pg_ok J w \<equiv> tables_ok J (pg_tables w)"

abbreviation pg_visible :: "postgres \<Rightarrow> string \<Rightarrow> digest \<Rightarrow> bool" where
  "pg_visible w \<equiv> db_visible (pg_tables w)"

abbreviation pg_result :: "json_codec \<Rightarrow> postgres \<Rightarrow> string \<Rightarrow> digest \<Rightarrow> action_result option" where
  "pg_result J w \<equiv> db_result J (pg_tables w)"

abbreviation pg_manifest :: "json_codec \<Rightarrow> postgres \<Rightarrow> string \<Rightarrow> digest \<Rightarrow> (string \<times> task_action_manifest) option" where
  "pg_manifest J w \<equiv> db_manifest J (pg_tables w)"

lemma postgres_contract:
  assumes J: "codec_ok J"
  shows "metadata_contract (postgres_store J) (pg_ok J) pg_visible (pg_result J) (pg_manifest J)"
proof
  fix s ns a x r t
  assume ok: "pg_ok J s" and "ms_commit (postgres_store J) ns a x s = (r, t)"
  then have run: "pg_commit J ns a x s = (r, t)" by (simp add: postgres_store_def)
  show "pg_ok J t \<and> pg_visible t = pg_visible s \<and> pg_manifest J t = pg_manifest J s
      \<and> (\<forall>m b. (m, b) \<noteq> (ns, a) \<longrightarrow> pg_result J t m b = pg_result J s m b \<or> pg_result J t m b = None)
      \<and> (r = Inr CommitCreated \<longrightarrow> pg_result J t ns a = Some x)
      \<and> (r = Inr CommitAlreadyExists \<longrightarrow> pg_result J s ns a = Some x \<and> pg_result J t ns a = Some x)
      \<and> (r = Inr CommitConflict \<longrightarrow> (\<exists>y. y \<noteq> x \<and> pg_result J s ns a = Some y \<and> pg_result J t ns a = Some y))
      \<and> (r \<noteq> Inr CommitCreated \<longrightarrow> pg_result J t ns a = pg_result J s ns a \<or> pg_result J t ns a = None)"
    using J ok run by (cases rule: pg_commit_cases) (use ok in simp_all)
next
  fix s ns k expected etag m r t
  assume ok: "pg_ok J s" and "ms_commit_manifest (postgres_store J) ns k expected etag m s = (r, t)"
  then have run: "pg_commit_manifest J ns k expected etag m s = (r, t)" by (simp add: postgres_store_def)
  show "pg_ok J t \<and> pg_visible t = pg_visible s \<and> pg_result J t = pg_result J s
      \<and> (r = Inr ManifestCreated \<longrightarrow> expected = None \<and> pg_manifest J s ns k = None)
      \<and> (r = Inr ManifestUpdated \<longrightarrow> (\<exists>e old. expected = Some e \<and> pg_manifest J s ns k = Some (e, old)))
      \<and> (r = Inr ManifestPreconditionFailed \<longrightarrow> map_option fst (pg_manifest J s ns k) \<noteq> expected)
      \<and> pg_manifest J t = (if r = Inr ManifestCreated \<or> r = Inr ManifestUpdated
          then (pg_manifest J s)(ns := (pg_manifest J s ns)(k \<mapsto> (etag, m))) else pg_manifest J s)"
    using J ok run by (cases rule: pg_commit_manifest_cases) (use ok in simp_all)
next
  fix s ns d out r t
  assume ok: "pg_ok J s" and "ms_register_blob (postgres_store J) ns d out s = (r, t)"
  then have "execute (upsert_blob (key_of ns d) (out = Created)) s = (r, t)"
    by (simp add: postgres_store_def pg_register_blob_def)
  from pg_execute_blobs [OF this ok upsert_run [OF ok]]
  show "pg_ok J t \<and> pg_result J t = pg_result J s \<and> pg_manifest J t = pg_manifest J s
      \<and> pg_visible t = (if r = Inr () then (pg_visible s)(ns := (pg_visible s ns)(d := True)) else pg_visible s)"
    by simp
next
  fix s ns d r t
  assume ok: "pg_ok J s" and "ms_forget_blob (postgres_store J) ns d s = (r, t)"
  then have "execute (delete_blob (key_of ns d)) s = (r, t)"
    by (simp add: postgres_store_def pg_forget_blob_def)
  from pg_execute_blobs [OF this ok delete_run [OF ok]]
  show "pg_ok J t \<and> pg_result J t = pg_result J s \<and> pg_manifest J t = pg_manifest J s
      \<and> pg_visible t = (if r = Inr () then (pg_visible s)(ns := (pg_visible s ns)(d := False)) else pg_visible s)"
    by simp
next
  fix s ns ds r t
  assume ok: "pg_ok J s" and "ms_visible_blobs (postgres_store J) ns ds s = (r, t)"
  then have "pg_visible_blobs ns ds s = (r, t)" by (simp add: postgres_store_def)
  note run = visible_blobs_run [OF ok this]
  from run(1) ok show "pg_ok J t \<and> pg_visible t = pg_visible s \<and> pg_result J t = pg_result J s \<and> pg_manifest J t = pg_manifest J s
      \<and> (\<forall>found. r = Inr found \<longrightarrow> found = filter (pg_visible s ns) ds)" using run(2) by simp
next
  fix s ns ds r t
  assume ok: "pg_ok J s" and "ms_touch_blobs (postgres_store J) ns ds s = (r, t)"
  then have "pg_touch_blobs ns ds s = (r, t)" by (simp add: postgres_store_def)
  from pg_touch_run [OF ok this] show "pg_ok J t \<and> pg_visible t = pg_visible s \<and> pg_result J t = pg_result J s \<and> pg_manifest J t = pg_manifest J s" by (elim conjE) (intro conjI)
next
  fix s ns a r t
  assume ok: "pg_ok J s" and "ms_get (postgres_store J) ns a s = (r, t)"
  then have "pg_get J ns a s = (r, t)" by (simp add: postgres_store_def)
  from pg_get_run [OF J ok this] ok show "pg_ok J t \<and> pg_visible t = pg_visible s \<and> pg_result J t = pg_result J s \<and> pg_manifest J t = pg_manifest J s
      \<and> (\<forall>found. r = Inr found \<longrightarrow> found = pg_result J s ns a)" by simp
next
  fix s ns as r t
  assume ok: "pg_ok J s" and "ms_get_batch (postgres_store J) ns as s = (r, t)"
  then have "pg_get_batch J ns as s = (r, t)" by (simp add: postgres_store_def)
  from pg_get_batch_run [OF J ok this] ok show "pg_ok J t \<and> pg_visible t = pg_visible s \<and> pg_result J t = pg_result J s \<and> pg_manifest J t = pg_manifest J s
      \<and> (\<forall>found. r = Inr found \<longrightarrow> found = List.map_filter (pg_result J s ns) as)" by simp
next
  fix s ns k r t
  assume ok: "pg_ok J s" and "ms_get_manifest (postgres_store J) ns k s = (r, t)"
  then have "pg_get_manifest J ns k s = (r, t)" by (simp add: postgres_store_def)
  from pg_get_manifest_run [OF J ok this] ok show "pg_ok J t \<and> pg_visible t = pg_visible s \<and> pg_result J t = pg_result J s \<and> pg_manifest J t = pg_manifest J s
      \<and> (\<forall>found. r = Inr found \<longrightarrow> map_option (\<lambda>m. (mr_etag m, mr_manifest m)) found = pg_manifest J s ns k)" by simp
qed

interpretation postgres: metadata_contract "postgres_store reference_codec" "pg_ok reference_codec"
    pg_visible "pg_result reference_codec" "pg_manifest reference_codec"
  by (rule postgres_contract [OF reference_codec_ok])

end
