(* ===== verification/Postgres_Spec.thy ===== *)
theory Postgres_Spec
  imports Postgres
begin

text \<open>
  What the PostgreSQL store promises. Under any sequence of requests it answers what the in-memory store
  answers, requests that fail having no effect; and a sweep, which only it does, removes exactly what is
  old together with the results that would name a blob no longer listed.
\<close>

section \<open>Requests and answers\<close>

datatype meta_request =
    VisibleBlobs string "digest list"
  | RegisterBlob string digest put_outcome
  | ForgetBlob string digest
  | TouchBlobs string "digest list"
  | GetResult string digest
  | GetResults string "digest list"
  | CommitResult string digest action_result
  | GetManifest string digest
  | CommitManifest string digest "string option" string task_action_manifest

datatype meta_answer =
    Blobs "digest list"
  | Acknowledged
  | FoundResult "action_result option"
  | FoundResults "action_result list"
  | Outcome commit_outcome
  | FoundManifest "manifest_record option"
  | ManifestOutcome manifest_commit_outcome

fun perform :: "'m metadata_store \<Rightarrow> meta_request \<Rightarrow> ('m, anyhow, meta_answer) comp" where
  "perform S (VisibleBlobs ns ds) = bindE (ms_visible_blobs S ns ds) (\<lambda>x. returnE (Blobs x))"
| "perform S (RegisterBlob ns d out) = bindE (ms_register_blob S ns d out) (\<lambda>_. returnE Acknowledged)"
| "perform S (ForgetBlob ns d) = bindE (ms_forget_blob S ns d) (\<lambda>_. returnE Acknowledged)"
| "perform S (TouchBlobs ns ds) = bindE (ms_touch_blobs S ns ds) (\<lambda>_. returnE Acknowledged)"
| "perform S (GetResult ns a) = bindE (ms_get S ns a) (\<lambda>x. returnE (FoundResult x))"
| "perform S (GetResults ns as) = bindE (ms_get_batch S ns as) (\<lambda>x. returnE (FoundResults x))"
| "perform S (CommitResult ns a r) = bindE (ms_commit S ns a r) (\<lambda>x. returnE (Outcome x))"
| "perform S (GetManifest ns k) = bindE (ms_get_manifest S ns k) (\<lambda>x. returnE (FoundManifest x))"
| "perform S (CommitManifest ns k expected etag m) =
     bindE (ms_commit_manifest S ns k expected etag m) (\<lambda>x. returnE (ManifestOutcome x))"

text \<open>Every request is answered; \<open>answered\<close> are the ones that did not fail, with their answers.\<close>

fun perform_all :: "'m metadata_store \<Rightarrow> meta_request list \<Rightarrow> 'm \<Rightarrow> (anyhow + meta_answer) list \<times> 'm" where
  "perform_all S [] s = ([], s)"
| "perform_all S (q # qs) s =
     (case perform S q s of (r, t) \<Rightarrow> case perform_all S qs t of (rs, u) \<Rightarrow> (r # rs, u))"

fun answered :: "meta_request list \<Rightarrow> (anyhow + meta_answer) list \<Rightarrow> (meta_request \<times> meta_answer) list" where
  "answered (q # qs) (Inr a # rs) = (q, a) # answered qs rs"
| "answered (q # qs) (Inl e # rs) = answered qs rs"
| "answered _ _ = []"

text \<open>The two stores list the same.\<close>

definition mirrors :: "json_codec \<Rightarrow> postgres \<Rightarrow> memory_metadata \<Rightarrow> bool" where
  "mirrors J w m \<longleftrightarrow> pg_ok J w \<and> memory_ok J m \<and> pg_visible w = memory_visible m
     \<and> pg_result J w = mem_result J m \<and> pg_manifest J w = memory_manifest m"

lemma bind_answer:
  assumes "bindE m (\<lambda>x. returnE (f x)) s = (r, t)"
  obtains r' where "m s = (r', t)" and "r = (case r' of Inl e \<Rightarrow> Inl e | Inr x \<Rightarrow> Inr (f x))"
  using assms by (cases "m s"; cases "fst (m s)") (auto simp: bindE_def)

lemma bind_answer_run:
  "m s = (Inr x, t) \<Longrightarrow> bindE m (\<lambda>x. returnE (f x)) s = (Inr (f x), t)"
  by simp

text \<open>A failed request leaves the mirror as it was; an answered one moves both stores alike.\<close>

abbreviation alike :: "json_codec \<Rightarrow> memory_metadata \<Rightarrow> meta_request \<Rightarrow> anyhow + meta_answer \<Rightarrow> postgres \<Rightarrow> bool" where
  "alike J m q r t \<equiv> (case r of
     Inl e \<Rightarrow> mirrors J t m
   | Inr a \<Rightarrow> \<exists>m'. perform (memory_store J) q m = (Inr a, m') \<and> mirrors J t m')"

lemma mirrors_read:
  assumes "mirrors J w m" and "pg_ok J t" and "pg_visible t = pg_visible w"
    and "pg_result J t = pg_result J w" and "pg_manifest J t = pg_manifest J w"
  shows "mirrors J t m"
  using assms by (simp add: mirrors_def)

lemma mem_commit_like:
  assumes J: "codec_ok J" and ok: "memory_ok J m"
  shows "mem_result J m ns a = None \<Longrightarrow> \<exists>m'. mem_commit J ns a x m = (Inr CommitCreated, m') \<and> memory_ok J m'
      \<and> mm_blobs m' = mm_blobs m \<and> mm_manifests m' = mm_manifests m
      \<and> mem_result J m' = (mem_result J m)(ns := (mem_result J m ns)(a \<mapsto> x))"
    and "mem_result J m ns a = Some y \<Longrightarrow>
      mem_commit J ns a x m = (Inr (if y = x then CommitAlreadyExists else CommitConflict), m)"
proof -
  obtain r m' where run: "mem_commit J ns a x m = (r, m')" by fastforce
  show "mem_result J m ns a = None \<Longrightarrow> \<exists>m'. mem_commit J ns a x m = (Inr CommitCreated, m') \<and> memory_ok J m'
      \<and> mm_blobs m' = mm_blobs m \<and> mm_manifests m' = mm_manifests m
      \<and> mem_result J m' = (mem_result J m)(ns := (mem_result J m ns)(a \<mapsto> x))"
    using J ok run
  proof (cases rule: mem_commit_cases)
    case (created b)
    with ok run show ?thesis by (auto simp: memory_ok_def mem_result_def fun_eq_iff)
  qed simp_all
  show "mem_result J m ns a = Some y \<Longrightarrow>
      mem_commit J ns a x m = (Inr (if y = x then CommitAlreadyExists else CommitConflict), m)"
    using J ok run by (cases rule: mem_commit_cases) (use run in auto)
qed

lemma mirrors_commit:
  assumes J: "codec_ok J" and mir: "mirrors J w m" and run: "pg_commit J ns a x w = (r, t)"
  shows "case r of Inl e \<Rightarrow> mirrors J t m
    | Inr out \<Rightarrow> \<exists>m'. mem_commit J ns a x m = (Inr out, m') \<and> mirrors J t m'"
proof -
  from mir have ok: "pg_ok J w" "memory_ok J m" and same: "pg_result J w = mem_result J m"
    by (simp_all add: mirrors_def)
  note like = mem_commit_like [OF J ok(2)]
  from J ok(1) run show ?thesis
  proof (cases rule: pg_commit_cases)
    case created
    from created(2) same have "mem_result J m ns a = None" by simp
    from like(1) [OF this] obtain m' where m': "mem_commit J ns a x m = (Inr CommitCreated, m')" "memory_ok J m'"
      "mm_blobs m' = mm_blobs m" "mm_manifests m' = mm_manifests m"
      "mem_result J m' = (mem_result J m)(ns := (mem_result J m ns)(a \<mapsto> x))" by blast
    with mir created have "mirrors J t m'" by (simp add: mirrors_def)
    with m'(1) created(1) show ?thesis by simp
  next
    case exists
    with same like(2) [of ns a x x] mir show ?thesis by (simp add: mirrors_def)
  next
    case (conflict y)
    with same like(2) [of ns a y x] mir show ?thesis by (simp add: mirrors_def)
  qed (use mir in \<open>simp_all add: mirrors_def\<close>)
qed

lemma mirrors_commit_manifest:
  assumes J: "codec_ok J" and mir: "mirrors J w m" and run: "pg_commit_manifest J ns k expected etag x w = (r, t)"
  shows "case r of Inl e \<Rightarrow> mirrors J t m
    | Inr out \<Rightarrow> \<exists>m'. mem_commit_manifest ns k expected etag x m = (Inr out, m') \<and> mirrors J t m'"
proof -
  from mir have ok: "pg_ok J w" and same: "pg_manifest J w = memory_manifest m" by (simp_all add: mirrors_def)
  let ?m' = "m\<lparr>mm_manifests := (mm_manifests m)((ns, k) \<mapsto> (etag, x))\<rparr>"
  have moved: "mirrors J t ?m'" if "pg_ok J t" "pg_visible t = pg_visible w" "pg_result J t = pg_result J w"
    "pg_manifest J t = (pg_manifest J w)(ns := (pg_manifest J w ns)(k \<mapsto> (etag, x)))"
    using mir that by (auto simp: mirrors_def memory_frame fun_eq_iff)
  from J ok run show ?thesis
  proof (cases rule: pg_commit_manifest_cases)
    case created
    with same moved show ?thesis by (auto simp: mem_commit_manifest_def)
  next
    case (updated e old)
    with same moved show ?thesis by (auto simp: mem_commit_manifest_def)
  next
    case refused
    from refused(2) same have "map_option fst (mm_manifests m (ns, k)) \<noteq> expected" by simp
    then have "mem_commit_manifest ns k expected etag x m = (Inr ManifestPreconditionFailed, m)"
      by (cases "mm_manifests m (ns, k)"; cases expected) (auto simp: mem_commit_manifest_def)
    with refused mir show ?thesis by (simp add: mirrors_def)
  qed (use mir in \<open>simp add: mirrors_def\<close>)
qed

lemma manifest_answer:
  "map_option (\<lambda>m. (mr_etag m, mr_manifest m)) found = v
    \<Longrightarrow> found = map_option (\<lambda>(etag, m). \<lparr>mr_etag = etag, mr_manifest = m\<rparr>) v"
  by (cases found) auto

lemma mirrors_register:
  assumes "mirrors J w m" and "pg_ok J t" and "pg_result J t = pg_result J w" and "pg_manifest J t = pg_manifest J w"
    and "pg_visible t = (pg_visible w)(ns := (pg_visible w ns)(d := listed))"
  shows "mirrors J t (m\<lparr>mm_blobs := if listed then insert (ns, d) (mm_blobs m) else mm_blobs m - {(ns, d)}\<rparr>)"
  using assms by (auto simp: mirrors_def memory_frame fun_eq_iff)

lemma alike_step:
  assumes J: "codec_ok J" and mir: "mirrors J w m" and run: "perform (postgres_store J) q w = (r, t)"
  shows "alike J m q r t"
proof -
  from mir have ok: "pg_ok J w" "memory_ok J m" by (simp_all add: mirrors_def)
  note contract = postgres_contract [OF J] and same = mirrors_def
  show ?thesis
  proof (cases q)
    case (VisibleBlobs ns ds)
    from run [unfolded VisibleBlobs perform.simps] obtain r' where r': "ms_visible_blobs (postgres_store J) ns ds w = (r', t)"
      and r: "r = (case r' of Inl e \<Rightarrow> Inl e | Inr x \<Rightarrow> Inr (Blobs x))" by (rule bind_answer)
    note law = metadata_contract.visible_blobs [OF contract ok(1) r']
    with mir have "mirrors J t m" by (auto intro: mirrors_read)
    with law mir r show ?thesis
      by (auto simp: VisibleBlobs memory_store_def mem_visible_blobs_def same split: sum.split)
  next
    case (RegisterBlob ns d out)
    from run [unfolded RegisterBlob perform.simps] obtain r' where r': "ms_register_blob (postgres_store J) ns d out w = (r', t)"
      and r: "r = (case r' of Inl e \<Rightarrow> Inl e | Inr x \<Rightarrow> Inr Acknowledged)" by (rule bind_answer)
    note law = metadata_contract.register [OF contract ok(1) r']
    show ?thesis
    proof (cases r')
      case (Inr u)
      with law mirrors_register [OF mir, of t ns d True] r show ?thesis
        by (simp add: RegisterBlob memory_store_def mem_register_blob_def)
    qed (use law mir r in \<open>simp add: mirrors_def\<close>)
  next
    case (ForgetBlob ns d)
    from run [unfolded ForgetBlob perform.simps] obtain r' where r': "ms_forget_blob (postgres_store J) ns d w = (r', t)"
      and r: "r = (case r' of Inl e \<Rightarrow> Inl e | Inr x \<Rightarrow> Inr Acknowledged)" by (rule bind_answer)
    note law = metadata_contract.forget [OF contract ok(1) r']
    show ?thesis
    proof (cases r')
      case (Inr u)
      with law mirrors_register [OF mir, of t ns d False] r show ?thesis
        by (simp add: ForgetBlob memory_store_def mem_forget_blob_def)
    qed (use law mir r in \<open>simp add: mirrors_def\<close>)
  next
    case (TouchBlobs ns ds)
    from run [unfolded TouchBlobs perform.simps] obtain r' where r': "ms_touch_blobs (postgres_store J) ns ds w = (r', t)"
      and r: "r = (case r' of Inl e \<Rightarrow> Inl e | Inr x \<Rightarrow> Inr Acknowledged)" by (rule bind_answer)
    have "mirrors J t m" using metadata_contract.touch [OF contract ok(1) r'] mir by (auto intro: mirrors_read)
    with r show ?thesis by (cases r') (simp_all add: TouchBlobs memory_store_def default_touch_blobs_def)
  next
    case (GetResult ns a)
    from run [unfolded GetResult perform.simps] obtain r' where r': "ms_get (postgres_store J) ns a w = (r', t)"
      and r: "r = (case r' of Inl e \<Rightarrow> Inl e | Inr x \<Rightarrow> Inr (FoundResult x))" by (rule bind_answer)
    note law = metadata_contract.get [OF contract ok(1) r']
    with mir have "mirrors J t m" by (auto intro: mirrors_read)
    with law mir r mem_get_run [OF J ok(2), of ns a] show ?thesis
      by (cases r') (auto simp: GetResult memory_store_def same)
  next
    case (GetResults ns as)
    from run [unfolded GetResults perform.simps] obtain r' where r': "ms_get_batch (postgres_store J) ns as w = (r', t)"
      and r: "r = (case r' of Inl e \<Rightarrow> Inl e | Inr x \<Rightarrow> Inr (FoundResults x))" by (rule bind_answer)
    note law = metadata_contract.get_batch [OF contract ok(1) r']
    with mir have "mirrors J t m" by (auto intro: mirrors_read)
    with law mir r mem_get_each [OF J ok(2), of ns as "[]"] show ?thesis
      by (cases r') (auto simp: GetResults memory_store_def default_get_batch_def same)
  next
    case (CommitResult ns a x)
    from run [unfolded CommitResult perform.simps] obtain r' where r': "ms_commit (postgres_store J) ns a x w = (r', t)"
      and r: "r = (case r' of Inl e \<Rightarrow> Inl e | Inr x \<Rightarrow> Inr (Outcome x))" by (rule bind_answer)
    from r' have "pg_commit J ns a x w = (r', t)" by (simp add: postgres_store_def)
    from mirrors_commit [OF J mir this] r show ?thesis
      by (cases r') (auto simp: CommitResult memory_store_def)
  next
    case (GetManifest ns k)
    from run [unfolded GetManifest perform.simps] obtain r' where r': "ms_get_manifest (postgres_store J) ns k w = (r', t)"
      and r: "r = (case r' of Inl e \<Rightarrow> Inl e | Inr x \<Rightarrow> Inr (FoundManifest x))" by (rule bind_answer)
    note law = metadata_contract.get_manifest [OF contract ok(1) r']
    with mir have t: "mirrors J t m" by (auto intro: mirrors_read)
    show ?thesis
    proof (cases r')
      case (Inr found)
      with law mir have "map_option (\<lambda>m. (mr_etag m, mr_manifest m)) found = mm_manifests m (ns, k)"
        by (simp add: same)
      from manifest_answer [OF this] t r Inr show ?thesis
        by (simp add: GetManifest memory_store_def mem_get_manifest_def)
    qed (use t r in simp)
  next
    case (CommitManifest ns k expected etag x)
    from run [unfolded CommitManifest perform.simps] obtain r'
      where r': "ms_commit_manifest (postgres_store J) ns k expected etag x w = (r', t)"
      and r: "r = (case r' of Inl e \<Rightarrow> Inl e | Inr x \<Rightarrow> Inr (ManifestOutcome x))" by (rule bind_answer)
    from r' have "pg_commit_manifest J ns k expected etag x w = (r', t)" by (simp add: postgres_store_def)
    from mirrors_commit_manifest [OF J mir this] r show ?thesis
      by (cases r') (auto simp: CommitManifest memory_store_def)
  qed
qed

lemma alike_all:
  assumes J: "codec_ok J"
  shows "mirrors J w m \<Longrightarrow> perform_all (postgres_store J) qs w = (rs, t) \<Longrightarrow>
    \<exists>m'. perform_all (memory_store J) (map fst (answered qs rs)) m = (map (Inr \<circ> snd) (answered qs rs), m')
      \<and> mirrors J t m'"
proof (induction qs arbitrary: w m rs)
  case (Cons q qs)
  obtain r u where step: "perform (postgres_store J) q w = (r, u)" by fastforce
  obtain rs' where rest: "perform_all (postgres_store J) qs u = (rs', t)" and rs: "rs = r # rs'"
    using Cons.prems(2) step by (auto split: prod.splits)
  note like = alike_step [OF J Cons.prems(1) step]
  show ?case
  proof (cases r)
    case (Inl e)
    with like Cons.IH [OF _ rest] rs show ?thesis by simp
  next
    case (Inr a)
    with like obtain m1 where m1: "perform (memory_store J) q m = (Inr a, m1)" "mirrors J u m1" by auto
    from Cons.IH [OF m1(2) rest] m1(1) Inr rs show ?thesis by auto
  qed
qed simp

section \<open>Nothing else fails\<close>

text \<open>
  A request that writes a row needs a key the table admits. With such keys and an environment in which
  no statement fails, every request is answered.
\<close>

fun admissible :: "meta_request \<Rightarrow> bool" where
  "admissible (RegisterBlob ns d out) = blob_row_allowed (key_of ns d)"
| "admissible (CommitResult ns a x) = result_row_allowed (key_of ns a)"
| "admissible (CommitManifest ns k expected etag m) = manifest_row_allowed (key_of ns k)"
| "admissible _ = True"

abbreviation steady :: "postgres \<Rightarrow> bool" where
  "steady w \<equiv> pg_turns w = []"

lemma steady_statements:
  assumes "steady w"
  shows "fetch q w = (Inr (q (pg_tables w)), w)"
    and "f (pg_now w) (pg_tables w) = Inr (x, db) \<Longrightarrow> execute f w = (Inr x, w\<lparr>pg_tables := db\<rparr>)"
  using assms by (simp_all add: fetch_def execute_def turn_def)

lemma steady_get:
  assumes "codec_ok J" and "pg_ok J w" and "steady w"
  shows "pg_get J ns a w = (Inr (pg_result J w ns a), w)"
proof (cases "select_result (key_of ns a) (pg_tables w)")
  case None
  then show ?thesis by (simp add: pg_get_def steady_statements(1) [OF assms(3)] db_result_def)
next
  case (Some v)
  with assms(1,2) obtain r where "jc_result_from_value J v = Inr r" "pg_result J w ns a = Some r"
    by (rule select_result_Some)
  with Some show ?thesis by (simp add: pg_get_def steady_statements(1) [OF assms(3)])
qed

lemma steady_commit:
  assumes J: "codec_ok J" and ok: "pg_ok J w" and st: "steady w" and k: "result_row_allowed (key_of ns a)"
  shows "\<exists>out t. pg_commit J ns a x w = (Inr out, t) \<and> steady t"
proof -
  obtain v where v: "jc_result_to_value J x = Inr v" using J by (rule codec_results)
  show ?thesis
  proof (cases "key_of ns a \<in> fst ` set (db_action_results (pg_tables w))")
    case False
    with k obtain db where "insert_result (key_of ns a) v (pg_now w) (pg_tables w) = Inr (1, db)"
      by (simp add: insert_result_def)
    from steady_statements(2) [where f = "insert_result (key_of ns a) v", OF st this] v st show ?thesis by (simp add: pg_commit_def)
  next
    case True
    with k have "insert_result (key_of ns a) v (pg_now w) (pg_tables w) = Inr (0, pg_tables w)"
      by (simp add: insert_result_def)
    from steady_statements(2) [where f = "insert_result (key_of ns a) v", OF st this]
    have ins: "execute (insert_result (key_of ns a) v) w = (Inr 0, w)" by simp
    from True obtain row where "map_of (db_action_results (pg_tables w)) (key_of ns a) = Some row"
      by (metis map_of_eq_None_iff not_Some_eq)
    then have "select_result (key_of ns a) (pg_tables w) = Some (rr_result row)" by (simp add: select_result_def)
    with J ok obtain y where "pg_result J w ns a = Some y" by (rule select_result_Some)
    moreover obtain v' where "jc_result_to_value J y = Inr v'" using J by (rule codec_results)
    ultimately show ?thesis using v ins st steady_get [OF J ok st] by (simp add: pg_commit_def)
  qed
qed

lemma steady_batch:
  assumes J: "codec_ok J" and ok: "pg_ok J w" and st: "steady w"
  shows "\<exists>xs. pg_get_batch J ns as w = (Inr xs, w)"
proof -
  have keys: "requested_keys ns (representable_digests as) = map (key_of ns) (filter (\<lambda>d. unat (d_size d) < 2 ^ 63) as)"
    by (simp add: representable_keys requested_keys_of)
  show ?thesis
    using decode_selected [OF J ok, of ns as]
    by (simp add: pg_get_batch_def Let_def steady_statements(1) [OF st] keys)
qed

lemma steady_manifests:
  assumes J: "codec_ok J" and ok: "pg_ok J w" and st: "steady w"
  shows "\<exists>x. pg_get_manifest J ns k w = (Inr x, w)"
    and "manifest_row_allowed (key_of ns k) \<Longrightarrow>
      \<exists>out t. pg_commit_manifest J ns k expected etag m w = (Inr out, t) \<and> steady t"
proof -
  show "\<exists>x. pg_get_manifest J ns k w = (Inr x, w)"
  proof (cases "select_manifest (key_of ns k) (pg_tables w)")
    case (Some row)
    with J ok obtain m where "jc_manifest_from_value J (mw_manifest row) = Inr m" by (rule select_manifest_Some)
    with Some show ?thesis by (simp add: pg_get_manifest_def steady_statements(1) [OF st])
  qed (simp add: pg_get_manifest_def steady_statements(1) [OF st])
next
  assume k: "manifest_row_allowed (key_of ns k)"
  obtain v where v: "jc_manifest_to_value J m = Inr v" using J by (rule codec_manifests)
  let ?q = "case expected of Some e \<Rightarrow> update_manifest (key_of ns k) e etag v | None \<Rightarrow> insert_manifest (key_of ns k) etag v"
  from k have "\<exists>p. ?q (pg_now w) (pg_tables w) = Inr p"
    by (cases expected) (simp_all add: insert_manifest_def update_manifest_def Let_def)
  then obtain n db where "?q (pg_now w) (pg_tables w) = Inr (n, db)" by auto
  from steady_statements(2) [where f = ?q, OF st this]
  have "(case expected of Some e \<Rightarrow> execute (update_manifest (key_of ns k) e etag v)
      | None \<Rightarrow> execute (insert_manifest (key_of ns k) etag v)) w = (Inr n, w\<lparr>pg_tables := db\<rparr>)"
    by (cases expected) simp_all
  with v st show "\<exists>out t. pg_commit_manifest J ns k expected etag m w = (Inr out, t) \<and> steady t"
    by (simp add: pg_commit_manifest_def)
qed

lemma steady_perform:
  assumes J: "codec_ok J" and ok: "pg_ok J w" and st: "steady w" and q: "admissible q"
  shows "\<exists>a t. perform (postgres_store J) q w = (Inr a, t) \<and> steady t"
proof (cases q)
  case (VisibleBlobs ns ds)
  with select_visible [OF ok] st show ?thesis
    by (simp add: postgres_store_def pg_visible_blobs_def Let_def steady_statements(1) [OF st])
next
  case (RegisterBlob ns d out)
  with q obtain db where "upsert_blob (key_of ns d) (out = Created) (pg_now w) (pg_tables w) = Inr ((), db)"
    by (simp add: upsert_blob_def)
  from steady_statements(2) [where f = "upsert_blob (key_of ns d) (out = Created)", OF st this] st show ?thesis by (simp add: RegisterBlob postgres_store_def pg_register_blob_def)
next
  case (ForgetBlob ns d)
  obtain db where "delete_blob (key_of ns d) (pg_now w) (pg_tables w) = Inr ((), db)" by (simp add: delete_blob_def)
  from steady_statements(2) [where f = "delete_blob (key_of ns d)", OF st this] st show ?thesis
    by (simp add: ForgetBlob postgres_store_def pg_forget_blob_def)
next
  case (TouchBlobs ns ds)
  let ?keys = "requested_keys ns (representable_digests ds)"
  obtain db where "update_accesses ?keys (pg_now w) (pg_tables w) = Inr ((), db)" by (simp add: update_accesses_def)
  from steady_statements(2) [where f = "update_accesses ?keys", OF st this] st show ?thesis
    by (simp add: TouchBlobs postgres_store_def pg_touch_blobs_def Let_def)
next
  case (GetResult ns a)
  with steady_get [OF J ok st] st show ?thesis by (simp add: postgres_store_def)
next
  case (GetResults ns as)
  obtain xs where "pg_get_batch J ns as w = (Inr xs, w)" using steady_batch [OF J ok st] by blast
  with st show ?thesis by (simp add: GetResults postgres_store_def)
next
  case (CommitResult ns a x)
  with q steady_commit [OF J ok st, of ns a x] obtain out t where "pg_commit J ns a x w = (Inr out, t)" "steady t" by auto
  then show ?thesis by (simp add: CommitResult postgres_store_def)
next
  case (GetManifest ns k)
  obtain x where "pg_get_manifest J ns k w = (Inr x, w)" using steady_manifests(1) [OF J ok st] by blast
  with st show ?thesis by (simp add: GetManifest postgres_store_def)
next
  case (CommitManifest ns k expected etag m)
  with q steady_manifests(2) [OF J ok st] obtain out t
    where "pg_commit_manifest J ns k expected etag m w = (Inr out, t)" "steady t" by fastforce
  then show ?thesis by (simp add: CommitManifest postgres_store_def)
qed

lemma steady_all:
  assumes J: "codec_ok J"
  shows "mirrors J w m \<Longrightarrow> steady w \<Longrightarrow> list_all admissible qs \<Longrightarrow> perform_all (postgres_store J) qs w = (rs, t)
    \<Longrightarrow> length rs = length qs \<and> map fst (answered qs rs) = qs"
proof (induction qs arbitrary: w m rs)
  case (Cons q qs)
  from Cons.prems(1) have "pg_ok J w" by (simp add: mirrors_def)
  with Cons.prems J obtain a u where step: "perform (postgres_store J) q w = (Inr a, u)" "steady u"
    using steady_perform by fastforce
  with alike_step [OF J Cons.prems(1) step(1)] obtain m' where m': "mirrors J u m'" by auto
  obtain rs' where rest: "perform_all (postgres_store J) qs u = (rs', t)" and rs: "rs = Inr a # rs'"
    using Cons.prems(4) step(1) by (auto split: prod.splits)
  from Cons.IH [OF m' step(2) _ rest] Cons.prems(3) rs show ?case by simp
qed simp

text \<open>
  C8. The PostgreSQL store is the in-memory store: from states that list the same, whatever requests
  follow and whichever of them fail, the answered ones are answered exactly as the in-memory store
  answers the same requests alone, and the states again list the same. Requests do not fail by
  themselves: when no statement fails and the written keys are ones the tables admit (a size below
  \<open>2 ^ 63\<close>, an algorithm of the schema), all of them are answered.
\<close>

theorem postgres_mirrors_memory:
  assumes "codec_ok J" and "mirrors J w m" and "perform_all (postgres_store J) qs w = (rs, t)"
  shows "(\<exists>m'. perform_all (memory_store J) (map fst (answered qs rs)) m = (map (Inr \<circ> snd) (answered qs rs), m')
      \<and> mirrors J t m')
    \<and> (steady w \<and> list_all admissible qs \<longrightarrow> map fst (answered qs rs) = qs)"
  using alike_all [OF assms] steady_all [OF assms(1,2) _ _ assms(3)] by blast

definition empty_postgres :: postgres where
  "empty_postgres =
     \<lparr>pg_tables = \<lparr>db_action_results = [], db_namespace_blobs = [], db_action_manifests = []\<rparr>, pg_now = 0,
      pg_turns = [], pg_pool = \<lparr>ps_max = 32, ps_open = 1, ps_idle = 1\<rparr>\<rparr>"

definition busy_postgres :: postgres where
  "busy_postgres = empty_postgres\<lparr>pg_turns := [(5, None), (7, Some PoolTimedOut), (1, None)]\<rparr>"

lemma empty_mirrors:
  "mirrors J empty_postgres memory_default" "mirrors J busy_postgres memory_default"
  by (auto simp: mirrors_def busy_postgres_def empty_postgres_def memory_default_def tables_ok_def blobs_ok_def
      results_ok_def manifests_ok_def memory_ok_def db_visible_def db_result_def db_manifest_def mem_result_def
      select_result_def select_manifest_def fun_eq_iff)

definition sample_requests :: "meta_request list" where
  "sample_requests = [RegisterBlob ''org'' sample_blake Created, ForgetBlob ''org'' sample_blake,
     VisibleBlobs ''org'' [sample_blake, sample_blake]]"

lemma sample_perform:
  "fst (perform_all (postgres_store reference_codec) sample_requests busy_postgres)
    = [Inr Acknowledged, Inl PoolTimedOut, Inr (Blobs [sample_blake, sample_blake])]"
  by (simp add: sample_requests_def postgres_store_def pg_register_blob_def pg_forget_blob_def pg_visible_blobs_def
      execute_def fetch_def turn_def busy_postgres_def empty_postgres_def upsert_blob_def blob_row_allowed_def
      key_of_def sample_blake_def representable_digests_def List.map_filter_simps requested_keys_def
      select_ordinals_def bindE_def Let_def)

theorem postgres_mirrors_memory_witness:
  "fst (perform_all (memory_store reference_codec) [RegisterBlob ''org'' sample_blake Created,
      VisibleBlobs ''org'' [sample_blake, sample_blake]] memory_default)
    = [Inr Acknowledged, Inr (Blobs [sample_blake, sample_blake])]"
proof -
  obtain rs t where run: "perform_all (postgres_store reference_codec) sample_requests busy_postgres = (rs, t)" by fastforce
  with sample_perform have rs: "rs = [Inr Acknowledged, Inl PoolTimedOut, Inr (Blobs [sample_blake, sample_blake])]"
    by simp
  from postgres_mirrors_memory [OF reference_codec_ok empty_mirrors(2) run] show ?thesis
    unfolding rs sample_requests_def by auto
qed

section \<open>Sweeping\<close>

text \<open>
  The fields of an encoded result the sweep looks at: the derived \<open>Serialize\<close> writes a digest as an
  object under the field's name, and an absent one as \<open>null\<close> or not at all.
\<close>

definition field_is :: "json \<Rightarrow> string \<Rightarrow> digest option \<Rightarrow> bool" where
  "field_is v name d \<longleftrightarrow>
     (case d of
        None \<Rightarrow> (case json_get v name of None \<Rightarrow> True | Some x \<Rightarrow> \<not> is_object x)
      | Some d \<Rightarrow> json_get v name = Some (json_of_digest d))"

definition result_fields_ok :: "json_codec \<Rightarrow> bool" where
  "result_fields_ok J \<longleftrightarrow> (\<forall>r v. jc_result_to_value J r = Inr v \<longrightarrow>
     field_is v ''metadata'' (ar_metadata r) \<and> field_is v ''output_root'' (ar_output_root r))"

definition named_by :: "action_result \<Rightarrow> digest set" where
  "named_by x = set_option (ar_metadata x) \<union> set_option (ar_output_root x)"

lemma turn_later: "turn w = (r, t) \<Longrightarrow> pg_now w \<le> pg_now t"
  by (auto simp: turn_def split: list.splits prod.splits)

lemma turn_then:
  assumes "bindE turn f w = (r, t)"
  obtains (failed) e where "r = Inl e" "pg_tables t = pg_tables w"
    | (ran) u where "pg_tables u = pg_tables w" "pg_now w \<le> pg_now u" "f () u = (r, t)"
proof -
  obtain r' u where turn: "turn w = (r', u)" by fastforce
  note u = turn_run [OF turn] turn_later [OF turn]
  show thesis
  proof (cases r')
    case (Inl e)
    with turn assms u show thesis by (intro failed [of e]) simp_all
  next
    case (Inr x)
    with turn assms u show thesis by (intro ran [of u]) simp_all
  qed
qed

lemma bind_assoc: "bindE (bindE m g) f = bindE m (\<lambda>x. bindE (g x) f)"
  by (simp add: bindE_def fun_eq_iff split: prod.split sum.split)

lemma sweep_run:
  assumes run: "pg_sweep days w = (r, t)"
  obtains (failed) e where "r = Inl e" "pg_tables t = pg_tables w"
    | (swept) now b1 d1 b2 d2 b3 where "pg_now w \<le> now" "delete_old_blobs (sweep_age days) now (pg_tables w) = (b1, d1)"
      "delete_dangling_results d1 = (b2, d2)" "delete_old_manifests (sweep_age days) now d2 = (b3, pg_tables t)"
      "r = Inr \<lparr>so_blobs = b1, so_action_results = b2, so_manifests = b3\<rparr>"
  using run unfolding pg_sweep_def Let_def begin_transaction_def commit_transaction_def bind_assoc
proof (cases rule: turn_then)
  case (ran u)
  note begun = ran(1,2)
  let ?now = "pg_now u"
  obtain b1 d1 where d1: "delete_old_blobs (sweep_age days) ?now (pg_tables w) = (b1, d1)" by fastforce
  obtain b2 d2 where d2: "delete_dangling_results d1 = (b2, d2)" by fastforce
  obtain b3 d3 where d3: "delete_old_manifests (sweep_age days) ?now d2 = (b3, d3)" by fastforce
  from ran(3) have "bindE turn (\<lambda>_. bindE turn (\<lambda>_. bindE turn (\<lambda>_. bindE turn (\<lambda>_.
      bindE (modifyE (\<lambda>w. w\<lparr>pg_tables := d3\<rparr>)) (\<lambda>_.
      returnE \<lparr>so_blobs = b1, so_action_results = b2, so_manifests = b3\<rparr>))))) u = (r, t)"
    by (simp add: begun d1 d2 d3 bindE_def [of "\<lambda>w. (Inr (pg_now w, pg_tables w), w)"])
  then show thesis
  proof (cases rule: turn_then)
    case (ran u2)
    note u2 = ran(1)
    from ran(3) show thesis
    proof (cases rule: turn_then)
      case (ran u3)
      note u3 = ran(1)
      from ran(3) show thesis
      proof (cases rule: turn_then)
        case (ran u4)
        note u4 = ran(1)
        from ran(3) show thesis
        proof (cases rule: turn_then)
          case (ran u5)
          with begun(2) d1 d2 d3 show thesis by (intro swept) auto
        qed (use failed begun u2 u3 u4 in simp)
      qed (use failed begun u2 u3 in simp)
    qed (use failed begun u2 in simp)
  qed (use failed begun in simp)
qed (use failed in simp)

text \<open>A stored result is dangling exactly when it names a blob that is not listed.\<close>

lemma lists_reference_digest:
  "lists_reference ns (json_of_digest d) k \<longleftrightarrow> k = key_of ns d \<and> unat (d_size d) < 2 ^ 63"
proof -
  have "lists_reference ns (json_of_digest d) k \<longleftrightarrow> k = (ns, d_algorithm d, d_hash d, int (unat (d_size d)))
      \<and> unat (d_size d) < 2 ^ 63"
    by (cases k) (auto simp: lists_reference_def json_of_digest_def json_get_def json_text_def json_bigint_def)
  then show ?thesis using sint_size(1) [of "d_size d"] by (metis key_of_def)
qed

lemma listed_digest:
  assumes "blobs_ok (db_namespace_blobs db)"
  shows "list_ex (\<lambda>(k, _). lists_reference ns (json_of_digest d) k) (db_namespace_blobs db) \<longleftrightarrow> db_visible db ns d"
proof -
  have "unat (d_size d) < 2 ^ 63" if "db_visible db ns d"
  proof -
    from that assms have "blob_row_allowed (key_of ns d)" by (auto simp: blobs_ok_def db_visible_def)
    then show ?thesis by (simp add: blob_row_allowed_def key_of_def sint_size(2))
  qed
  moreover have "list_ex (\<lambda>(k, _). lists_reference ns (json_of_digest d) k) (db_namespace_blobs db) \<longleftrightarrow>
      unat (d_size d) < 2 ^ 63 \<and> key_of ns d \<in> fst ` set (db_namespace_blobs db)"
    unfolding list_ex_iff lists_reference_digest by force
  ultimately show ?thesis unfolding db_visible_def by blast
qed

lemma dangling_field:
  assumes "blobs_ok (db_namespace_blobs db)" and "field_is v name d"
  shows "(case json_get v name of None \<Rightarrow> False
      | Some x \<Rightarrow> is_object x \<and> \<not> list_ex (\<lambda>(k, _). lists_reference ns x k) (db_namespace_blobs db))
    \<longleftrightarrow> (\<exists>e. d = Some e \<and> \<not> db_visible db ns e)"
proof (cases d)
  case (Some e)
  moreover have "is_object (json_of_digest e)" by (simp add: is_object_def json_of_digest_def)
  ultimately show ?thesis using assms listed_digest [OF assms(1)] by (simp add: field_is_def)
qed (use assms in \<open>auto simp: field_is_def split: option.splits\<close>)

lemma dangling_iff:
  assumes "result_fields_ok J" and "blobs_ok (db_namespace_blobs db)" and "jc_result_to_value J x = Inr (rr_result row)"
  shows "dangling (db_namespace_blobs db) (key_of ns a, row) \<longleftrightarrow> (\<exists>d \<in> named_by x. \<not> db_visible db ns d)"
proof -
  from assms(1,3) have "field_is (rr_result row) ''metadata'' (ar_metadata x)"
    and "field_is (rr_result row) ''output_root'' (ar_output_root x)" by (auto simp: result_fields_ok_def)
  from dangling_field [OF assms(2) this(1), of ns] dangling_field [OF assms(2) this(2), of ns] show ?thesis
    by (auto simp: dangling_def key_of_def named_by_def)
qed

lemma map_of_filter_unique:
  assumes "distinct (map fst rows)"
  shows "map_of (filter P rows) k = (case map_of rows k of Some v \<Rightarrow> if P (k, v) then Some v else None | None \<Rightarrow> None)"
  using assms
proof (induction rows)
  case (Cons r rows)
  obtain j v where r: "r = (j, v)" by fastforce
  with Cons.prems have "map_of rows j = None" by (simp add: map_of_eq_None_iff)
  with Cons r show ?case by (auto split: option.splits)
qed simp

lemma filter_rows_ok:
  "blobs_ok rows \<Longrightarrow> blobs_ok (filter P rows)"
  "results_ok J results \<Longrightarrow> results_ok J (filter Q results)"
  "manifests_ok J manifests \<Longrightarrow> manifests_ok J (filter R manifests)"
  by (simp_all add: blobs_ok_def results_ok_def manifests_ok_def distinct_map_filter)

lemma delete_dangling_result:
  assumes J: "codec_ok J" and fields: "result_fields_ok J" and ok: "tables_ok J db"
    and del: "delete_dangling_results db = (n, db')"
  shows "db_result J db' ns a = Some x \<longleftrightarrow> db_result J db ns a = Some x \<and> (\<forall>d \<in> named_by x. db_visible db ns d)"
proof -
  let ?k = "key_of ns a" and ?gone = "dangling (db_namespace_blobs db)"
  from del have db': "db_action_results db' = filter (\<lambda>r. \<not> ?gone r) (db_action_results db)"
    by (auto simp: delete_dangling_results_def Let_def)
  from ok have dist: "distinct (map fst (db_action_results db))" and blobs: "blobs_ok (db_namespace_blobs db)"
    by (auto simp: tables_ok_def results_ok_def)
  have row: "map_of (db_action_results db') ?k = (case map_of (db_action_results db) ?k of
      Some row \<Rightarrow> if \<not> ?gone (?k, row) then Some row else None | None \<Rightarrow> None)"
    by (simp only: db' map_of_filter_unique [OF dist])
  show ?thesis
  proof (cases "map_of (db_action_results db) ?k")
    case (Some r)
    then have "select_result ?k db = Some (rr_result r)" by (simp add: select_result_def)
    with J ok obtain y where y: "jc_result_to_value J y = Inr (rr_result r)"
      "jc_result_from_value J (rr_result r) = Inr y" "db_result J db ns a = Some y" by (rule select_result_Some)
    note gone = dangling_iff [OF fields blobs y(1), of ns a]
    from Some row y(2) have "db_result J db' ns a = (if ?gone (?k, r) then None else Some y)"
      by (simp add: db_result_def select_result_def)
    with gone y(3) show ?thesis by auto
  qed (use row in \<open>simp add: db_result_def select_result_def\<close>)
qed

lemma removed_rows: "length (filter P rows) = length rows - length (filter (\<lambda>r. \<not> P r) rows)"
  using sum_length_filter_compl [of P rows] by simp

lemma delete_old_blobs_run:
  assumes ok: "tables_ok J db" and del: "delete_old_blobs age now db = (n, db')"
  shows "tables_ok J db' \<and> db_result J db' = db_result J db \<and> db_action_results db' = db_action_results db
      \<and> db_action_manifests db' = db_action_manifests db"
    and "db_visible db' ns d \<longleftrightarrow>
      (\<exists>row. (key_of ns d, row) \<in> set (db_namespace_blobs db) \<and> now - age \<le> br_created_at row)"
    and "n = of_nat (length (db_namespace_blobs db) - length (db_namespace_blobs db'))"
proof -
  let ?old = "\<lambda>(k :: row_key, row). br_created_at row < now - age"
  from del have db': "db' = db\<lparr>db_namespace_blobs := filter (\<lambda>r. \<not> ?old r) (db_namespace_blobs db)\<rparr>"
    and n: "n = of_nat (length (filter ?old (db_namespace_blobs db)))"
    by (auto simp: delete_old_blobs_def Let_def)
  from ok have "tables_ok J db'" by (simp add: db' tables_ok_def filter_rows_ok)
  then show "tables_ok J db' \<and> db_result J db' = db_result J db \<and> db_action_results db' = db_action_results db
      \<and> db_action_manifests db' = db_action_manifests db" by (simp add: db' tables_frame)
  show "db_visible db' ns d \<longleftrightarrow>
      (\<exists>row. (key_of ns d, row) \<in> set (db_namespace_blobs db) \<and> now - age \<le> br_created_at row)"
    by (force simp: db_visible_def db')
  show "n = of_nat (length (db_namespace_blobs db) - length (db_namespace_blobs db'))"
    unfolding n by (subst removed_rows) (simp add: db')
qed

lemma delete_dangling_run:
  assumes ok: "tables_ok J db" and del: "delete_dangling_results db = (n, db')"
  shows "tables_ok J db' \<and> db_namespace_blobs db' = db_namespace_blobs db \<and> db_action_manifests db' = db_action_manifests db"
    and "n = of_nat (length (db_action_results db) - length (db_action_results db'))"
proof -
  let ?gone = "dangling (db_namespace_blobs db)"
  from del have db': "db' = db\<lparr>db_action_results := filter (\<lambda>r. \<not> ?gone r) (db_action_results db)\<rparr>"
    and n: "n = of_nat (length (filter ?gone (db_action_results db)))"
    by (auto simp: delete_dangling_results_def Let_def)
  from ok show "tables_ok J db' \<and> db_namespace_blobs db' = db_namespace_blobs db
      \<and> db_action_manifests db' = db_action_manifests db"
    by (simp add: db' tables_ok_def filter_rows_ok)
  show "n = of_nat (length (db_action_results db) - length (db_action_results db'))"
    unfolding n by (subst removed_rows) (simp add: db')
qed

lemma delete_old_manifests_run:
  assumes ok: "tables_ok J db" and del: "delete_old_manifests age now db = (n, db')"
  shows "tables_ok J db' \<and> db_namespace_blobs db' = db_namespace_blobs db \<and> db_action_results db' = db_action_results db"
    and "db_manifest J db' ns k = (case select_manifest (key_of ns k) db of
        None \<Rightarrow> None
      | Some row \<Rightarrow> if now - age \<le> mw_updated_at row then db_manifest J db ns k else None)"
    and "n = of_nat (length (db_action_manifests db) - length (db_action_manifests db'))"
proof -
  let ?old = "\<lambda>(k :: row_key, row). mw_updated_at row < now - age"
  from del have db': "db' = db\<lparr>db_action_manifests := filter (\<lambda>r. \<not> ?old r) (db_action_manifests db)\<rparr>"
    and n: "n = of_nat (length (filter ?old (db_action_manifests db)))"
    by (auto simp: delete_old_manifests_def Let_def)
  from ok show "tables_ok J db' \<and> db_namespace_blobs db' = db_namespace_blobs db
      \<and> db_action_results db' = db_action_results db"
    by (simp add: db' tables_ok_def filter_rows_ok)
  from ok have "distinct (map fst (db_action_manifests db))" by (simp add: tables_ok_def manifests_ok_def)
  note map_of_filter_unique [OF this, of "\<lambda>r. \<not> ?old r"]
  then show "db_manifest J db' ns k = (case select_manifest (key_of ns k) db of
        None \<Rightarrow> None
      | Some row \<Rightarrow> if now - age \<le> mw_updated_at row then db_manifest J db ns k else None)"
    by (simp add: db' db_manifest_def select_manifest_def split: option.split)
  show "n = of_nat (length (db_action_manifests db) - length (db_action_manifests db'))"
    unfolding n by (subst removed_rows) (simp add: db')
qed

text \<open>
  C13. A sweep is all or nothing, and safe for readers. If it fails, the tables are as they were. If it
  succeeds, then for the time it began: the blobs still listed are the ones created no longer ago than
  its age; the results still stored are exactly those all of whose top-level objects are still listed,
  unchanged, so no reader finds one whose blobs the sweep has removed; the manifests still stored are
  the ones updated within the age; and the outcome counts the rows removed.
\<close>

theorem sweep_leaves_no_dangling:
  assumes "codec_ok J" and "result_fields_ok J" and "pg_ok J w" and "ms_sweep (postgres_store J) days w = (r, t)"
  shows "case r of
      Inl e \<Rightarrow> pg_tables t = pg_tables w
    | Inr out \<Rightarrow> pg_ok J t \<and> (\<exists>now \<ge> pg_now w.
        (\<forall>ns d. pg_visible t ns d \<longleftrightarrow> (\<exists>row. (key_of ns d, row) \<in> set (db_namespace_blobs (pg_tables w))
          \<and> now - sweep_age days \<le> br_created_at row))
        \<and> (\<forall>ns a x. pg_result J t ns a = Some x \<longleftrightarrow>
          pg_result J w ns a = Some x \<and> (\<forall>d \<in> named_by x. pg_visible t ns d))
        \<and> (\<forall>ns k. pg_manifest J t ns k = (case select_manifest (key_of ns k) (pg_tables w) of
            None \<Rightarrow> None
          | Some row \<Rightarrow> if now - sweep_age days \<le> mw_updated_at row then pg_manifest J w ns k else None)))
        \<and> out = \<lparr>so_blobs = of_nat (length (db_namespace_blobs (pg_tables w)) - length (db_namespace_blobs (pg_tables t))),
          so_action_results = of_nat (length (db_action_results (pg_tables w)) - length (db_action_results (pg_tables t))),
          so_manifests = of_nat (length (db_action_manifests (pg_tables w)) - length (db_action_manifests (pg_tables t)))\<rparr>"
proof -
  from assms(4) have "pg_sweep days w = (r, t)" by (simp add: postgres_store_def)
  then show ?thesis
  proof (cases rule: sweep_run)
    case (swept now b1 d1 b2 d2 b3)
    note r1 = delete_old_blobs_run [OF assms(3) swept(2)]
    from r1(1) have ok1: "tables_ok J d1" by blast
    note r2 = delete_dangling_run [OF ok1 swept(3)]
    from r2(1) have ok2: "tables_ok J d2" by blast
    note r3 = delete_old_manifests_run [OF ok2 swept(4)]
    have vis: "pg_visible t = db_visible d1" using r2(1) r3(1) by (simp add: db_visible_def fun_eq_iff)
    have res: "pg_result J t = db_result J d2" using r3(1) by (simp add: db_result_def select_result_def fun_eq_iff)
    have res1: "db_result J d1 = pg_result J w" using r1(1) by blast
    have sel: "select_manifest k d2 = select_manifest k (pg_tables w)" for k
      using r1(1) r2(1) by (simp add: select_manifest_def)
    then have man: "db_manifest J d2 = pg_manifest J w" by (simp add: db_manifest_def fun_eq_iff)
    show ?thesis
      using swept(1,5) r1 r2 r3 delete_dangling_result [OF assms(1,2) ok1 swept(3)]
      unfolding vis res res1 sel man by (auto intro!: exI [of _ now])
  qed simp
qed

text \<open>A result whose blob was registered two days ago, swept with an age of one day.\<close>

definition aged_postgres :: postgres where
  "aged_postgres = empty_postgres\<lparr>
     pg_tables := \<lparr>
       db_action_results = [(key_of ''org'' sample_blake, \<lparr>rr_result = json_of_result sample_result, rr_created_at = 0\<rparr>)],
       db_namespace_blobs = [(key_of ''org'' sample_blake, \<lparr>br_created_at = 0, br_last_accessed_at = 0\<rparr>)],
       db_action_manifests = []\<rparr>,
     pg_now := 2 * (24 * 60 * 60 * 1000000)\<rparr>"

lemma reference_fields_ok: "result_fields_ok reference_codec"
  by (auto simp: result_fields_ok_def reference_codec_def json_of_result_def field_is_def json_get_def
      json_of_optional_def is_object_def split: option.split)

lemma aged_ok: "pg_ok reference_codec aged_postgres"
proof -
  have "jc_result_to_value reference_codec sample_result = Inr (json_of_result sample_result)"
    by (simp add: reference_codec_def)
  then show ?thesis
    by (auto simp: aged_postgres_def empty_postgres_def tables_ok_def blobs_ok_def results_ok_def manifests_ok_def
        blob_row_allowed_def result_row_allowed_def key_of_def sample_blake_def)
qed

lemma steady_sweep: "steady w \<Longrightarrow> \<exists>out. fst (pg_sweep days w) = Inr out"
  by (simp add: pg_sweep_def begin_transaction_def commit_transaction_def bindE_def turn_def Let_def split: prod.split)

theorem sweep_leaves_no_dangling_witness:
  "\<exists>out t. ms_sweep (postgres_store reference_codec) 1 aged_postgres = (Inr out, t)
    \<and> pg_visible aged_postgres ''org'' sample_blake \<and> pg_result reference_codec aged_postgres ''org'' sample_blake = Some sample_result
    \<and> \<not> pg_visible t ''org'' sample_blake \<and> pg_result reference_codec t ''org'' sample_blake = None"
proof -
  have "steady aged_postgres" by (simp add: aged_postgres_def empty_postgres_def)
  from steady_sweep [OF this, of 1] obtain out where "fst (pg_sweep 1 aged_postgres) = Inr out" by blast
  then obtain t where run: "ms_sweep (postgres_store reference_codec) 1 aged_postgres = (Inr out, t)"
    by (cases "pg_sweep 1 aged_postgres") (simp add: postgres_store_def)
  have vis: "pg_visible aged_postgres ''org'' sample_blake"
    by (simp add: db_visible_def aged_postgres_def)
  have res: "pg_result reference_codec aged_postgres ''org'' sample_blake = Some sample_result"
    by (simp add: db_result_def select_result_def aged_postgres_def reference_codec_def result_of_json)
  note swept = sweep_leaves_no_dangling [OF reference_codec_ok reference_fields_ok aged_ok run, unfolded sum.case]
  then obtain now where now: "pg_now aged_postgres \<le> now"
    and listed: "\<And>ns d. pg_visible t ns d \<longleftrightarrow> (\<exists>row. (key_of ns d, row) \<in> set (db_namespace_blobs (pg_tables aged_postgres))
          \<and> now - sweep_age 1 \<le> br_created_at row)"
    and kept: "\<And>ns a x. pg_result reference_codec t ns a = Some x \<longleftrightarrow>
          pg_result reference_codec aged_postgres ns a = Some x \<and> (\<forall>d \<in> named_by x. pg_visible t ns d)" by blast
  have gone: "\<not> pg_visible t ''org'' sample_blake"
    using now listed [of "''org''" sample_blake] by (simp add: aged_postgres_def sweep_age_def)
  have "sample_blake \<in> named_by sample_result" by (simp add: named_by_def sample_result_def)
  with gone res have "pg_result reference_codec t ''org'' sample_blake \<noteq> Some x" for x
    using kept [of "''org''" sample_blake x] by auto
  then have "pg_result reference_codec t ''org'' sample_blake = None" by (metis option.exhaust)
  with run vis res gone show ?thesis by blast
qed

end
