(* ===== verification/Admission.thy ===== *)
theory Admission
  imports Metadata
begin

text \<open>
  Two bounds of \<open>src/server.rs\<close> on what requests may hold: \<open>SpoolBudget\<close>, the bytes uploads may have
  spooled on disk, and \<open>PendingAccess\<close>, the accesses served but not yet written. A budget is the number
  of free permits of its semaphore, none when there is no budget; \<open>usize\<close> has 64 bits. The pending map
  is the association list of its entries, its sets are lists without duplicates; the order in which a
  \<open>HashMap\<close> or a \<open>HashSet\<close> yields its elements is unspecified, and nothing below depends on it.
\<close>

section \<open>The spool\<close>

type_synonym spool = "nat option"

definition max_permits :: nat where "max_permits = 2 ^ 61 - 1"

definition spool_new :: "u64 \<Rightarrow> spool" where
  "spool_new max_bytes =
     (if max_bytes > 0
      then Some (min (if div_ceil (unat max_bytes) 1024 < 2 ^ 64 then div_ceil (unat max_bytes) 1024
                      else 2 ^ 64 - 1) max_permits)
      else None)"

text \<open>\<open>reserve\<close> returns the permits the upload holds, \<open>release\<close> is their drop.\<close>

definition reserve :: "u64 \<Rightarrow> (spool, api_error, nat option) comp" where
  "reserve n s =
     (case s of
        None \<Rightarrow> (Inr None, s)
      | Some free \<Rightarrow>
          let permits = div_ceil (unat n) 1024 in
          if \<not> permits < 2 ^ 32 then (Inl (too_large ''blob exceeds the upload spool''), s)
          else if permits \<le> free then (Inr (Some permits), Some (free - permits))
          else (Inl (unavailable ''upload spool is full, retry later''), s))"

definition release :: "nat option \<Rightarrow> spool \<Rightarrow> spool" where
  "release permit s =
     (case permit of None \<Rightarrow> s | Some k \<Rightarrow> (case s of None \<Rightarrow> None | Some free \<Rightarrow> Some (free + k)))"

text \<open>Any interleaving of uploads starting and ending; \<open>held\<close> lists the sizes of the ones under way.\<close>

inductive spool_reach :: "u64 \<Rightarrow> spool \<Rightarrow> (u64 \<times> nat option) list \<Rightarrow> bool" for budget where
  start: "spool_reach budget (spool_new budget) []"
| admit: "spool_reach budget s held \<Longrightarrow> reserve n s = (Inr k, t) \<Longrightarrow> spool_reach budget t ((n, k) # held)"
| refuse: "spool_reach budget s held \<Longrightarrow> reserve n s = (Inl e, t) \<Longrightarrow> spool_reach budget t held"
| finish: "spool_reach budget s (before @ (n, k) # after) \<Longrightarrow> spool_reach budget (release k s) (before @ after)"

definition spool_permits :: "u64 \<Rightarrow> nat" where
  "spool_permits budget = div_ceil (unat budget) 1024"

lemma spool_permits_small: "spool_permits budget < 2 ^ 55"
proof -
  have "div_ceil (unat budget) 1024 * 1024 < unat budget + 1024" by (rule div_ceil_bounds) simp
  moreover have "unat budget < 2 ^ 64" by simp
  ultimately have "div_ceil (unat budget) 1024 * 1024 < 2 ^ 64 + 1024" by linarith
  then show ?thesis by (simp add: spool_permits_def)
qed

lemma spool_new_eq: "spool_new budget = (if budget > 0 then Some (spool_permits budget) else None)"
  using spool_permits_small [of budget]
  by (simp add: spool_new_def max_permits_def flip: spool_permits_def)

lemma reserve_None: "reserve n None = (Inr None, None)"
  by (simp add: reserve_def)

lemma reserve_Some_cases:
  assumes "reserve n (Some free) = (r, t)"
  obtains (taken) "r = Inr (Some (div_ceil (unat n) 1024))" "div_ceil (unat n) 1024 \<le> free"
      "div_ceil (unat n) 1024 < 2 ^ 32" "t = Some (free - div_ceil (unat n) 1024)"
    | (oversize) "r = Inl (too_large ''blob exceeds the upload spool'')" "2 ^ 32 \<le> div_ceil (unat n) 1024"
      "t = Some free"
    | (full) "r = Inl (unavailable ''upload spool is full, retry later'')" "free < div_ceil (unat n) 1024"
      "t = Some free"
proof -
  let ?p = "div_ceil (unat n) 1024"
  consider "\<not> ?p < 2 ^ 32" | "?p < 2 ^ 32" "?p \<le> free" | "?p < 2 ^ 32" "free < ?p" by linarith
  then show thesis
  proof cases
    case 1
    with assms have "r = Inl (too_large ''blob exceeds the upload spool'')" "t = Some free"
      by (auto simp: reserve_def Let_def)
    with 1 show thesis by (intro oversize) simp_all
  next
    case 2
    with assms have "r = Inr (Some ?p)" "t = Some (free - ?p)" by (auto simp: reserve_def Let_def)
    with 2 show thesis by (intro taken)
  next
    case 3
    with assms have "r = Inl (unavailable ''upload spool is full, retry later'')" "t = Some free"
      by (auto simp: reserve_def Let_def)
    with 3 show thesis by (intro full)
  qed
qed

definition spool_accounts :: "u64 \<Rightarrow> spool \<Rightarrow> (u64 \<times> nat option) list \<Rightarrow> bool" where
  "spool_accounts budget s held \<longleftrightarrow>
     (if budget = 0 then s = None \<and> (\<forall>h \<in> set held. snd h = None)
      else (\<forall>h \<in> set held. snd h = Some (div_ceil (unat (fst h)) 1024))
        \<and> (\<exists>free. s = Some free
            \<and> free + sum_list (map (\<lambda>h. div_ceil (unat (fst h)) 1024) held) = spool_permits budget))"

lemma spool_reach_accounts: "spool_reach budget s held \<Longrightarrow> spool_accounts budget s held"
proof (induction rule: spool_reach.induct)
  case start
  then show ?case by (auto simp: spool_accounts_def spool_new_eq word_gt_0)
next
  case (admit s held n k t)
  show ?case
  proof (cases "budget = 0")
    case True
    with admit show ?thesis by (simp add: spool_accounts_def reserve_None)
  next
    case False
    with admit.IH obtain free where s: "s = Some free"
      and f: "free + sum_list (map (\<lambda>h. div_ceil (unat (fst h)) 1024) held) = spool_permits budget"
      and h: "\<forall>h \<in> set held. snd h = Some (div_ceil (unat (fst h)) 1024)"
      by (auto simp: spool_accounts_def)
    from admit.hyps(2) s have "reserve n (Some free) = (Inr k, t)" by simp
    then show ?thesis
      by (cases rule: reserve_Some_cases) (use False f h in \<open>simp_all add: spool_accounts_def\<close>)
  qed
next
  case (refuse s held n e t)
  have "t = s"
  proof (cases s)
    case None
    with refuse.hyps(2) show ?thesis by (simp add: reserve_None)
  next
    case (Some free)
    with refuse.hyps(2) have "reserve n (Some free) = (Inl e, t)" by simp
    then show ?thesis by (cases rule: reserve_Some_cases) (simp_all add: Some)
  qed
  with refuse.IH show ?case by simp
next
  case (finish s before n k after)
  then show ?case by (auto simp: spool_accounts_def release_def)
qed

lemma sum_div_ceil: "sum_list (map f xs) \<le> sum_list (map (\<lambda>x. div_ceil (f x) 1024) xs) * 1024"
proof (induction xs)
  case (Cons x xs)
  have "f x \<le> div_ceil (f x) 1024 * 1024" by (rule div_ceil_bounds) simp
  with Cons show ?case by (simp add: add_mult_distrib)
qed simp

section \<open>Pending accesses\<close>

definition max_pending_accesses :: nat where "max_pending_accesses = 100000"

record pending =
  pa_namespaces :: "(string \<times> digest list) list"
  pa_len :: nat

definition pending_default :: pending where
  "pending_default = \<lparr>pa_namespaces = [], pa_len = 0\<rparr>"

fun note_accesses :: "digest list \<Rightarrow> digest list \<times> nat \<Rightarrow> digest list \<times> nat" where
  "note_accesses [] (held, len) = (held, len)"
| "note_accesses (d # ds) (held, len) =
     (if len \<ge> max_pending_accesses then (held, len)
      else if d \<in> set held then note_accesses ds (held, len)
      else note_accesses ds (held @ [d], len + 1))"

fun update_entry :: "string \<Rightarrow> digest list \<Rightarrow> (string \<times> digest list) list \<Rightarrow> (string \<times> digest list) list" where
  "update_entry ns held [] = [(ns, held)]"
| "update_entry ns held ((m, ds) # entries) =
     (if m = ns then (m, held) # entries else (m, ds) # update_entry ns held entries)"

definition record_access :: "string \<Rightarrow> digest list \<Rightarrow> pending \<Rightarrow> pending" where
  "record_access namespace ds p =
     (if ds = [] \<or> pa_len p \<ge> max_pending_accesses then p
      else
        let held = (case map_of (pa_namespaces p) namespace of None \<Rightarrow> [] | Some h \<Rightarrow> h);
            (held', len') = note_accesses ds (held, pa_len p)
        in \<lparr>pa_namespaces = update_entry namespace held' (pa_namespaces p), pa_len = len'\<rparr>)"

text \<open>\<open>flush\<close>: the map is taken, then written by one \<open>touch_blobs\<close> per chunk; failures are only counted.\<close>

definition flush_calls :: "nat \<Rightarrow> pending \<Rightarrow> (string \<times> digest list) list" where
  "flush_calls batch p =
     concat (map (\<lambda>(ns, ds). map (\<lambda>chunk. (ns, chunk)) (chunks_of batch ds)) (pa_namespaces p))"

fun touch_each :: "'m metadata_store \<Rightarrow> (string \<times> digest list) list \<Rightarrow> nat \<Rightarrow> 'm \<Rightarrow> nat \<times> 'm" where
  "touch_each S [] failed m = (failed, m)"
| "touch_each S ((ns, chunk) # calls) failed m =
     (case ms_touch_blobs S ns chunk m of
        (Inl _, m') \<Rightarrow> touch_each S calls (failed + 1) m'
      | (Inr _, m') \<Rightarrow> touch_each S calls failed m')"

definition flush :: "protocol \<Rightarrow> 'm metadata_store \<Rightarrow> pending \<times> 'm \<Rightarrow> nat \<times> pending \<times> 'm" where
  "flush P S = (\<lambda>(p, m).
     case touch_each S (flush_calls (max_batch_items P) p) 0 m of
       (failed, m') \<Rightarrow> (failed, pending_default, m'))"

definition pending_pairs :: "pending \<Rightarrow> (string \<times> digest) set" where
  "pending_pairs p = {(ns, d). \<exists>ds. (ns, ds) \<in> set (pa_namespaces p) \<and> d \<in> set ds}"

definition pending_ok :: "pending \<Rightarrow> bool" where
  "pending_ok p \<longleftrightarrow> distinct (map fst (pa_namespaces p))
     \<and> (\<forall>(ns, ds) \<in> set (pa_namespaces p). ds \<noteq> [] \<and> distinct ds)
     \<and> pa_len p = sum_list (map (length \<circ> snd) (pa_namespaces p)) \<and> pa_len p \<le> max_pending_accesses"

lemma note_accesses_facts:
  assumes "note_accesses ds (held, len) = (held', len')" and "len \<le> max_pending_accesses"
  shows "\<exists>new. held' = held @ new \<and> len' = len + length new \<and> set new \<subseteq> set ds
    \<and> (distinct held \<longrightarrow> distinct held') \<and> len' \<le> max_pending_accesses
    \<and> (len' < max_pending_accesses \<longrightarrow> set ds \<subseteq> set held')
    \<and> (ds \<noteq> [] \<and> len < max_pending_accesses \<longrightarrow> held' \<noteq> [])"
  using assms
proof (induction ds arbitrary: held len)
  case Nil
  then show ?case by simp
next
  case (Cons d ds)
  consider "len \<ge> max_pending_accesses" | "len < max_pending_accesses" "d \<in> set held"
    | "len < max_pending_accesses" "d \<notin> set held" by linarith
  then show ?case
  proof cases
    case 1
    with Cons.prems show ?thesis by simp
  next
    case 2
    with Cons.prems(1) have "note_accesses ds (held, len) = (held', len')" by simp
    from Cons.IH [OF this Cons.prems(2)] 2 show ?thesis by fastforce
  next
    case 3
    with Cons.prems(1) have run: "note_accesses ds (held @ [d], len + 1) = (held', len')" by simp
    from Cons.IH [OF run] 3 obtain new where "held' = (held @ [d]) @ new"
      "len' = len + 1 + length new" "set new \<subseteq> set ds" "distinct (held @ [d]) \<longrightarrow> distinct held'"
      "len' \<le> max_pending_accesses" "len' < max_pending_accesses \<longrightarrow> set ds \<subseteq> set held'"
      by fastforce
    with 3 show ?thesis by (intro exI [of _ "d # new"]) auto
  qed
qed

lemma update_entry_facts:
  assumes "distinct (map fst entries)"
  shows "distinct (map fst (update_entry ns held entries))"
    and "set (update_entry ns held entries) = {e \<in> set entries. fst e \<noteq> ns} \<union> {(ns, held)}"
    and "sum_list (map (length \<circ> snd) (update_entry ns held entries)) + (case map_of entries ns of None \<Rightarrow> 0 | Some h \<Rightarrow> length h)
      = sum_list (map (length \<circ> snd) entries) + length held"
proof -
  have s: "set (update_entry ns held entries) = {e \<in> set entries. fst e \<noteq> ns} \<union> {(ns, held)}"
    using assms by (induction entries) force+
  then show "set (update_entry ns held entries) = {e \<in> set entries. fst e \<noteq> ns} \<union> {(ns, held)}" .
  have keys: "map fst (update_entry ns held es) = (if ns \<in> fst ` set es then map fst es else map fst es @ [ns])" for es
    by (induction es) force+
  show "distinct (map fst (update_entry ns held entries))" using assms by (auto simp: keys)
  show "sum_list (map (length \<circ> snd) (update_entry ns held entries)) + (case map_of entries ns of None \<Rightarrow> 0 | Some h \<Rightarrow> length h)
      = sum_list (map (length \<circ> snd) entries) + length held"
    by (induction entries) (auto split: option.splits)
qed

lemma record_access_ok:
  assumes ok: "pending_ok p"
  shows "pending_ok (record_access ns ds p)"
    and "pending_pairs p \<subseteq> pending_pairs (record_access ns ds p)"
    and "pending_pairs (record_access ns ds p) \<subseteq> pending_pairs p \<union> {ns} \<times> set ds"
    and "pa_len (record_access ns ds p) < max_pending_accesses \<Longrightarrow> {ns} \<times> set ds \<subseteq> pending_pairs (record_access ns ds p)"
proof -
  have "pending_ok (record_access ns ds p) \<and> pending_pairs p \<subseteq> pending_pairs (record_access ns ds p)
    \<and> pending_pairs (record_access ns ds p) \<subseteq> pending_pairs p \<union> {ns} \<times> set ds
    \<and> (pa_len (record_access ns ds p) < max_pending_accesses \<longrightarrow>
        {ns} \<times> set ds \<subseteq> pending_pairs (record_access ns ds p))"
  proof (cases "ds = [] \<or> pa_len p \<ge> max_pending_accesses")
    case True
    then show ?thesis using ok by (auto simp: record_access_def)
  next
    case False
    define entries where "entries = pa_namespaces p"
    define held where "held = (case map_of entries ns of None \<Rightarrow> [] | Some h \<Rightarrow> h)"
    obtain held' len' where n: "note_accesses ds (held, pa_len p) = (held', len')" by fastforce
    have r: "record_access ns ds p = \<lparr>pa_namespaces = update_entry ns held' entries, pa_len = len'\<rparr>"
      using False n by (simp add: record_access_def Let_def entries_def held_def)
    have keys: "distinct (map fst entries)" using ok by (simp add: pending_ok_def entries_def)
    have held_in: "held = [] \<and> ns \<notin> fst ` set entries \<or> (ns, held) \<in> set entries"
      by (auto simp: held_def map_of_eq_None_iff split: option.splits dest: map_of_SomeD)
    have held_d: "distinct held" using held_in ok by (auto simp: pending_ok_def entries_def)
    have lt: "pa_len p \<le> max_pending_accesses" "ds \<noteq> [] \<and> pa_len p < max_pending_accesses"
      using False by auto
    from note_accesses_facts [OF n lt(1)] lt(2) held_d obtain new where new: "held' = held @ new"
      "len' = pa_len p + length new" "set new \<subseteq> set ds" "distinct held'" "len' \<le> max_pending_accesses"
      "len' < max_pending_accesses \<longrightarrow> set ds \<subseteq> set held'" "held' \<noteq> []"
      by blast
    note upd = update_entry_facts [OF keys, of ns held']
    have only: "ds' = held" if "(ns, ds') \<in> set entries" for ds'
      using that keys by (simp add: held_def)
    have len: "len' = sum_list (map (length \<circ> snd) (update_entry ns held' entries))"
    proof -
      have "length held = (case map_of entries ns of None \<Rightarrow> 0 | Some h \<Rightarrow> length h)"
        by (simp add: held_def split: option.split)
      moreover have "pa_len p = sum_list (map (length \<circ> snd) entries)" using ok by (simp add: pending_ok_def entries_def)
      ultimately show ?thesis using upd(3) new(1,2) by simp
    qed
    have after: "pending_pairs (record_access ns ds p)
        = {(m, d). \<exists>ds. (m, ds) \<in> {e \<in> set entries. fst e \<noteq> ns} \<union> {(ns, held')} \<and> d \<in> set ds}"
      by (simp only: pending_pairs_def r upd(2) pending.simps)
    have before: "pending_pairs p = {(m, d). \<exists>ds. (m, ds) \<in> set entries \<and> d \<in> set ds}"
      by (simp add: pending_pairs_def entries_def)
    have "set held \<subseteq> set held'" using new(1) by simp
    then have pairs: "pending_pairs (record_access ns ds p) = pending_pairs p \<union> {ns} \<times> set held'"
      unfolding after before using only by auto
    have "ds' \<noteq> [] \<and> distinct ds'" if "(m, ds') \<in> set (update_entry ns held' entries)" for m ds'
      using that new(4,7) ok unfolding upd(2) by (auto simp: pending_ok_def entries_def)
    then have "pending_ok (record_access ns ds p)"
      using upd(1) new(5) len by (auto simp: pending_ok_def r)
    moreover have "{ns} \<times> set held' \<subseteq> pending_pairs p \<union> {ns} \<times> set ds"
      using new(1,3) held_in by (auto simp: pending_pairs_def entries_def)
    moreover have l: "pa_len (record_access ns ds p) = len'" by (simp add: r)
    moreover have "len' < max_pending_accesses \<longrightarrow> {ns} \<times> set ds \<subseteq> {ns} \<times> set held'"
      using new(6) by blast
    ultimately show ?thesis unfolding pairs l by blast
  qed
  then show "pending_ok (record_access ns ds p)"
    and "pending_pairs p \<subseteq> pending_pairs (record_access ns ds p)"
    and "pending_pairs (record_access ns ds p) \<subseteq> pending_pairs p \<union> {ns} \<times> set ds"
    and "pa_len (record_access ns ds p) < max_pending_accesses \<Longrightarrow> {ns} \<times> set ds \<subseteq> pending_pairs (record_access ns ds p)"
    by blast+
qed

lemma pending_namespaces_bounded:
  assumes "pending_ok p"
  shows "length (pa_namespaces p) \<le> pa_len p"
proof -
  have "length es \<le> sum_list (map (length \<circ> snd) es)" if "\<forall>(ns, ds) \<in> set es. ds \<noteq> []" for es :: "(string \<times> digest list) list"
    using that by (induction es) (auto simp: Suc_le_eq add.commute neq_Nil_conv)
  with assms show ?thesis by (auto simp: pending_ok_def)
qed

lemma chunks_of_pieces: "0 < n \<Longrightarrow> c \<in> set (chunks_of n xs) \<Longrightarrow> c \<noteq> [] \<and> length c \<le> n"
proof (induction n xs rule: chunks_of.induct)
  case (1 n xs)
  show ?case
  proof (cases "xs = []")
    case True
    then have "chunks_of n xs = []" by (subst chunks_of.simps) simp
    with 1(3) show ?thesis by simp
  next
    case False
    with 1(2,3) have "c = take n xs \<or> c \<in> set (chunks_of n (drop n xs))"
      by (simp add: chunks_of.simps [of n xs])
    with 1 False show ?thesis by auto
  qed
qed

lemma flush_calls_iff:
  "(ns, chunk) \<in> set (flush_calls n p) \<longleftrightarrow> (\<exists>ds. (ns, ds) \<in> set (pa_namespaces p) \<and> chunk \<in> set (chunks_of n ds))"
  by (force simp: flush_calls_def)

lemma flush_calls_pairs:
  assumes "0 < n"
  shows "pending_pairs p = {(ns, d). \<exists>chunk. (ns, chunk) \<in> set (flush_calls n p) \<and> d \<in> set chunk}"
proof -
  have "d \<in> set ds \<longleftrightarrow> (\<exists>c \<in> set (chunks_of n ds). d \<in> set c)" for d and ds :: "digest list"
  proof -
    have "d \<in> set ds \<longleftrightarrow> d \<in> set (concat (chunks_of n ds))" by (simp only: concat_chunks_of [OF assms])
    then show ?thesis by (simp only: set_concat UN_iff)
  qed
  then have "(\<exists>ds. (ns, ds) \<in> set (pa_namespaces p) \<and> d \<in> set ds)
      \<longleftrightarrow> (\<exists>chunk. (\<exists>ds. (ns, ds) \<in> set (pa_namespaces p) \<and> chunk \<in> set (chunks_of n ds)) \<and> d \<in> set chunk)" for ns d
    by blast
  then show ?thesis by (simp only: pending_pairs_def flush_calls_iff)
qed

lemma touch_each_frame:
  assumes "metadata_contract S ok visible result manifest" and "ok m"
    and "touch_each S calls failed m = (failed', m')"
  shows "ok m' \<and> visible m' = visible m \<and> result m' = result m \<and> manifest m' = manifest m"
  using assms(2,3)
proof (induction calls arbitrary: failed m)
  case (Cons c calls)
  obtain ns chunk where c: "c = (ns, chunk)" by fastforce
  obtain r n where t: "ms_touch_blobs S ns chunk m = (r, n)" by fastforce
  note frame = metadata_contract.touch [OF assms(1) Cons.prems(1) t]
  obtain f where "touch_each S calls f n = (failed', m')"
    using Cons.prems(2) by (cases r) (auto simp: c t)
  from Cons.IH [OF _ this] frame show ?case by simp
qed simp

section \<open>Properties of the bounds\<close>

text \<open>
  C34. The spool never holds more than its budget: whatever uploads start, are refused and end, in any
  order, the declared sizes of the uploads under way sum up to at most the budget rounded up to a KiB,
  every permit is either free or held, and when all have ended the whole budget is free again.
\<close>

theorem spool_never_overfull:
  assumes "spool_reach budget s held" and "budget \<noteq> 0"
  shows "sum_list (map (\<lambda>h. unat (fst h)) held) \<le> div_ceil (unat budget) 1024 * 1024
    \<and> (held = [] \<longrightarrow> s = spool_new budget)"
proof -
  from spool_reach_accounts [OF assms(1)] assms(2) obtain free where s: "s = Some free"
    and f: "free + sum_list (map (\<lambda>h. div_ceil (unat (fst h)) 1024) held) = spool_permits budget"
    by (auto simp: spool_accounts_def)
  have "sum_list (map (\<lambda>h. unat (fst h)) held) \<le> sum_list (map (\<lambda>h. div_ceil (unat (fst h)) 1024) held) * 1024"
    by (rule sum_div_ceil)
  also have "\<dots> \<le> spool_permits budget * 1024" using f by simp
  finally show ?thesis using s f assms(2) by (auto simp: spool_permits_def spool_new_eq word_gt_0)
qed

theorem spool_never_overfull_witness:
  "\<exists>s k. spool_reach 2048 s [(1500, k)] \<and> sum_list (map (\<lambda>h. unat (fst h)) [(1500 :: u64, k)]) \<le> 2048"
proof -
  have "reserve 1500 (spool_new 2048) = (Inr (Some 2), Some 0)"
    by (simp add: reserve_def spool_new_def div_ceil_def max_permits_def)
  then have "spool_reach 2048 (Some 0) [(1500, Some 2)]" by (rule spool_reach.admit [OF spool_reach.start])
  with spool_never_overfull [OF this] show ?thesis by (auto simp: div_ceil_def)
qed

text \<open>
  When an upload is refused room: never without a budget; with one, an upload whose size in KiB does
  not fit a \<open>u32\<close> is refused for good (413), whatever the budget, any other exactly when the free
  permits do not suffice (503, retry later). So with nothing under way every upload of up to the budget
  is admitted as long as it is below 4 TiB.
\<close>

theorem spool_admission:
  "reserve n None = (Inr None, None)
    \<and> (reserve n (Some free) = (Inl (too_large ''blob exceeds the upload spool''), Some free)
        \<longleftrightarrow> 2 ^ 32 \<le> div_ceil (unat n) 1024)
    \<and> (reserve n (Some free) = (Inl (unavailable ''upload spool is full, retry later''), Some free)
        \<longleftrightarrow> div_ceil (unat n) 1024 < 2 ^ 32 \<and> free < div_ceil (unat n) 1024)
    \<and> (n \<le> budget \<and> budget \<noteq> 0 \<and> unat n \<le> (2 ^ 32 - 1) * 1024 \<longrightarrow>
        (\<exists>k t. reserve n (spool_new budget) = (Inr (Some k), t)))"
proof (intro conjI impI)
  show "reserve n None = (Inr None, None)" by (rule reserve_None)
  show "reserve n (Some free) = (Inl (too_large ''blob exceeds the upload spool''), Some free)
      \<longleftrightarrow> 2 ^ 32 \<le> div_ceil (unat n) 1024"
    by (auto simp: reserve_def Let_def too_large_def unavailable_def api_error_new_def)
  show "reserve n (Some free) = (Inl (unavailable ''upload spool is full, retry later''), Some free)
      \<longleftrightarrow> div_ceil (unat n) 1024 < 2 ^ 32 \<and> free < div_ceil (unat n) 1024"
    by (auto simp: reserve_def Let_def too_large_def unavailable_def api_error_new_def)
  assume a: "n \<le> budget \<and> budget \<noteq> 0 \<and> unat n \<le> (2 ^ 32 - 1) * 1024"
  have "div_ceil (unat n) 1024 * 1024 < unat n + 1024" by (rule div_ceil_bounds) simp
  with a have "div_ceil (unat n) 1024 < 2 ^ 32" by simp
  moreover have "div_ceil (unat n) 1024 \<le> spool_permits budget"
    using a unfolding spool_permits_def by (intro div_ceil_mono) (simp_all add: word_le_nat_alt)
  ultimately show "\<exists>k t. reserve n (spool_new budget) = (Inr (Some k), t)"
    using a by (auto simp: spool_new_eq word_gt_0 reserve_def Let_def)
qed

theorem spool_admission_witness:
  "(\<exists>k t. reserve 5000 (spool_new 8192) = (Inr (Some k), t))
    \<and> reserve 5000 (Some 3) = (Inl (unavailable ''upload spool is full, retry later''), Some 3)"
  using spool_admission [of 5000 3 8192] by (simp add: div_ceil_def word_le_nat_alt)

text \<open>
  C36. The memory held for pending accesses is bounded: recording keeps at most 100000 digests, no
  duplicates, no empty namespace and so no more namespaces than digests; it forgets nothing recorded
  before, adds nothing but the accesses it is given, and adds all of them as long as the limit is not
  reached.
\<close>

theorem pending_accesses_bounded:
  assumes "pending_ok p"
  shows "pending_ok (record_access ns ds p)
    \<and> length (pa_namespaces (record_access ns ds p)) \<le> pa_len (record_access ns ds p)
    \<and> pa_len (record_access ns ds p) \<le> 100000
    \<and> pending_pairs p \<subseteq> pending_pairs (record_access ns ds p)
    \<and> pending_pairs (record_access ns ds p) \<subseteq> pending_pairs p \<union> {ns} \<times> set ds
    \<and> (pa_len (record_access ns ds p) < 100000 \<longrightarrow> {ns} \<times> set ds \<subseteq> pending_pairs (record_access ns ds p))"
proof -
  note r = record_access_ok [OF assms, of ns ds]
  have "pa_len (record_access ns ds p) \<le> 100000"
    using r(1) by (simp add: pending_ok_def max_pending_accesses_def)
  with r pending_namespaces_bounded [OF r(1)] show ?thesis by (simp add: max_pending_accesses_def)
qed

lemma pending_default_ok: "pending_ok pending_default"
  by (simp add: pending_ok_def pending_default_def)

theorem pending_accesses_bounded_witness:
  "{''org''} \<times> {sample_blake} \<subseteq> pending_pairs (record_access ''org'' [sample_blake, sample_blake] pending_default)"
  using pending_accesses_bounded [OF pending_default_ok, of "''org''" "[sample_blake, sample_blake]"]
  by (simp add: record_access_def pending_default_def max_pending_accesses_def)



end
