(* ===== verification/Metrics.thy ===== *)
theory Metrics
  imports Metadata
begin

text \<open>
  \<open>src/metrics.rs\<close>: the counters, gauges and histograms of the service and the guard that follows one
  blob-pack response. A counter is a wrapping \<open>u64\<close> and a gauge a wrapping \<open>i64\<close>, as the atomics of
  \<open>prometheus_client\<close>; a family maps its label to one of them, and \<open>get_or_create\<close> starts it at zero. A
  histogram is the list of durations it observed (nanoseconds): bucketing and the text format belong
  to the crate. The registry is the list of names and help texts registered with it.
\<close>

section \<open>The metrics\<close>

type_synonym duration = nat
type_synonym gauge = "64 word"
type_synonym 'a family = "string \<rightharpoonup> 'a"

record metrics =
  mt_registry :: "(string \<times> string) list"
  mt_build :: "string \<times> string"
  mt_blob_hits :: u64
  mt_blob_uploads :: u64
  mt_blob_pack_uploads :: u64
  mt_action_hits :: u64
  mt_action_batches :: u64
  mt_action_misses :: u64
  mt_action_commits :: u64
  mt_pack_requests :: "u64 family"
  mt_pack_in_flight :: gauge
  mt_pack_blobs :: "u64 family"
  mt_pack_bytes :: "u64 family"
  mt_pack_duration :: "duration list family"
  mt_pack_time_to_first_byte :: "duration list"
  mt_pack_metadata_query_duration :: "duration list family"
  mt_pack_storage_gets :: "u64 family"
  mt_pack_storage_get_duration :: "duration list family"
  mt_database_pool_connections :: "gauge family"
  mt_database_pool_max_connections :: gauge

definition registered_metrics :: "(string \<times> string) list" where
  "registered_metrics =
     [(''build'', ''Build information for the running mbx-cache process''),
      (''blob_hits'', ''Blob reads served by single or packed transfers''),
      (''blob_uploads'', ''Blob uploads accepted by the service''),
      (''blob_pack_uploads'', ''Framed multi-blob uploads accepted by the service''),
      (''action_batches'', ''Batched action-result lookups answered by the service''),
      (''action_hits'', ''Action-result lookups that found a result''),
      (''action_misses'', ''Action-result lookups that did not find a result''),
      (''action_commits'', ''Action-result commit attempts''),
      (''pack_requests'', ''Accepted blob-pack response streams by terminal outcome''),
      (''pack_in_flight'', ''Blob-pack response streams currently in flight''),
      (''pack_blobs'',
        ''Blobs requested, served, or missing in served packs, or accepted in uploaded packs''),
      (''pack_bytes'', ''Declared blob bytes requested or payload bytes served in blob packs''),
      (''pack_duration_seconds'', ''Blob-pack request duration through response-body completion''),
      (''pack_time_to_first_byte_seconds'',
        ''Time from entering the blob-pack handler until its first response byte''),
      (''pack_metadata_query_duration_seconds'', ''Namespace visibility query duration for blob packs''),
      (''pack_storage_gets'', ''Blob-store GET attempts made for blob packs''),
      (''pack_storage_get_duration_seconds'', ''Time to receive blob-store GET response headers for blob packs''),
      (''database_pool_connections'', ''Open metadata database connections, idle or in use by a request''),
      (''database_pool_max_connections'',
        ''Metadata database connections the pool may open; requests wait once all are in use'')]"

definition metrics_new :: "string \<Rightarrow> string option \<Rightarrow> metrics" where
  "metrics_new version revision =
     \<lparr>mt_registry = registered_metrics,
      mt_build = (version, case revision of None \<Rightarrow> ''unknown'' | Some r \<Rightarrow> r),
      mt_blob_hits = 0, mt_blob_uploads = 0, mt_blob_pack_uploads = 0, mt_action_hits = 0,
      mt_action_batches = 0, mt_action_misses = 0, mt_action_commits = 0,
      mt_pack_requests = Map.empty, mt_pack_in_flight = 0, mt_pack_blobs = Map.empty,
      mt_pack_bytes = Map.empty, mt_pack_duration = Map.empty, mt_pack_time_to_first_byte = [],
      mt_pack_metadata_query_duration = Map.empty, mt_pack_storage_gets = Map.empty,
      mt_pack_storage_get_duration = Map.empty, mt_database_pool_connections = Map.empty,
      mt_database_pool_max_connections = 0\<rparr>"

text \<open>A family's counter or histogram, created at zero on first use.\<close>

definition count_of :: "u64 family \<Rightarrow> string \<Rightarrow> u64" where
  "count_of f label = (case f label of None \<Rightarrow> 0 | Some n \<Rightarrow> n)"

definition inc_family :: "string \<Rightarrow> u64 \<Rightarrow> u64 family \<Rightarrow> u64 family" where
  "inc_family label n f = f(label \<mapsto> count_of f label + n)"

definition observe_family :: "string \<Rightarrow> duration \<Rightarrow> duration list family \<Rightarrow> duration list family" where
  "observe_family label d f = f(label \<mapsto> (case f label of None \<Rightarrow> [] | Some ds \<Rightarrow> ds) @ [d])"

definition metrics_encode :: "(metrics \<Rightarrow> string + string) \<Rightarrow> metrics \<Rightarrow> string + string" where
  "metrics_encode encode M = encode M"

text \<open>\<open>i64::try_from(usize)\<close> saturates at the largest \<open>i64\<close>; the subtraction saturates below at zero.\<close>

definition set_database_pool :: "pool_stats \<Rightarrow> metrics \<Rightarrow> metrics" where
  "set_database_pool stats M =
     (let idle = (if int (ps_idle stats) < 2 ^ 63 then int (ps_idle stats) else 2 ^ 63 - 1);
          in_use = max (max (uint (ps_open stats) - idle) (- (2 ^ 63))) 0
      in M\<lparr>mt_database_pool_connections := (mt_database_pool_connections M)
             (''idle'' \<mapsto> of_int idle, ''in_use'' \<mapsto> of_int in_use),
           mt_database_pool_max_connections := ucast (ps_max stats)\<rparr>)"

definition inc_blob_hit :: "metrics \<Rightarrow> metrics" where
  "inc_blob_hit M = M\<lparr>mt_blob_hits := mt_blob_hits M + 1\<rparr>"

definition inc_blob_upload :: "metrics \<Rightarrow> metrics" where
  "inc_blob_upload M = M\<lparr>mt_blob_uploads := mt_blob_uploads M + 1\<rparr>"

definition inc_action_batch :: "u64 \<Rightarrow> u64 \<Rightarrow> metrics \<Rightarrow> metrics" where
  "inc_action_batch hits misses M =
     M\<lparr>mt_action_batches := mt_action_batches M + 1, mt_action_hits := mt_action_hits M + hits,
       mt_action_misses := mt_action_misses M + misses\<rparr>"

definition inc_blob_pack_upload :: "u64 \<Rightarrow> metrics \<Rightarrow> metrics" where
  "inc_blob_pack_upload n M =
     M\<lparr>mt_blob_pack_uploads := mt_blob_pack_uploads M + 1,
       mt_pack_blobs := inc_family ''uploaded'' n (mt_pack_blobs M)\<rparr>"

definition inc_action_hit :: "metrics \<Rightarrow> metrics" where
  "inc_action_hit M = M\<lparr>mt_action_hits := mt_action_hits M + 1\<rparr>"

definition inc_action_miss :: "metrics \<Rightarrow> metrics" where
  "inc_action_miss M = M\<lparr>mt_action_misses := mt_action_misses M + 1\<rparr>"

definition inc_action_commit :: "metrics \<Rightarrow> metrics" where
  "inc_action_commit M = M\<lparr>mt_action_commits := mt_action_commits M + 1\<rparr>"

definition observe_pack_metadata_query :: "string \<Rightarrow> duration \<Rightarrow> metrics \<Rightarrow> metrics" where
  "observe_pack_metadata_query outcome d M =
     M\<lparr>mt_pack_metadata_query_duration := observe_family outcome d (mt_pack_metadata_query_duration M)\<rparr>"

definition observe_pack_storage_get :: "string \<Rightarrow> duration \<Rightarrow> metrics \<Rightarrow> metrics" where
  "observe_pack_storage_get outcome d M =
     M\<lparr>mt_pack_storage_gets := inc_family outcome 1 (mt_pack_storage_gets M),
       mt_pack_storage_get_duration := observe_family outcome d (mt_pack_storage_get_duration M)\<rparr>"

section \<open>The guard of a pack response\<close>

record pack_guard =
  pg_started :: nat
  pg_finished :: bool
  pg_first_byte_recorded :: bool

definition start_pack :: "nat \<Rightarrow> u64 \<Rightarrow> u64 \<Rightarrow> u64 \<Rightarrow> metrics \<Rightarrow> pack_guard \<times> metrics" where
  "start_pack started requested_blobs requested_bytes missing_blobs M =
     (\<lparr>pg_started = started, pg_finished = False, pg_first_byte_recorded = False\<rparr>,
      M\<lparr>mt_pack_in_flight := mt_pack_in_flight M + 1,
        mt_pack_blobs := inc_family ''missing'' missing_blobs
          (inc_family ''requested'' requested_blobs (mt_pack_blobs M)),
        mt_pack_bytes := inc_family ''requested'' requested_bytes (mt_pack_bytes M)\<rparr>)"

definition record_first_byte :: "nat \<Rightarrow> pack_guard \<times> metrics \<Rightarrow> pack_guard \<times> metrics" where
  "record_first_byte now = (\<lambda>(g, M).
     if \<not> pg_first_byte_recorded g
     then (g\<lparr>pg_first_byte_recorded := True\<rparr>,
           M\<lparr>mt_pack_time_to_first_byte := mt_pack_time_to_first_byte M @ [now - pg_started g]\<rparr>)
     else (g, M))"

definition add_served_bytes :: "u64 \<Rightarrow> metrics \<Rightarrow> metrics" where
  "add_served_bytes n M = M\<lparr>mt_pack_bytes := inc_family ''served'' n (mt_pack_bytes M)\<rparr>"

definition blob_served :: "metrics \<Rightarrow> metrics" where
  "blob_served M = M\<lparr>mt_pack_blobs := inc_family ''served'' 1 (mt_pack_blobs M)\<rparr>"

definition guard_finish :: "string \<Rightarrow> nat \<Rightarrow> pack_guard \<times> metrics \<Rightarrow> pack_guard \<times> metrics" where
  "guard_finish outcome now = (\<lambda>(g, M).
     if pg_finished g then (g, M)
     else (g\<lparr>pg_finished := True\<rparr>,
           M\<lparr>mt_pack_requests := inc_family outcome 1 (mt_pack_requests M),
             mt_pack_duration := observe_family outcome (now - pg_started g) (mt_pack_duration M),
             mt_pack_in_flight := mt_pack_in_flight M - 1\<rparr>))"

definition guard_complete :: "nat \<Rightarrow> pack_guard \<times> metrics \<Rightarrow> pack_guard \<times> metrics" where
  "guard_complete = guard_finish ''completed''"

definition guard_error :: "nat \<Rightarrow> pack_guard \<times> metrics \<Rightarrow> pack_guard \<times> metrics" where
  "guard_error = guard_finish ''error''"

definition guard_drop :: "nat \<Rightarrow> pack_guard \<times> metrics \<Rightarrow> pack_guard \<times> metrics" where
  "guard_drop now = (\<lambda>(g, M). if \<not> pg_finished g then guard_finish ''cancelled'' now (g, M) else (g, M))"

section \<open>The life of a guard\<close>

text \<open>What other requests and the response itself may do to the metrics while a guard lives.\<close>

datatype guard_call = FirstByte nat | ServedBytes u64 | BlobServed | CompleteCall nat | ErrorCall nat

fun run_call :: "guard_call \<Rightarrow> pack_guard \<times> metrics \<Rightarrow> pack_guard \<times> metrics" where
  "run_call (FirstByte now) s = record_first_byte now s"
| "run_call (ServedBytes n) (g, M) = (g, add_served_bytes n M)"
| "run_call BlobServed (g, M) = (g, blob_served M)"
| "run_call (CompleteCall now) s = guard_complete now s"
| "run_call (ErrorCall now) s = guard_error now s"

fun terminal :: "guard_call \<Rightarrow> string option" where
  "terminal (CompleteCall _) = Some ''completed''"
| "terminal (ErrorCall _) = Some ''error''"
| "terminal _ = None"

text \<open>The outcome a guard reports: its first terminal call, or \<open>cancelled\<close> when dropped without one.\<close>

fun guard_outcome :: "guard_call list \<Rightarrow> string" where
  "guard_outcome [] = ''cancelled''"
| "guard_outcome (c # cs) = (case terminal c of None \<Rightarrow> guard_outcome cs | Some label \<Rightarrow> label)"

lemma count_of_inc [simp]:
  "count_of (inc_family label n f) other = (if other = label then count_of f label + n else count_of f other)"
  by (simp add: count_of_def inc_family_def)

lemmas guard_ops = record_first_byte_def add_served_bytes_def blob_served_def guard_complete_def
  guard_error_def guard_finish_def

lemma run_call_open:
  assumes "\<not> pg_finished g" and "run_call c (g, M) = (g', M')"
  shows "case terminal c of
      None \<Rightarrow> \<not> pg_finished g' \<and> mt_pack_in_flight M' = mt_pack_in_flight M \<and> mt_pack_requests M' = mt_pack_requests M
    | Some label \<Rightarrow> pg_finished g' \<and> mt_pack_in_flight M' = mt_pack_in_flight M - 1
        \<and> mt_pack_requests M' = inc_family label 1 (mt_pack_requests M)"
  using assms by (cases c) (auto simp: guard_ops split: if_splits)

lemma run_call_closed:
  assumes "pg_finished g" and "run_call c (g, M) = (g', M')"
  shows "pg_finished g' \<and> mt_pack_in_flight M' = mt_pack_in_flight M \<and> mt_pack_requests M' = mt_pack_requests M"
  using assms by (cases c) (auto simp: guard_ops split: if_splits)

lemma guard_run_closed:
  assumes "pg_finished g" and "guard_drop now (fold run_call cs (g, M)) = (g', M')"
  shows "pg_finished g' \<and> mt_pack_in_flight M' = mt_pack_in_flight M \<and> mt_pack_requests M' = mt_pack_requests M"
  using assms
proof (induction cs arbitrary: g M)
  case Nil
  then show ?case by (simp add: guard_drop_def)
next
  case (Cons c cs)
  obtain h N where h: "run_call c (g, M) = (h, N)" by fastforce
  from run_call_closed [OF Cons.prems(1) h] Cons.IH [of h N] Cons.prems(2) h show ?case by simp
qed

lemma guard_run_open:
  assumes "\<not> pg_finished g" and "guard_drop now (fold run_call cs (g, M)) = (g', M')"
  shows "pg_finished g' \<and> mt_pack_in_flight M' = mt_pack_in_flight M - 1
    \<and> mt_pack_requests M' = inc_family (guard_outcome cs) 1 (mt_pack_requests M)"
  using assms
proof (induction cs arbitrary: g M)
  case Nil
  then show ?case by (auto simp: guard_drop_def guard_finish_def)
next
  case (Cons c cs)
  obtain h N where h: "run_call c (g, M) = (h, N)" by fastforce
  from Cons.prems(2) h have rest: "guard_drop now (fold run_call cs (h, N)) = (g', M')" by simp
  note step = run_call_open [OF Cons.prems(1) h]
  show ?case
  proof (cases "terminal c")
    case None
    with step have "\<not> pg_finished h" "mt_pack_in_flight N = mt_pack_in_flight M"
      "mt_pack_requests N = mt_pack_requests M" by simp_all
    with Cons.IH [OF _ rest] None show ?thesis by simp
  next
    case (Some label)
    with step have "pg_finished h" "mt_pack_in_flight N = mt_pack_in_flight M - 1"
      "mt_pack_requests N = inc_family label 1 (mt_pack_requests M)" by simp_all
    with guard_run_closed [OF _ rest] Some show ?thesis by simp
  qed
qed

section \<open>Properties of the metrics\<close>

text \<open>
  Every accepted pack response is counted once: from \<open>start_pack\<close> to the drop of its guard, whatever
  the response does in between and in whatever order, the in-flight gauge ends where it started and
  exactly one outcome is counted, once, namely that of the first terminal call, or \<open>cancelled\<close> when
  there was none.
\<close>

theorem pack_response_counted_once:
  assumes "start_pack started blobs sz missing M = (g, N)"
    and "guard_drop now (fold run_call cs (g, N)) = (g', M')"
  shows "pg_finished g' \<and> mt_pack_in_flight M' = mt_pack_in_flight M
    \<and> mt_pack_requests M' = inc_family (guard_outcome cs) 1 (mt_pack_requests M)
    \<and> guard_outcome cs \<in> {''completed'', ''error'', ''cancelled''}"
proof -
  from assms(1) have "\<not> pg_finished g" "mt_pack_in_flight N = mt_pack_in_flight M + 1"
    "mt_pack_requests N = mt_pack_requests M" by (auto simp: start_pack_def)
  moreover have "guard_outcome cs \<in> {''completed'', ''error'', ''cancelled''}"
  proof (induction cs)
    case (Cons c cs)
    then show ?case by (cases c) simp_all
  qed simp
  ultimately show ?thesis using guard_run_open [OF _ assms(2)] by simp
qed

theorem pack_response_counted_once_witness:
  "mt_pack_requests (snd (guard_drop 9 (fold run_call [FirstByte 3, ErrorCall 5, CompleteCall 8]
      (start_pack 1 2 10 0 (metrics_new ''1'' None))))) = [''error'' \<mapsto> 1]"
proof -
  obtain g N where s: "start_pack 1 2 10 0 (metrics_new ''1'' None) = (g, N)" by fastforce
  obtain g' M' where d: "guard_drop 9 (fold run_call [FirstByte 3, ErrorCall 5, CompleteCall 8] (g, N)) = (g', M')"
    by fastforce
  from pack_response_counted_once [OF s d] d s show ?thesis
    by (simp add: metrics_new_def inc_family_def count_of_def)
qed

text \<open>
  The pool gauges add up: with idle connections counted by a \<open>usize\<close> and open ones by a \<open>u32\<close>, read
  apart, the in-use gauge is never negative, and together with the idle gauge it gives the number of
  open connections whenever no more connections are idle than open.
\<close>

theorem pool_gauges_add_up:
  "\<exists>idle in_use. mt_database_pool_connections (set_database_pool stats M) ''idle'' = Some idle
    \<and> mt_database_pool_connections (set_database_pool stats M) ''in_use'' = Some in_use
    \<and> 0 \<le> sint in_use
    \<and> (ps_idle stats \<le> unat (ps_open stats) \<longrightarrow> sint idle + sint in_use = uint (ps_open stats))"
proof -
  have op: "0 \<le> uint (ps_open stats)" "uint (ps_open stats) < 2 ^ 32"
    using unsigned_less [of "ps_open stats", where ?'a = int] by simp_all
  have small: "sint (of_int k :: 64 word) = k" if "0 \<le> k" "k < 2 ^ 63" for k
    using that by (simp add: sint_uint uint_word_of_int signed_take_bit_int_eq_self take_bit_int_eq_self)
  define idle where "idle = (if int (ps_idle stats) < 2 ^ 63 then int (ps_idle stats) else 2 ^ 63 - 1)"
  define in_use where "in_use = max (max (uint (ps_open stats) - idle) (- (2 ^ 63))) 0"
  have idle: "0 \<le> idle" "idle < 2 ^ 63" by (simp_all add: idle_def)
  have in_use: "0 \<le> in_use" "in_use < 2 ^ 63" using op idle by (simp_all add: in_use_def)
  have sum: "idle + in_use = uint (ps_open stats)" if "ps_idle stats \<le> unat (ps_open stats)"
  proof -
    have "int (ps_idle stats) \<le> int (unat (ps_open stats))" using that by (simp only: of_nat_le_iff)
    then have "int (ps_idle stats) \<le> uint (ps_open stats)" by simp
    with op(2) have "idle = int (ps_idle stats)" "idle \<le> uint (ps_open stats)" by (simp_all add: idle_def)
    then show ?thesis by (simp add: in_use_def)
  qed
  have "mt_database_pool_connections (set_database_pool stats M) ''idle'' = Some (of_int idle)"
    "mt_database_pool_connections (set_database_pool stats M) ''in_use'' = Some (of_int in_use)"
    unfolding set_database_pool_def Let_def idle_def in_use_def
    by simp_all
  with small [OF idle] small [OF in_use] in_use(1) sum show ?thesis
    by (intro exI conjI impI) (assumption | simp only:)+
qed

theorem pool_gauges_add_up_witness:
  "\<exists>idle in_use. mt_database_pool_connections (set_database_pool
      \<lparr>ps_max = 32, ps_open = 10, ps_idle = 4\<rparr> (metrics_new ''1'' None)) ''idle'' = Some idle
    \<and> mt_database_pool_connections (set_database_pool
      \<lparr>ps_max = 32, ps_open = 10, ps_idle = 4\<rparr> (metrics_new ''1'' None)) ''in_use'' = Some in_use
    \<and> sint idle + sint in_use = 10"
  using pool_gauges_add_up [of "\<lparr>ps_max = 32, ps_open = 10, ps_idle = 4\<rparr>" "metrics_new ''1'' None"]
  by auto

end
