(* ===== verification/Server.thy ===== *)
theory Server
  imports Auth_Spec Admission Metrics
begin

text \<open>
  \<open>src/server.rs\<close>: what a request handler works on. \<open>AppState\<close> is split: its configuration, the stores'
  operations and the crates' functions are the record \<open>server\<close>; what requests share and change is the
  record \<open>world\<close>. A handler is a computation over the world that ends in an \<open>ApiError\<close> or in its reply.
  Requests interleave at the operations of the stores: a store's state carries what others do to it.
  The handlers here are the short ones; uploads, pack downloads and action results have theories of
  their own.
\<close>

section \<open>The crates' functions\<close>

record 'h hasher =
  hs_new :: 'h
  hs_update :: "'h \<Rightarrow> bytes \<Rightarrow> 'h"
  hs_finalize :: "'h \<Rightarrow> bytes"

record wire_codec =
  wc_json_from_slice :: "bytes \<Rightarrow> string + json"
  wc_json_to_vec :: "json \<Rightarrow> string + bytes"
  wc_directory_from_slice :: "bytes \<Rightarrow> string + directory"
  wc_directory_to_vec :: "directory \<Rightarrow> string + bytes"
  wc_build_script_action :: "json \<Rightarrow> string + build_script_action"
  wc_cc_action :: "json \<Rightarrow> string + cc_action"
  wc_task_action :: "json \<Rightarrow> string + task_action"
  wc_rustc_action :: "json \<Rightarrow> string + rustc_action"
  wc_build_script_metadata :: "json \<Rightarrow> string + build_script_metadata"
  wc_cc_metadata :: "json \<Rightarrow> string + output_metadata"
  wc_rustc_metadata :: "json \<Rightarrow> string + output_metadata"
  wc_task_metadata :: "json \<Rightarrow> string + task_metadata"
  wc_cc_metadata_validate :: "output_metadata \<Rightarrow> bool"
  wc_rustc_metadata_validate :: "output_metadata \<Rightarrow> bool"
  wc_manifest_from_slice :: "bytes \<Rightarrow> string + task_action_manifest"
  wc_manifest_validate :: "task_action_manifest \<Rightarrow> bool"
  wc_selector_digest :: "task_action_manifest \<Rightarrow> digest"
  wc_canonical_json :: "task_action_manifest \<Rightarrow> string + bytes"
  wc_debug :: "string \<Rightarrow> string"
  wc_encode_metrics :: "metrics \<Rightarrow> string + string"
  wc_protocol_version :: u64
  wc_manifest_media_type :: string
  wc_batch_media_type :: string
  wc_pack_media_type :: string
  wc_receipt_media_type :: string
  wc_pack_blobs_header :: string
  wc_pack_bytes_header :: string

record ('b, 'm, 'h) server =
  sv_protocol :: protocol
  sv_jwt :: jwt_library
  sv_codec :: wire_codec
  sv_blake3 :: "'h hasher"
  sv_sha256 :: "'h hasher"
  sv_blobs :: "'b blob_store"
  sv_metadata :: "'m metadata_store"
  sv_max_blob_bytes :: u64
  sv_pack_store_concurrency :: nat

text \<open>
  \<open>w_temp\<close> are the faults of the next operations on temporary files, \<open>w_ticks\<close> how much time passes
  before each next reading of the clock, \<open>w_progress\<close> which spawned store tasks run in the background
  at each next point where they can.
\<close>

record ('b, 'm) world =
  w_blobs :: 'b
  w_metadata :: 'm
  w_auth :: "authorizer \<times> net"
  w_metrics :: metrics
  w_pending :: pending
  w_spool :: spool
  w_temp :: "string option list"
  w_now :: nat
  w_ticks :: "nat list"
  w_progress :: "nat list list"

type_synonym ('b, 'm, 'a) handler = "(('b, 'm) world, api_error, 'a) comp"

record 'a reply =
  rp_status :: nat
  rp_headers :: "(string \<times> string) list"
  rp_body :: 'a

section \<open>Working on a part of the world\<close>

definition focus :: "('w \<Rightarrow> 's) \<Rightarrow> ('s \<Rightarrow> 'w \<Rightarrow> 'w) \<Rightarrow> ('s, 'e, 'a) comp \<Rightarrow> ('w, 'e, 'a) comp" where
  "focus get_part put_part m w = (case m (get_part w) of (r, x) \<Rightarrow> (r, put_part x w))"

definition internalE :: "('w, anyhow, 'a) comp \<Rightarrow> ('w, api_error, 'a) comp" where
  "internalE m w = (case m w of (r, v) \<Rightarrow> (map_err internal r, v))"

definition on_blobs :: "('b, 'e, 'a) comp \<Rightarrow> (('b, 'm) world, 'e, 'a) comp" where
  "on_blobs = focus w_blobs (\<lambda>b w. w\<lparr>w_blobs := b\<rparr>)"

definition on_metadata :: "('m, 'e, 'a) comp \<Rightarrow> (('b, 'm) world, 'e, 'a) comp" where
  "on_metadata = focus w_metadata (\<lambda>m w. w\<lparr>w_metadata := m\<rparr>)"

definition on_auth :: "(authorizer \<times> net, 'e, 'a) comp \<Rightarrow> (('b, 'm) world, 'e, 'a) comp" where
  "on_auth = focus w_auth (\<lambda>a w. w\<lparr>w_auth := a\<rparr>)"

definition on_spool :: "(spool, 'e, 'a) comp \<Rightarrow> (('b, 'm) world, 'e, 'a) comp" where
  "on_spool = focus w_spool (\<lambda>s w. w\<lparr>w_spool := s\<rparr>)"

definition on_metrics :: "(metrics \<Rightarrow> metrics) \<Rightarrow> (('b, 'm) world, 'e, unit) comp" where
  "on_metrics f = modifyE (\<lambda>w. w\<lparr>w_metrics := f (w_metrics w)\<rparr>)"

definition on_pending :: "(pending \<Rightarrow> pending) \<Rightarrow> (('b, 'm) world, 'e, unit) comp" where
  "on_pending f = modifyE (\<lambda>w. w\<lparr>w_pending := f (w_pending w)\<rparr>)"

definition instant_now :: "(('b, 'm) world, 'e, nat) comp" where
  "instant_now w =
     (case w_ticks w of
        [] \<Rightarrow> (Inr (w_now w), w)
      | t # ts \<Rightarrow> (Inr (w_now w + t), w\<lparr>w_now := w_now w + t, w_ticks := ts\<rparr>))"

text \<open>One operation on a temporary file; its fault is an internal error.\<close>

definition temp_io :: "('b, 'm, unit) handler" where
  "temp_io w =
     (case w_temp w of
        [] \<Rightarrow> (Inr (), w)
      | f # fs \<Rightarrow> (case f of None \<Rightarrow> Inr () | Some e \<Rightarrow> Inl (internal (OtherError e)), w\<lparr>w_temp := fs\<rparr>))"

definition authorized :: "('b, 'm, 'h) server \<Rightarrow> header_map \<Rightarrow> access \<Rightarrow> ('b, 'm, string) handler" where
  "authorized S headers a = on_auth (authorize (sv_jwt S) headers a)"

abbreviation headers_str :: "('b, 'm, 'h) server \<Rightarrow> string \<Rightarrow> string option" where
  "headers_str S \<equiv> jl_to_str (sv_jwt S)"

definition visible_in :: "('b, 'm, 'h) server \<Rightarrow> string \<Rightarrow> digest \<Rightarrow> ('b, 'm, bool) handler" where
  "visible_in S namespace d =
     internalE (on_metadata (blob_visible (ms_visible_blobs (sv_metadata S)) namespace d))"

definition get_stored :: "('b, 'm, 'h) server \<Rightarrow> digest \<Rightarrow> ('b, 'm, blob option) handler" where
  "get_stored S d = internalE (on_blobs (bs_get (sv_blobs S) d))"

definition forget_missing_blob :: "('b, 'm, 'h) server \<Rightarrow> string \<Rightarrow> digest \<Rightarrow> (('b, 'm) world, 'e, unit) comp" where
  "forget_missing_blob S namespace d w =
     (case on_metadata (ms_forget_blob (sv_metadata S) namespace d) w of (_, v) \<Rightarrow> (Inr (), v))"

section \<open>Hashing\<close>

definition hash_content :: "'h hasher \<Rightarrow> bytes \<Rightarrow> bytes" where
  "hash_content H bs = hs_finalize H (hs_update H (hs_new H) bs)"

text \<open>Hashing in pieces is hashing the whole, and a hash has 32 bytes.\<close>

definition hasher_ok :: "'h hasher \<Rightarrow> bool" where
  "hasher_ok H \<longleftrightarrow>
     (\<forall>h as bs. hs_update H (hs_update H h as) bs = hs_update H h (as @ bs))
     \<and> (\<forall>h. hs_update H h [] = h) \<and> (\<forall>h. length (hs_finalize H h) = 32)"

definition hasher_of :: "('b, 'm, 'h) server \<Rightarrow> algorithm \<Rightarrow> 'h hasher" where
  "hasher_of S a = (case a of Blake3 \<Rightarrow> sv_blake3 S | Sha256 \<Rightarrow> sv_sha256 S)"

text \<open>A content belongs under a digest when its length and its hash are the digest's.\<close>

definition content_matches :: "('b, 'm, 'h) server \<Rightarrow> digest \<Rightarrow> bytes \<Rightarrow> bool" where
  "content_matches S d c \<longleftrightarrow> length c = unat (d_size d)
     \<and> (\<exists>a. algorithm_kind (sv_protocol S) d = Inr a
          \<and> hex_encode (sv_protocol S) (hash_content (hasher_of S a) c) = d_hash d)"

section \<open>Reading\<close>

definition max_inline_blob_bytes :: u64 where "max_inline_blob_bytes = 1048576"

record capabilities =
  cap_protocol :: "u64 \<times> u64"
  cap_digest_algorithms :: "string list"
  cap_compressors :: "string list"
  cap_action_kinds :: "(string \<times> u8 \<times> u8) list"
  cap_action_manifests :: bool
  cap_batch :: bool
  cap_action_batch :: bool
  cap_blob_packs :: bool
  cap_blob_pack_uploads :: bool
  cap_max_batch_items :: nat
  cap_max_inline_blob_bytes :: u64
  cap_max_blob_bytes :: u64
  cap_max_pack_bytes :: u64

definition capabilities_of :: "('b, 'm, 'h) server \<Rightarrow> capabilities" where
  "capabilities_of S =
     \<lparr>cap_protocol = (wc_protocol_version (sv_codec S), 0), cap_digest_algorithms = [''blake3'', ''sha256''],
      cap_compressors = [''identity'', ''zstd''],
      cap_action_kinds = [(''build-script'', last build_script_action_schemas, 1), (''cc'', 1, 1),
        (''rustc'', 1, 1), (''task'', 1, 1)],
      cap_action_manifests = True, cap_batch = True, cap_action_batch = True, cap_blob_packs = True,
      cap_blob_pack_uploads = True, cap_max_batch_items = max_batch_items (sv_protocol S),
      cap_max_inline_blob_bytes = max_inline_blob_bytes, cap_max_blob_bytes = sv_max_blob_bytes S,
      cap_max_pack_bytes = sv_max_blob_bytes S\<rparr>"

definition status_reply :: "('b, 'm, 'h) server \<Rightarrow> json" where
  "status_reply S =
     JObject [(''status'', JString ''ok''), (''protocol'', JNumber (PosInt (wc_protocol_version (sv_codec S))))]"

definition get_blob :: "('b, 'm, 'h) server \<Rightarrow> header_map \<Rightarrow> string \<times> string \<times> u64
    \<Rightarrow> ('b, 'm, (string + bytes) list reply) handler" where
  "get_blob S headers parts =
     bindE (authorized S headers Read) (\<lambda>namespace.
     bindE (liftE (parse_digest (sv_protocol S) parts)) (\<lambda>d.
     bindE (visible_in S namespace d) (\<lambda>visible.
     if \<not> visible then throwE (not_found ''blob not found'')
     else
       bindE (on_pending (record_access namespace [d])) (\<lambda>_.
       bindE (get_stored S d) (\<lambda>found.
       case found of
         None \<Rightarrow> bindE (forget_missing_blob S namespace d) (\<lambda>_. throwE (not_found ''blob not found''))
       | Some b \<Rightarrow>
           bindE (on_metrics inc_blob_hit) (\<lambda>_.
           returnE \<lparr>rp_status = 200,
             rp_headers = [(''content-length'', nat_to_string (unat (bl_size b))),
               (''content-type'', ''application/octet-stream''), (''etag'', quoted_etag (d_hash d)),
               (''digest'', d_algorithm d @ ''='' @ d_hash d)],
             rp_body = bl_stream b\<rparr>))))))"

definition validate_all :: "protocol \<Rightarrow> digest list \<Rightarrow> api_error + unit" where
  "validate_all P ds = fold_r (\<lambda>d _. validate_digest P d) ds ()"

definition missing_blobs :: "('b, 'm, 'h) server \<Rightarrow> header_map \<Rightarrow> digest list \<Rightarrow> ('b, 'm, digest list) handler" where
  "missing_blobs S headers ds =
     bindE (authorized S headers Read) (\<lambda>namespace.
     if length ds > max_batch_items (sv_protocol S)
     then throwE (bad_request ''at most 10000 digests may be checked'')
     else
       bindE (liftE (validate_all (sv_protocol S) ds)) (\<lambda>_.
       bindE (internalE (on_metadata (ms_visible_blobs (sv_metadata S) namespace ds))) (\<lambda>visible.
       returnE (filter (\<lambda>d. d \<notin> set visible) ds))))"

section \<open>Action results and manifests\<close>

definition get_action_result :: "('b, 'm, 'h) server \<Rightarrow> header_map \<Rightarrow> string \<times> string \<times> u64
    \<Rightarrow> ('b, 'm, action_result) handler" where
  "get_action_result S headers parts =
     bindE (authorized S headers Read) (\<lambda>namespace.
     bindE (liftE (parse_action_digest (sv_protocol S) parts)) (\<lambda>a.
     bindE (internalE (on_metadata (ms_get (sv_metadata S) namespace a))) (\<lambda>found.
     case found of
       Some result \<Rightarrow> bindE (on_metrics inc_action_hit) (\<lambda>_. returnE result)
     | None \<Rightarrow> bindE (on_metrics inc_action_miss) (\<lambda>_. throwE (not_found ''action result not found'')))))"

text \<open>The requested actions, each validated, without repetitions.\<close>

fun requested_actions :: "protocol \<Rightarrow> digest list \<Rightarrow> digest list \<Rightarrow> api_error + digest list" where
  "requested_actions P [] requested = Inr requested"
| "requested_actions P (d # ds) requested =
     bind_r (validate_action_digest P d) (\<lambda>d.
       requested_actions P ds (if d \<in> set requested then requested else requested @ [d]))"

definition batch_action_results :: "('b, 'm, 'h) server \<Rightarrow> header_map \<Rightarrow> digest list
    \<Rightarrow> ('b, 'm, action_result list reply) handler" where
  "batch_action_results S headers ds =
     bindE (authorized S headers Read) (\<lambda>namespace.
     if length ds > max_batch_items (sv_protocol S)
     then throwE (bad_request ''batch exceeds the supported size'')
     else
       bindE (liftE (requested_actions (sv_protocol S) ds [])) (\<lambda>requested.
       bindE (internalE (on_metadata (ms_get_batch (sv_metadata S) namespace requested))) (\<lambda>results.
       bindE (on_metrics (inc_action_batch (of_nat (length results))
           (of_nat (length requested - length results)))) (\<lambda>_.
         returnE \<lparr>rp_status = 200, rp_headers = [(''content-type'', wc_batch_media_type (sv_codec S))],
         rp_body = results\<rparr>))))"

definition get_action_manifest :: "('b, 'm, 'h) server \<Rightarrow> header_map \<Rightarrow> string \<times> string \<times> u64
    \<Rightarrow> ('b, 'm, bytes reply) handler" where
  "get_action_manifest S headers parts =
     bindE (authorized S headers Read) (\<lambda>namespace.
     bindE (liftE (parse_action_digest (sv_protocol S) parts)) (\<lambda>k.
     bindE (internalE (on_metadata (ms_get_manifest (sv_metadata S) namespace k))) (\<lambda>found.
     bindE (liftE (ok_or (not_found ''action manifest not found'') found)) (\<lambda>record.
     bindE (liftE (map_err (\<lambda>e. internal (OtherError e)) (wc_canonical_json (sv_codec S) (mr_manifest record)))) (\<lambda>body.
     returnE \<lparr>rp_status = 200,
       rp_headers = [(''content-type'', wc_manifest_media_type (sv_codec S)),
         (''etag'', quoted_etag (mr_etag record))],
       rp_body = body\<rparr>)))))"

definition max_action_manifest_bytes :: nat where "max_action_manifest_bytes = 16 * 1024 * 1024"

text \<open>\<open>to_bytes\<close>: the whole body, refused once it exceeds the limit or its stream fails.\<close>

definition body_to_bytes :: "(string + bytes) list \<Rightarrow> nat \<Rightarrow> bytes option" where
  "body_to_bytes body limit =
     (if completes body \<and> length (delivered body) \<le> limit then Some (delivered body) else None)"

definition put_action_manifest :: "('b, 'm, 'h) server \<Rightarrow> header_map \<Rightarrow> string \<times> string \<times> u64
    \<Rightarrow> (string + bytes) list \<Rightarrow> ('b, 'm, unit reply) handler" where
  "put_action_manifest S headers parts body =
     bindE (authorized S headers Write) (\<lambda>namespace.
     bindE (liftE (ok_or (too_large ''action manifest is too large'')
         (body_to_bytes body max_action_manifest_bytes))) (\<lambda>raw.
     bindE (liftE (map_err (\<lambda>e. bad_request (''invalid action manifest: '' @ e))
         (wc_manifest_from_slice (sv_codec S) raw))) (\<lambda>manifest.
     bindE (liftE (parse_action_digest (sv_protocol S) parts)) (\<lambda>k.
     if \<not> wc_manifest_validate (sv_codec S) manifest \<or> wc_selector_digest (sv_codec S) manifest \<noteq> k
     then throwE (bad_request ''action manifest does not match request'')
     else
       bindE (liftE (manifest_precondition (headers_str S) headers)) (\<lambda>expected.
       bindE (liftE (map_err (\<lambda>e. internal (OtherError e)) (wc_canonical_json (sv_codec S) manifest))) (\<lambda>canonical.
       let etag = hex_encode (sv_protocol S) (hash_content (sv_blake3 S) canonical) in
       bindE (internalE (on_metadata (ms_commit_manifest (sv_metadata S) namespace k expected etag manifest))) (\<lambda>outcome.
       case outcome of
         ManifestPreconditionFailed \<Rightarrow>
           throwE (precondition ''action manifest changed; read and merge it before retrying'')
       | ManifestCreated \<Rightarrow>
           returnE \<lparr>rp_status = 201, rp_headers = [(''etag'', quoted_etag etag)], rp_body = ()\<rparr>
       | ManifestUpdated \<Rightarrow>
           returnE \<lparr>rp_status = 204, rp_headers = [(''etag'', quoted_etag etag)], rp_body = ()\<rparr>)))))))"

definition metrics_reply :: "('b, 'm, 'h) server \<Rightarrow> ('b, 'm, string reply) handler" where
  "metrics_reply S =
     bindE (modifyE (\<lambda>w. case ms_pool_stats (sv_metadata S) (w_metadata w) of
         None \<Rightarrow> w
       | Some stats \<Rightarrow> w\<lparr>w_metrics := set_database_pool stats (w_metrics w)\<rparr>)) (\<lambda>_.
     bindE (\<lambda>w. (map_err (\<lambda>e. internal (OtherError e))
         (metrics_encode (wc_encode_metrics (sv_codec S)) (w_metrics w)), w)) (\<lambda>body.
     returnE \<lparr>rp_status = 200,
       rp_headers = [(''content-type'', ''application/openmetrics-text; version=1.0.0; charset=utf-8'')],
       rp_body = body\<rparr>))"

section \<open>The background flush\<close>

definition flush_world :: "('b, 'm, 'h) server \<Rightarrow> ('b, 'm) world \<Rightarrow> ('b, 'm) world" where
  "flush_world S w =
     (case flush (sv_protocol S) (sv_metadata S) (w_pending w, w_metadata w) of
        (_, p, m) \<Rightarrow> w\<lparr>w_pending := p, w_metadata := m\<rparr>)"

section \<open>Body limits\<close>

text \<open>The router's limits for single blobs and for packs; \<open>usize\<close> has 64 bits.\<close>

definition saturating_usize :: "nat \<Rightarrow> nat" where "saturating_usize n = min n (2 ^ 64 - 1)"

definition blob_body_limit :: "('b, 'm, 'h) server \<Rightarrow> nat" where
  "blob_body_limit S = unat (sv_max_blob_bytes S)"

definition pack_body_limit :: "('b, 'm, 'h) server \<Rightarrow> nat" where
  "pack_body_limit S =
     saturating_usize (saturating_usize (blob_body_limit S + length (blob_pack_magic (sv_protocol S)))
       + saturating_usize (blob_pack_header_bytes (sv_protocol S) * max_batch_items (sv_protocol S)))"

end
