(* ===== verification/Server_Frame.thy ===== *)
theory Server_Frame
  imports Server
begin

text \<open>
  The interface the handlers rely on, as the locale \<open>cache_server\<close>: a blob store and a metadata store
  that keep their contracts under one server. Inside it: what every primitive of the handlers does to
  the world, in the step relation \<open>step N\<close>, which lets the listed blobs and manifests change only in
  the namespaces of \<open>N\<close>, and functional rules for the lookups all handlers share.
\<close>

section \<open>Rules for the liftings\<close>

lemma internalE_eq_Inr [result_simps]: "internalE m w = (Inr x, v) \<longleftrightarrow> m w = (Inr x, v)"
  by (auto simp: internalE_def result_simps split: prod.splits)

lemma internalE_eq_Inl [result_simps]:
  "internalE m w = (Inl e, v) \<longleftrightarrow> (\<exists>e'. m w = (Inl e', v) \<and> e = internal e')"
  by (auto simp: internalE_def result_simps split: prod.splits)

lemma on_blobs_eq [result_simps]:
  "on_blobs m w = (r, v) \<longleftrightarrow> (\<exists>b. m (w_blobs w) = (r, b) \<and> v = w\<lparr>w_blobs := b\<rparr>)"
  by (auto simp: on_blobs_def focus_def split: prod.splits)

lemma on_metadata_eq [result_simps]:
  "on_metadata m w = (r, v) \<longleftrightarrow> (\<exists>n. m (w_metadata w) = (r, n) \<and> v = w\<lparr>w_metadata := n\<rparr>)"
  by (auto simp: on_metadata_def focus_def split: prod.splits)

lemma on_auth_eq [result_simps]:
  "on_auth m w = (r, v) \<longleftrightarrow> (\<exists>a. m (w_auth w) = (r, a) \<and> v = w\<lparr>w_auth := a\<rparr>)"
  by (auto simp: on_auth_def focus_def split: prod.splits)

lemma on_spool_eq [result_simps]:
  "on_spool m w = (r, v) \<longleftrightarrow> (\<exists>s. m (w_spool w) = (r, s) \<and> v = w\<lparr>w_spool := s\<rparr>)"
  by (auto simp: on_spool_def focus_def split: prod.splits)

lemma moves_internalE [keeps_intros]: "moves R m \<Longrightarrow> moves R (internalE m)"
  by (simp add: moves_def internalE_def split_beta)

lemma moves_any: "(\<And>w r v. m w = (r, v) \<Longrightarrow> R w v) \<Longrightarrow> moves R m"
  by (metis moves_def prod.collapse)

text \<open>A parametric invariant: what part of the world a computation leaves alone.\<close>

definition keeps :: "('w \<Rightarrow> 'x) \<Rightarrow> ('w, 'e, 'a) comp \<Rightarrow> bool" where
  "keeps part m \<longleftrightarrow> moves (\<lambda>w v. part v = part w) m"

lemma keeps_preorder [simp]: "preorder_rel (\<lambda>w v. part v = part w)"
  by (rule preorder_relI) auto

section \<open>The interface\<close>

locale cache_server =
    blobs: blob_storage "bs_get (sv_blobs S)" "bs_put (sv_blobs S)" bok held "digest_ok (sv_protocol S)"
      "content_matches S" +
    metadata: metadata_contract "sv_metadata S" mok visible result manifest
  for S :: "('b, 'm, 'h) server" and bok :: "'b \<Rightarrow> bool" and held :: "'b \<Rightarrow> digest \<Rightarrow> bytes option"
    and mok :: "'m \<Rightarrow> bool" and visible :: "'m \<Rightarrow> string \<Rightarrow> digest \<Rightarrow> bool"
    and result :: "'m \<Rightarrow> string \<Rightarrow> digest \<Rightarrow> action_result option"
    and manifest :: "'m \<Rightarrow> string \<Rightarrow> digest \<Rightarrow> (string \<times> task_action_manifest) option" +
  assumes protocol: "protocol_ok (sv_protocol S)"
    and blake3: "hasher_ok (sv_blake3 S)"
    and sha256: "hasher_ok (sv_sha256 S)"
begin

definition world_ok :: "('b, 'm) world \<Rightarrow> bool" where
  "world_ok w \<longleftrightarrow> bok (w_blobs w) \<and> mok (w_metadata w)"

definition same_outside :: "string set \<Rightarrow> 'm \<Rightarrow> 'm \<Rightarrow> bool" where
  "same_outside N m n \<longleftrightarrow> (\<forall>ns. ns \<notin> N \<longrightarrow> visible n ns = visible m ns \<and> manifest n ns = manifest m ns
     \<and> (\<forall>a. result n ns a = result m ns a \<or> result n ns a = None))"

definition blobs_kept :: "'b \<Rightarrow> 'b \<Rightarrow> bool" where
  "blobs_kept b c \<longleftrightarrow> (\<forall>d x. digest_ok (sv_protocol S) d \<longrightarrow> held b d = Some x \<longrightarrow> held c d = Some x)"

definition step :: "string set \<Rightarrow> ('b, 'm) world \<Rightarrow> ('b, 'm) world \<Rightarrow> bool" where
  "step N w v \<longleftrightarrow> world_ok w \<longrightarrow>
     world_ok v \<and> blobs_kept (w_blobs w) (w_blobs v) \<and> same_outside N (w_metadata w) (w_metadata v)"

lemma step_preorder [simp]: "preorder_rel (step N)"
proof (rule preorder_relI)
  show "step N w w" for w by (simp add: step_def blobs_kept_def same_outside_def)
  show "step N w v" if "step N w u" "step N u v" for w u v
    using that unfolding step_def blobs_kept_def same_outside_def by metis
qed

lemma same_outside_mono:
  assumes "N \<subseteq> M" and "same_outside N m n" shows "same_outside M m n"
  unfolding same_outside_def
proof (intro allI impI)
  fix ns assume "ns \<notin> M"
  with assms(1) have "ns \<notin> N" by blast
  with assms(2) show "visible n ns = visible m ns \<and> manifest n ns = manifest m ns
     \<and> (\<forall>a. result n ns a = result m ns a \<or> result n ns a = None)" by (simp add: same_outside_def)
qed

lemma step_mono: "N \<subseteq> M \<Longrightarrow> step N w v \<Longrightarrow> step M w v"
  by (simp add: step_def same_outside_mono)

lemma moves_step_mono: "moves (step N) m \<Longrightarrow> N \<subseteq> M \<Longrightarrow> moves (step M) m"
  by (auto simp: moves_def intro: step_mono)

lemma step_ok: "moves (step N) m \<Longrightarrow> m w = (r, v) \<Longrightarrow> world_ok w \<Longrightarrow> world_ok v"
  by (drule (1) moves_step) (simp add: step_def)

lemma step_same:
  assumes "\<And>w. w_blobs (snd (m w)) = w_blobs w" and "\<And>w. w_metadata (snd (m w)) = w_metadata w"
  shows "moves (step N) m"
  using assms by (simp add: moves_def step_def world_ok_def blobs_kept_def same_outside_def)

lemma same_outsideI: "visible n = visible m \<Longrightarrow> result n = result m \<Longrightarrow> manifest n = manifest m \<Longrightarrow> same_outside N m n"
  by (simp add: same_outside_def)

lemma step_metadata:
  assumes "mok (w_metadata w) \<Longrightarrow> mok n \<and> same_outside N (w_metadata w) n"
  shows "step N w (w\<lparr>w_metadata := n\<rparr>)"
  using assms by (auto simp: step_def world_ok_def blobs_kept_def)

lemma on_metadata_step:
  assumes "\<And>m r n. mok m \<Longrightarrow> op m = (r, n) \<Longrightarrow> mok n \<and> same_outside N m n"
  shows "moves (step N) (on_metadata op)"
proof (rule moves_any)
  fix w :: "('b, 'm) world" and r v assume "on_metadata op w = (r, v)"
  then obtain n where n: "op (w_metadata w) = (r, n)" "v = w\<lparr>w_metadata := n\<rparr>" by (auto simp: result_simps)
  have "step N w (w\<lparr>w_metadata := n\<rparr>)" by (rule step_metadata) (rule assms [OF _ n(1)])
  with n(2) show "step N w v" by simp
qed

lemma on_blobs_step:
  assumes "\<And>b r c. bok b \<Longrightarrow> op b = (r, c) \<Longrightarrow> bok c \<and> blobs_kept b c"
  shows "moves (step N) (on_blobs op)"
proof (rule moves_any)
  fix w :: "('b, 'm) world" and r v assume "on_blobs op w = (r, v)"
  then obtain c where c: "op (w_blobs w) = (r, c)" "v = w\<lparr>w_blobs := c\<rparr>" by (auto simp: result_simps)
  then show "step N w v" using assms [OF _ c(1)] by (simp add: step_def world_ok_def same_outside_def)
qed

lemma on_auth_step [keeps_intros]: "moves (step N) (on_auth m)"
  by (rule step_same) (simp_all add: on_auth_def focus_def split_beta)

lemma on_spool_step [keeps_intros]: "moves (step N) (on_spool m)"
  by (rule step_same) (simp_all add: on_spool_def focus_def split_beta)

lemma on_metrics_step [keeps_intros]: "moves (step N) (on_metrics f)"
  by (rule step_same) (simp_all add: on_metrics_def)

lemma on_pending_step [keeps_intros]: "moves (step N) (on_pending f)"
  by (rule step_same) (simp_all add: on_pending_def)

lemma instant_now_step [keeps_intros]: "moves (step N) instant_now"
  by (rule step_same) (simp_all add: instant_now_def split: list.split)

lemma temp_io_step [keeps_intros]: "moves (step N) temp_io"
  by (rule step_same) (simp_all add: temp_io_def split: list.split)

lemma authorized_step [keeps_intros]: "moves (step N) (authorized S headers a)"
  unfolding authorized_def by (rule on_auth_step)

lemma get_stored_step [keeps_intros]: "moves (step N) (get_stored S d)"
  unfolding get_stored_def
proof (rule moves_internalE [OF on_blobs_step])
  fix b r c assume b: "bok b" and run: "bs_get (sv_blobs S) d b = (r, c)"
  then have "bok c" using blobs.get_ok [OF b, of d] by simp
  moreover have "held c e = Some x" if "digest_ok (sv_protocol S) e" "held b e = Some x" for e x
    using blobs.get_keeps [OF b that, of d] run by simp
  ultimately show "bok c \<and> blobs_kept b c" by (simp add: blobs_kept_def)
qed

lemma visible_in_run:
  assumes "world_ok w" and "visible_in S ns d w = (r, v)"
  shows "step {} w v" and "r = Inr b \<Longrightarrow> b = visible (w_metadata w) ns d"
    and "\<exists>n. v = w\<lparr>w_metadata := n\<rparr> \<and> visible n = visible (w_metadata w)
      \<and> result n = result (w_metadata w) \<and> manifest n = manifest (w_metadata w)"
proof -
  from assms(2) obtain q n where b: "blob_visible (ms_visible_blobs (sv_metadata S)) ns d (w_metadata w) = (q, n)"
    and v: "v = w\<lparr>w_metadata := n\<rparr>" and r: "r = map_err internal q"
    by (cases r) (auto simp: visible_in_def result_simps)
  from assms(1) have "mok (w_metadata w)" by (simp add: world_ok_def)
  note c = metadata.blob_visible [OF this b]
  show "step {} w v" unfolding v by (rule step_metadata) (use c in \<open>simp add: same_outside_def\<close>)
  show "b = visible (w_metadata w) ns d" if "r = Inr b" using that c by (simp add: r result_simps)
  show "\<exists>n. v = w\<lparr>w_metadata := n\<rparr> \<and> visible n = visible (w_metadata w)
      \<and> result n = result (w_metadata w) \<and> manifest n = manifest (w_metadata w)"
    using c v by blast
qed

lemma moves_if_ok: "(\<And>w r v. world_ok w \<Longrightarrow> m w = (r, v) \<Longrightarrow> step N w v) \<Longrightarrow> moves (step N) m"
  by (rule moves_any) (metis step_def)

lemma visible_in_step [keeps_intros]: "moves (step N) (visible_in S ns d)"
  by (rule moves_step_mono [where N = "{}"]) (auto intro: moves_if_ok visible_in_run(1))

text \<open>The operations on metadata that change nothing, and the ones that change one namespace.\<close>

lemma ms_visible_blobs_step [keeps_intros]: "moves (step N) (on_metadata (ms_visible_blobs (sv_metadata S) ns ds))"
  by (rule on_metadata_step) (drule (1) metadata.visible_blobs, simp add: same_outsideI)

lemma ms_get_step [keeps_intros]: "moves (step N) (on_metadata (ms_get (sv_metadata S) ns a))"
  by (rule on_metadata_step) (drule (1) metadata.get, simp add: same_outsideI)

lemma ms_get_batch_step [keeps_intros]: "moves (step N) (on_metadata (ms_get_batch (sv_metadata S) ns as))"
  by (rule on_metadata_step) (drule (1) metadata.get_batch, simp add: same_outsideI)

lemma ms_get_manifest_step [keeps_intros]: "moves (step N) (on_metadata (ms_get_manifest (sv_metadata S) ns k))"
  by (rule on_metadata_step) (drule (1) metadata.get_manifest, simp add: same_outsideI)

lemma ms_commit_step: "ns \<in> N \<Longrightarrow> moves (step N) (on_metadata (ms_commit (sv_metadata S) ns a x))"
proof (rule on_metadata_step)
  fix m r n assume ns: "ns \<in> N" and ok: "mok m" and run: "ms_commit (sv_metadata S) ns a x m = (r, n)"
  note c = metadata.commit [OF ok run]
  then have other: "\<forall>k b. (k, b) \<noteq> (ns, a) \<longrightarrow> result n k b = result m k b \<or> result n k b = None"
    by (elim conjE)
  have "result n k b = result m k b \<or> result n k b = None" if "k \<notin> N" for k b
  proof -
    have "(k, b) \<noteq> (ns, a)" using that ns by auto
    with other show ?thesis by simp
  qed
  with c show "mok n \<and> same_outside N m n" by (simp add: same_outside_def)
qed

lemma ms_commit_manifest_step:
  "ns \<in> N \<Longrightarrow> moves (step N) (on_metadata (ms_commit_manifest (sv_metadata S) ns k expected etag m))"
  by (rule on_metadata_step) (drule (1) metadata.commit_manifest, auto simp: same_outside_def)

lemma register_step: "ns \<in> N \<Longrightarrow> moves (step N) (on_metadata (ms_register_blob (sv_metadata S) ns d out))"
  by (rule on_metadata_step) (drule (1) metadata.register, auto simp: same_outside_def)

lemma forget_missing_blob_step:
  assumes "ns \<in> N" shows "moves (step N) (forget_missing_blob S ns d)"
proof -
  have "moves (step N) (on_metadata (ms_forget_blob (sv_metadata S) ns d))"
    by (rule on_metadata_step) (drule (1) metadata.forget, use assms in \<open>auto simp: same_outside_def\<close>)
  then show ?thesis by (simp add: moves_def forget_missing_blob_def split_beta)
qed

lemma put_step:
  assumes "digest_ok (sv_protocol S) d" and "content_matches S d src"
  shows "moves (step N) (on_blobs (bs_put (sv_blobs S) d src))"
proof (rule on_blobs_step)
  fix b r c assume b: "bok b" and run: "bs_put (sv_blobs S) d src b = (r, c)"
  then have "bok c" using blobs.put_ok [OF b assms] by simp
  moreover have "held c e = Some x" if "digest_ok (sv_protocol S) e" "held b e = Some x" for e x
    using blobs.put_keeps [OF b that, of d src] run by simp
  ultimately show "bok c \<and> blobs_kept b c" by (simp add: blobs_kept_def)
qed

end

end
