(* ===== verification/Uploads.thy ===== *)
theory Uploads
  imports Server_Frame Pack_Spec
begin

text \<open>
  The uploading handlers of \<open>src/server.rs\<close>: \<open>put_blob\<close>, and \<open>put_blob_pack\<close> with its \<open>PackFrame\<close> and
  receipt. A spooled file is its content; the operations on it may fail (\<open>temp_io\<close>). The stores a pack
  spawns run in the background: \<open>w_progress\<close> says which of them run to completion at each next point
  where the handler could be suspended, so that every order and degree of completion is a run of the
  model. A spawned store is one step: its put and its registration are not separated by other tasks of
  the same request.
\<close>

section \<open>Content as it arrives\<close>

record 'h intake =
  in_size :: u64
  in_blake3 :: 'h
  in_sha256 :: 'h
  in_content :: bytes

definition new_intake :: "('b, 'm, 'h) server \<Rightarrow> 'h intake" where
  "new_intake S = \<lparr>in_size = 0, in_blake3 = hs_new (sv_blake3 S), in_sha256 = hs_new (sv_sha256 S), in_content = []\<rparr>"

definition update_hash :: "('b, 'm, 'h) server \<Rightarrow> digest \<Rightarrow> bytes \<Rightarrow> 'h intake \<Rightarrow> api_error + 'h intake" where
  "update_hash S d chunk i =
     bind_r (map_err bad_request (algorithm_kind (sv_protocol S) d)) (\<lambda>a.
       case a of
         Blake3 \<Rightarrow> Inr (i\<lparr>in_blake3 := hs_update (sv_blake3 S) (in_blake3 i) chunk\<rparr>)
       | Sha256 \<Rightarrow> Inr (i\<lparr>in_sha256 := hs_update (sv_sha256 S) (in_sha256 i) chunk\<rparr>))"

definition actual_hash :: "('b, 'm, 'h) server \<Rightarrow> digest \<Rightarrow> 'h intake \<Rightarrow> api_error + string" where
  "actual_hash S d i =
     bind_r (map_err bad_request (algorithm_kind (sv_protocol S) d)) (\<lambda>a.
       case a of
         Blake3 \<Rightarrow> Inr (hex_encode (sv_protocol S) (hs_finalize (sv_blake3 S) (in_blake3 i)))
       | Sha256 \<Rightarrow> Inr (hex_encode (sv_protocol S) (hs_finalize (sv_sha256 S) (in_sha256 i))))"

text \<open>A write to the spooled file: the whole chunk, or an error.\<close>

definition write_chunk :: "bytes \<Rightarrow> 'h intake \<Rightarrow> ('b, 'm, 'h intake) handler" where
  "write_chunk chunk i = bindE temp_io (\<lambda>_. returnE (i\<lparr>in_content := in_content i @ chunk\<rparr>))"

definition with_permit :: "nat option \<Rightarrow> ('b, 'm, 'a) handler \<Rightarrow> ('b, 'm, 'a) handler" where
  "with_permit permit m w = (case m w of (r, v) \<Rightarrow> (r, v\<lparr>w_spool := release permit (w_spool v)\<rparr>))"

definition publish :: "('b, 'm, 'h) server \<Rightarrow> string \<Rightarrow> digest \<Rightarrow> bytes \<Rightarrow> ('b, 'm, put_outcome) handler" where
  "publish S namespace d content =
     bindE (internalE (on_blobs (bs_put (sv_blobs S) d content))) (\<lambda>outcome.
     bindE (internalE (on_metadata (ms_register_blob (sv_metadata S) namespace d outcome))) (\<lambda>_.
     bindE (on_metrics inc_blob_upload) (\<lambda>_. returnE outcome)))"

section \<open>One blob\<close>

fun receive_body :: "('b, 'm, 'h) server \<Rightarrow> digest \<Rightarrow> (string + bytes) list \<Rightarrow> 'h intake
    \<Rightarrow> ('b, 'm, 'h intake) handler" where
  "receive_body S d [] i = returnE i"
| "receive_body S d (Inl e # _) i = throwE (bad_request e)"
| "receive_body S d (Inr chunk # body) i =
     bindE (liftE (ok_or (too_large ''blob is too large'')
         (checked_add (in_size i) (of_nat (length chunk))))) (\<lambda>sz.
     if sz > d_size d \<or> sz > sv_max_blob_bytes S
     then throwE (too_large ''blob exceeds declared or configured size'')
     else
       bindE (liftE (update_hash S d chunk (i\<lparr>in_size := sz\<rparr>))) (\<lambda>i.
       bindE (write_chunk chunk i) (receive_body S d body)))"

definition spool_and_store :: "('b, 'm, 'h) server \<Rightarrow> string \<Rightarrow> digest \<Rightarrow> (string + bytes) list
    \<Rightarrow> ('b, 'm, nat) handler" where
  "spool_and_store S namespace d body =
     bindE temp_io (\<lambda>_.
     bindE temp_io (\<lambda>_.
     bindE (receive_body S d body (new_intake S)) (\<lambda>i.
     bindE temp_io (\<lambda>_.
     bindE (liftE (actual_hash S d i)) (\<lambda>actual.
     if in_size i \<noteq> d_size d \<or> actual \<noteq> d_hash d
     then throwE (bad_request ''content does not match the requested digest'')
     else
       bindE (publish S namespace d (in_content i)) (\<lambda>outcome.
       returnE (case outcome of Created \<Rightarrow> 201 | AlreadyExists \<Rightarrow> 204)))))))"

definition put_blob :: "('b, 'm, 'h) server \<Rightarrow> header_map \<Rightarrow> string \<times> string \<times> u64
    \<Rightarrow> (string + bytes) list \<Rightarrow> ('b, 'm, nat) handler" where
  "put_blob S headers parts body =
     bindE (authorized S headers Write) (\<lambda>namespace.
     bindE (liftE (require_immutable_precondition (headers_str S) headers)) (\<lambda>_.
     bindE (liftE (parse_digest (sv_protocol S) parts)) (\<lambda>d.
     if d_size d > sv_max_blob_bytes S then throwE (too_large ''blob exceeds configured limit'')
     else
       bindE (on_spool (reserve (d_size d))) (\<lambda>permit.
       with_permit permit (spool_and_store S namespace d body)))))"

section \<open>Frames of a pack\<close>

record 'h pack_frame =
  pf_digest :: digest
  pf_intake :: "'h intake"
  pf_permit :: "nat option"

definition frame_new :: "('b, 'm, 'h) server \<Rightarrow> digest \<Rightarrow> nat option \<Rightarrow> ('b, 'm, 'h pack_frame) handler" where
  "frame_new S d permit w =
     (case bindE temp_io (\<lambda>_. temp_io) w of
        (Inl e, v) \<Rightarrow> (Inl e, v\<lparr>w_spool := release permit (w_spool v)\<rparr>)
      | (Inr _, v) \<Rightarrow> (Inr \<lparr>pf_digest = d, pf_intake = new_intake S, pf_permit = permit\<rparr>, v))"

definition frame_write :: "('b, 'm, 'h) server \<Rightarrow> bytes \<Rightarrow> 'h pack_frame \<Rightarrow> ('b, 'm, 'h pack_frame) handler" where
  "frame_write S payload f =
     bindE (liftE (update_hash S (pf_digest f) payload
         ((pf_intake f)\<lparr>in_size := in_size (pf_intake f) + of_nat (length payload)\<rparr>))) (\<lambda>i.
     bindE (write_chunk payload i) (\<lambda>i. returnE (f\<lparr>pf_intake := i\<rparr>)))"

definition frame_verify :: "('b, 'm, 'h) server \<Rightarrow> 'h pack_frame \<Rightarrow> ('b, 'm, unit) handler" where
  "frame_verify S f =
     bindE temp_io (\<lambda>_.
     bindE (liftE (actual_hash S (pf_digest f) (pf_intake f))) (\<lambda>actual.
     if in_size (pf_intake f) \<noteq> d_size (pf_digest f) \<or> actual \<noteq> d_hash (pf_digest f)
     then throwE (bad_request ''packed blob does not match its declared digest'')
     else returnE ()))"

definition frame_store :: "('b, 'm, 'h) server \<Rightarrow> string \<Rightarrow> 'h pack_frame \<Rightarrow> ('b, 'm, put_outcome) handler" where
  "frame_store S namespace f =
     with_permit (pf_permit f) (publish S namespace (pf_digest f) (in_content (pf_intake f)))"

definition drop_permit :: "nat option \<Rightarrow> ('b, 'm) world \<Rightarrow> ('b, 'm) world" where
  "drop_permit permit w = w\<lparr>w_spool := release permit (w_spool w)\<rparr>"

section \<open>An uploaded pack\<close>

text \<open>\<open>pu_running\<close> and \<open>pu_done\<close> are the futures of \<open>stores\<close>: spawned stores, and results not yet taken.\<close>

record 'h pack_upload =
  pu_reader :: pack_reader
  pu_frame :: "'h pack_frame option"
  pu_running :: "'h pack_frame list"
  pu_done :: "(api_error + put_outcome) list"
  pu_created :: u64
  pu_existing :: u64

type_synonym ('b, 'm, 'h, 'a) upload_comp = "('h pack_upload \<times> ('b, 'm) world, api_error, 'a) comp"

definition on_world :: "('b, 'm, 'a) handler \<Rightarrow> ('b, 'm, 'h, 'a) upload_comp" where
  "on_world = focus snd (\<lambda>v (u, _). (u, v))"

definition on_upload :: "('h pack_upload \<Rightarrow> 'h pack_upload) \<Rightarrow> ('b, 'm, 'h, unit) upload_comp" where
  "on_upload f = modifyE (\<lambda>(u, w). (f u, w))"

definition run_store :: "('b, 'm, 'h) server \<Rightarrow> string \<Rightarrow> nat \<Rightarrow> 'h pack_upload \<times> ('b, 'm) world
    \<Rightarrow> 'h pack_upload \<times> ('b, 'm) world" where
  "run_store S namespace k = (\<lambda>(u, w).
     if k < length (pu_running u)
     then (case frame_store S namespace (pu_running u ! k) w of
        (r, v) \<Rightarrow> (u\<lparr>pu_running := take k (pu_running u) @ drop (Suc k) (pu_running u),
                    pu_done := pu_done u @ [r]\<rparr>, v))
     else (u, w))"

definition progress :: "('b, 'm, 'h) server \<Rightarrow> string \<Rightarrow> 'h pack_upload \<times> ('b, 'm) world
    \<Rightarrow> 'h pack_upload \<times> ('b, 'm) world" where
  "progress S namespace = (\<lambda>(u, w).
     case w_progress w of
       [] \<Rightarrow> (u, w)
     | ks # later \<Rightarrow> fold (run_store S namespace) ks (u, w\<lparr>w_progress := later\<rparr>))"

text \<open>\<open>stores.next().await\<close>\<close>

definition next_stored :: "('b, 'm, 'h) server \<Rightarrow> string \<Rightarrow> ('b, 'm, 'h, (api_error + put_outcome) option) upload_comp" where
  "next_stored S namespace s =
     (let (u, w) = progress S namespace s;
          (u, w) = (if pu_done u = [] then run_store S namespace 0 (u, w) else (u, w))
      in case pu_done u of
           [] \<Rightarrow> (Inr None, (u, w))
         | r # rs \<Rightarrow> (Inr (Some r), (u\<lparr>pu_done := rs\<rparr>, w)))"

definition count_stored :: "api_error + put_outcome \<Rightarrow> ('b, 'm, 'h, unit) upload_comp" where
  "count_stored res =
     bindE (liftE res) (\<lambda>outcome.
       case outcome of
         Created \<Rightarrow> on_upload (\<lambda>u. u\<lparr>pu_created := pu_created u + 1\<rparr>)
       | AlreadyExists \<Rightarrow> on_upload (\<lambda>u. u\<lparr>pu_existing := pu_existing u + 1\<rparr>))"

text \<open>How many futures \<open>stores\<close> holds, which bounds the draining loops.\<close>

definition stores_len :: "'h pack_upload \<Rightarrow> nat" where
  "stores_len u = length (pu_running u) + length (pu_done u)"

fun count_remaining :: "('b, 'm, 'h) server \<Rightarrow> string \<Rightarrow> nat \<Rightarrow> ('b, 'm, 'h, unit) upload_comp" where
  "count_remaining S namespace 0 = returnE ()"
| "count_remaining S namespace (Suc n) =
     bindE (next_stored S namespace) (\<lambda>res.
       case res of
         None \<Rightarrow> returnE ()
       | Some r \<Rightarrow> bindE (count_stored r) (\<lambda>_. count_remaining S namespace n))"

fun drain :: "('b, 'm, 'h) server \<Rightarrow> string \<Rightarrow> nat \<Rightarrow> 'h pack_upload \<times> ('b, 'm) world
    \<Rightarrow> 'h pack_upload \<times> ('b, 'm) world" where
  "drain S namespace 0 s = s"
| "drain S namespace (Suc n) s =
     (case next_stored S namespace s of
        (Inr (Some _), t) \<Rightarrow> drain S namespace n t
      | (_, t) \<Rightarrow> t)"

text \<open>On an error, the frame that was taken for storing is dropped with its permit.\<close>

definition or_drop :: "nat option \<Rightarrow> ('b, 'm, 'h, 'a) upload_comp \<Rightarrow> ('b, 'm, 'h, 'a) upload_comp" where
  "or_drop permit m s =
     (case m s of (Inl e, (u, w)) \<Rightarrow> (Inl e, (u, drop_permit permit w)) | (Inr x, t) \<Rightarrow> (Inr x, t))"

definition frame_complete :: "('b, 'm, 'h) server \<Rightarrow> string \<Rightarrow> 'h pack_frame \<Rightarrow> ('b, 'm, 'h, unit) upload_comp" where
  "frame_complete S namespace finished =
     bindE (or_drop (pf_permit finished)
       (bindE (on_world (frame_verify S finished)) (\<lambda>_.
       (\<lambda>(u, w). if stores_len u \<ge> sv_pack_store_concurrency S
         then bindE (next_stored S namespace) (\<lambda>res.
                case res of None \<Rightarrow> returnE () | Some r \<Rightarrow> count_stored r) (u, w)
         else (Inr (), (u, w)))))) (\<lambda>_.
     on_upload (\<lambda>u. u\<lparr>pu_running := pu_running u @ [finished]\<rparr>))"

definition pack_failure_error :: "pack_failure \<Rightarrow> api_error" where
  "pack_failure_error e = (case e of Failed e \<Rightarrow> pack_api_error e | Panicked \<Rightarrow> internal (OtherError ''panicked''))"

definition handle_event :: "('b, 'm, 'h) server \<Rightarrow> string \<Rightarrow> pack_event \<Rightarrow> ('b, 'm, 'h, unit) upload_comp" where
  "handle_event S namespace event s =
     (case progress S namespace s of (u, w) \<Rightarrow>
      case event of
        Started d \<Rightarrow>
          bindE (on_world (bindE (on_spool (reserve (d_size d))) (frame_new S d))) (\<lambda>f.
          modifyE (\<lambda>(u, w). (u\<lparr>pu_frame := Some f\<rparr>,
            case pu_frame u of None \<Rightarrow> w | Some old \<Rightarrow> drop_permit (pf_permit old) w))) (u, w)
      | Payload payload \<Rightarrow>
          (case pu_frame u of
             None \<Rightarrow> (Inl (internal (OtherError ''payload outside a blob pack frame'')), (u, w))
           | Some f \<Rightarrow> bindE (on_world (frame_write S payload f)) (\<lambda>f. on_upload (\<lambda>u. u\<lparr>pu_frame := Some f\<rparr>)) (u, w))
      | Complete \<Rightarrow>
          (case pu_frame u of
             None \<Rightarrow> (Inl (internal (OtherError ''blob pack frame ended before it began'')), (u, w))
           | Some f \<Rightarrow> frame_complete S namespace f (u\<lparr>pu_frame := None\<rparr>, w)))"

fun read_pack_body :: "('b, 'm, 'h) server \<Rightarrow> string \<Rightarrow> (string + bytes) list \<Rightarrow> ('b, 'm, 'h, unit) upload_comp" where
  "read_pack_body S namespace [] = (\<lambda>(u, w). count_remaining S namespace (stores_len u) (u, w))"
| "read_pack_body S namespace (Inl e # _) = throwE (bad_request e)"
| "read_pack_body S namespace (Inr chunk # body) = (\<lambda>(u, w).
     case push (sv_protocol S) (pu_reader u) chunk of
       Inl failure \<Rightarrow> (Inl (pack_failure_error failure), (u, w))
     | Inr (events, reader) \<Rightarrow>
         bindE (forE events (handle_event S namespace)) (\<lambda>_. read_pack_body S namespace body)
           (u\<lparr>pu_reader := reader\<rparr>, w))"

record blob_pack_receipt =
  rc_created :: u64
  rc_existing :: u64

definition drop_frame :: "'h pack_upload \<times> ('b, 'm) world \<Rightarrow> ('b, 'm) world" where
  "drop_frame = (\<lambda>(u, w). case pu_frame u of None \<Rightarrow> w | Some f \<Rightarrow> drop_permit (pf_permit f) w)"

definition pack_receipt :: "('b, 'm, 'h) server \<Rightarrow> u64 \<Rightarrow> u64 \<Rightarrow> 'h pack_upload
    \<Rightarrow> ('b, 'm, blob_pack_receipt reply) handler" where
  "pack_receipt S declared_blobs declared_bytes u =
     bindE (liftE (map_err pack_api_error (finish (pu_reader u)))) (\<lambda>_.
     if pr_blobs (pu_reader u) \<noteq> declared_blobs \<or> pr_payload_bytes (pu_reader u) \<noteq> declared_bytes
     then throwE (bad_request ''blob pack does not carry what its headers declared'')
     else
       bindE (on_metrics (inc_blob_pack_upload (pr_blobs (pu_reader u)))) (\<lambda>_.
       returnE \<lparr>rp_status = 200, rp_headers = [(''content-type'', wc_receipt_media_type (sv_codec S))],
         rp_body = \<lparr>rc_created = pu_created u, rc_existing = pu_existing u\<rparr>\<rparr>))"

definition read_and_store_pack :: "('b, 'm, 'h) server \<Rightarrow> string \<Rightarrow> u64 \<Rightarrow> u64 \<Rightarrow> (string + bytes) list
    \<Rightarrow> ('b, 'm, blob_pack_receipt reply) handler" where
  "read_and_store_pack S namespace declared_blobs declared_bytes body w =
     (let u = \<lparr>pu_reader = new_reader (sv_max_blob_bytes S) declared_blobs declared_bytes, pu_frame = None,
               pu_running = [], pu_done = [], pu_created = 0, pu_existing = 0\<rparr>
      in case read_pack_body S namespace body (u, w) of
           (Inl e, (u, w)) \<Rightarrow> (Inl e, drop_frame (drain S namespace (stores_len u) (u, w)))
         | (Inr _, (u, w)) \<Rightarrow>
             (case pack_receipt S declared_blobs declared_bytes u w of (r, w) \<Rightarrow> (r, drop_frame (u, w))))"

definition put_blob_pack :: "('b, 'm, 'h) server \<Rightarrow> header_map \<Rightarrow> (string + bytes) list
    \<Rightarrow> ('b, 'm, blob_pack_receipt reply) handler" where
  "put_blob_pack S headers body =
     bindE (authorized S headers Write) (\<lambda>namespace.
     bindE (liftE (required_u64_header (headers_str S) headers (wc_pack_blobs_header (sv_codec S)))) (\<lambda>declared_blobs.
     bindE (liftE (required_u64_header (headers_str S) headers (wc_pack_bytes_header (sv_codec S)))) (\<lambda>declared_bytes.
     if unat declared_blobs > max_batch_items (sv_protocol S)
     then throwE (bad_request ''blob pack declares more blobs than the supported batch size'')
     else if declared_bytes > sv_max_blob_bytes S
     then throwE (too_large ''blob pack exceeds the configured size limit'')
     else read_and_store_pack S namespace declared_blobs declared_bytes body)))"

end
