(* ===== verification/Blob_Requests.thy ===== *)
theory Blob_Requests
  imports Uploads Object_Stores
begin

text \<open>
  What the requests on single blobs guarantee: uploads are verified before they are stored, downloads
  deliver what was verified, and the missing-blobs query says exactly what the namespace lacks. The
  lemmas are proved in \<open>cache_server\<close>; the witnesses run on the instance of \<open>Sample_Server\<close>.
\<close>

section \<open>Who asks\<close>

definition namespace_header :: "('b, 'm, 'h) server \<Rightarrow> header_map \<Rightarrow> string option" where
  "namespace_header S headers = header_str (headers_str S) headers ''mbx-cache-namespace''"

lemma authorized_run:
  assumes "authorized S headers a w = (Inr ns, v)"
  shows "access_allowed (sv_jwt S) (fst (w_auth w)) headers a ns" and "namespace_header S headers = Some ns"
    and "\<exists>s. v = w\<lparr>w_auth := s\<rparr>"
proof -
  obtain A n where a: "w_auth w = (A, n)" by fastforce
  from assms obtain s where s: "authorize (sv_jwt S) headers a (A, n) = (Inr ns, s)" "v = w\<lparr>w_auth := s\<rparr>"
    by (auto simp: authorized_def result_simps a)
  from authorize_allowed [OF s(1)] a show "access_allowed (sv_jwt S) (fst (w_auth w)) headers a ns" by simp
  then show "namespace_header S headers = Some ns" by (simp add: access_allowed_def namespace_header_def)
  show "\<exists>s. v = w\<lparr>w_auth := s\<rparr>" using s(2) by blast
qed

section \<open>The spool is given back\<close>

lemma moves_spool_prims [keeps_intros]:
  "moves (\<lambda>w v. w_spool v = w_spool w) temp_io"
  "moves (\<lambda>w v. w_spool v = w_spool w) (on_blobs m)"
  "moves (\<lambda>w v. w_spool v = w_spool w) (on_metadata n)"
  "moves (\<lambda>w v. w_spool v = w_spool w) (on_metrics f)"
  "moves (\<lambda>w v. w_spool v = w_spool w) (on_auth g)"
  by (auto simp: moves_def temp_io_def on_blobs_def on_metadata_def on_auth_def on_metrics_def focus_def
      split_beta split: list.split)

lemma reserve_release: "reserve n s = (Inr k, t) \<Longrightarrow> release k t = s"
proof (cases s)
  case None
  moreover assume "reserve n s = (Inr k, t)"
  ultimately show ?thesis by (simp add: reserve_None release_def)
next
  case (Some free)
  assume "reserve n s = (Inr k, t)"
  with Some have "reserve n (Some free) = (Inr k, t)" by simp
  then show ?thesis by (cases rule: reserve_Some_cases) (simp_all add: Some release_def)
qed

lemma reserve_refused: "reserve n s = (Inl e, t) \<Longrightarrow> t = s"
  by (auto simp: reserve_def Let_def split: option.splits if_splits)

lemma receive_body_spool [keeps_intros]: "moves (\<lambda>w v. w_spool v = w_spool w) (receive_body S d body i)"
proof (induction S d body i rule: receive_body.induct)
  case (1 S d i)
  show ?case unfolding receive_body.simps by (rule moves_return [OF keeps_preorder])
next
  case (2 S d e body i)
  show ?case unfolding receive_body.simps by (rule moves_throw [OF keeps_preorder])
next
  case (3 S d chunk body i)
  have "moves (\<lambda>w v. w_spool v = w_spool w)
      (if sz > d_size d \<or> sz > sv_max_blob_bytes S then throwE e
       else bindE (liftE (update_hash S d chunk (i\<lparr>in_size := sz\<rparr>))) (\<lambda>i.
         bindE (write_chunk chunk i) (receive_body S d body)))" for sz e
  proof (cases "sz > d_size d \<or> sz > sv_max_blob_bytes S")
    case False
    then show ?thesis
      unfolding write_chunk_def if_not_P [OF False]
      by (intro moves_bind keeps_preorder moves_lift moves_return moves_spool_prims 3)
  qed (simp add: moves_throw)
  then show ?case
    unfolding receive_body.simps by (rule moves_bind [OF keeps_preorder moves_lift [OF keeps_preorder]])
qed

lemma publish_spool [keeps_intros]: "moves (\<lambda>w v. w_spool v = w_spool w) (publish S ns d content)"
  unfolding publish_def
  by (intro moves_bind keeps_preorder moves_internalE moves_spool_prims moves_return)

lemma spool_and_store_spool: "moves (\<lambda>w v. w_spool v = w_spool w) (spool_and_store S ns d body)"
  unfolding spool_and_store_def
  by (intro moves_bind keeps_preorder moves_if moves_lift moves_throw moves_return moves_spool_prims
      receive_body_spool publish_spool)

section \<open>What was received\<close>

definition intake_hash :: "algorithm \<Rightarrow> 'h intake \<Rightarrow> 'h" where
  "intake_hash a i = (case a of Blake3 \<Rightarrow> in_blake3 i | Sha256 \<Rightarrow> in_sha256 i)"

text \<open>The intake has hashed and spooled exactly \<open>bs\<close>.\<close>

definition took :: "('b, 'm, 'h) server \<Rightarrow> algorithm \<Rightarrow> bytes \<Rightarrow> 'h intake \<Rightarrow> bool" where
  "took S a bs i \<longleftrightarrow> in_content i = bs
     \<and> intake_hash a i = hs_update (hasher_of S a) (hs_new (hasher_of S a)) bs"

lemma update_hash_run:
  assumes "algorithm_kind (sv_protocol S) d = Inr a" and "update_hash S d chunk i = Inr j"
  shows "intake_hash a j = hs_update (hasher_of S a) (intake_hash a i) chunk" and "in_content j = in_content i"
    and "in_size j = in_size i"
  using assms by (auto simp: update_hash_def intake_hash_def hasher_of_def split: algorithm.splits)

lemma write_chunk_run:
  assumes "write_chunk chunk i w = (Inr j, v)"
  shows "j = i\<lparr>in_content := in_content i @ chunk\<rparr>"
  using assms by (auto simp: write_chunk_def result_simps)

lemma actual_hash_run:
  assumes "algorithm_kind (sv_protocol S) d = Inr a" and "actual_hash S d i = Inr h"
  shows "h = hex_encode (sv_protocol S) (hs_finalize (hasher_of S a) (intake_hash a i))"
  using assms by (auto simp: actual_hash_def intake_hash_def hasher_of_def split: algorithm.splits)

definition chunks_fit :: "(string + bytes) list \<Rightarrow> bool" where
  "chunks_fit body \<longleftrightarrow> (\<forall>c. Inr c \<in> set body \<longrightarrow> length c < 2 ^ 64)"

lemma receive_body_run:
  assumes "algorithm_kind (sv_protocol S) d = Inr a" and "hasher_ok (hasher_of S a)"
    and "chunks_fit body" and "took S a bs i" and "unat (in_size i) = length bs"
    and "receive_body S d body i w = (Inr j, v)"
  shows "completes body \<and> took S a (bs @ delivered body) j \<and> unat (in_size j) = length (bs @ delivered body)"
  using assms
proof (induction S d body i arbitrary: bs w rule: receive_body.induct)
  case (1 S d i)
  then show ?case by simp
next
  case (2 S d e body i)
  then show ?case by simp
next
  case (3 S d chunk body i)
  from 3(7) obtain sz k l u v' where sz: "checked_add (in_size i) (of_nat (length chunk)) = Some sz"
    and k: "update_hash S d chunk (i\<lparr>in_size := sz\<rparr>) = Inr k"
    and l: "write_chunk chunk k u = (Inr l, v')" and rest: "receive_body S d body l v' = (Inr j, v)"
    and guard: "\<not> (sz > d_size d \<or> sz > sv_max_blob_bytes S)"
    by (auto simp: result_simps split: if_splits)
  have "length chunk < 2 ^ 64" using 3(4) by (simp add: chunks_fit_def)
  then have "unat (of_nat (length chunk) :: u64) = length chunk" by (simp add: unat_of_nat)
  with sz 3(6) have usz: "unat sz = length (bs @ chunk)" by (simp add: checked_add_eq_Some)
  note upd = update_hash_run [OF 3(2) k]
  have took: "took S a (bs @ chunk) l"
    using 3(5,3) upd write_chunk_run [OF l]
    by (simp add: took_def hasher_ok_def intake_hash_def split: algorithm.splits)
  have size: "unat (in_size l) = length (bs @ chunk)"
    using upd(3) write_chunk_run [OF l] usz by simp
  have "chunks_fit body" using 3(4) by (simp add: chunks_fit_def)
  from 3(1) [OF guard 3(2,3) this took size rest] show ?case by simp
qed

section \<open>Uploads and downloads under the contracts\<close>

definition untouched :: "('b, 'm) world \<Rightarrow> ('b, 'm) world \<Rightarrow> bool" where
  "untouched w v \<longleftrightarrow> w_blobs v = w_blobs w \<and> w_metadata v = w_metadata w"

lemma untouched_preorder [simp]: "preorder_rel untouched"
  by (rule preorder_relI) (auto simp: untouched_def)

lemma untouched_prims [keeps_intros]:
  "moves untouched temp_io" "moves untouched (on_auth g)" "moves untouched (on_spool k)"
  "moves untouched (on_metrics f)" "moves untouched (on_pending h)" "moves untouched (authorized S headers a)"
  by (auto simp: moves_def untouched_def temp_io_def on_auth_def on_spool_def on_metrics_def on_pending_def
      authorized_def focus_def split_beta split: list.split)

lemma with_permit_untouched: "moves untouched m \<Longrightarrow> moves untouched (with_permit k m)"
  by (simp add: moves_def untouched_def with_permit_def split_beta)

lemma receive_body_untouched: "moves untouched (receive_body S d body i)"
proof (induction S d body i rule: receive_body.induct)
  case (1 S d i)
  show ?case unfolding receive_body.simps by (rule moves_return [OF untouched_preorder])
next
  case (2 S d e body i)
  show ?case unfolding receive_body.simps by (rule moves_throw [OF untouched_preorder])
next
  case (3 S d chunk body i)
  have "moves untouched
      (if sz > d_size d \<or> sz > sv_max_blob_bytes S then throwE e
       else bindE (liftE (update_hash S d chunk (i\<lparr>in_size := sz\<rparr>))) (\<lambda>i.
         bindE (write_chunk chunk i) (receive_body S d body)))" for sz e
  proof (cases "sz > d_size d \<or> sz > sv_max_blob_bytes S")
    case False
    then show ?thesis
      unfolding write_chunk_def if_not_P [OF False]
      by (intro moves_bind untouched_preorder moves_lift moves_return untouched_prims 3)
  qed (simp add: moves_throw)
  then show ?case
    unfolding receive_body.simps by (rule moves_bind [OF untouched_preorder moves_lift [OF untouched_preorder]])
qed

context cache_server begin

lemma hashers: "hasher_ok (hasher_of S a)"
  using blake3 sha256 by (cases a) (simp_all add: hasher_of_def)

lemma new_intake_took: "took S a [] (new_intake S)"
proof -
  have "hs_update (hasher_of S a) (hs_new (hasher_of S a)) [] = hs_new (hasher_of S a)"
    using hashers [of a] by (simp add: hasher_ok_def)
  then show ?thesis by (cases a) (simp_all add: took_def new_intake_def intake_hash_def hasher_of_def)
qed

text \<open>A received body passes the test of \<open>put_blob\<close> exactly when it belongs under the digest.\<close>

lemma received_matches:
  assumes "algorithm_kind (sv_protocol S) d = Inr a" and "chunks_fit body"
    and "receive_body S d body (new_intake S) w = (Inr i, v)" and "actual_hash S d i = Inr actual"
  shows "completes body" and "in_content i = delivered body"
    and "in_size i = d_size d \<and> actual = d_hash d \<longleftrightarrow> content_matches S d (delivered body)"
proof -
  have "unat (in_size (new_intake S)) = length []" by (simp add: new_intake_def)
  note run = receive_body_run [OF assms(1) hashers assms(2) new_intake_took this assms(3)]
  then show "completes body" "in_content i = delivered body" by (auto simp: took_def)
  from run have "actual = hex_encode (sv_protocol S) (hash_content (hasher_of S a) (delivered body))"
    using actual_hash_run [OF assms(1,4)] by (simp add: took_def hash_content_def)
  moreover from run have "unat (in_size i) = length (delivered body)" by simp
  ultimately show "in_size i = d_size d \<and> actual = d_hash d \<longleftrightarrow> content_matches S d (delivered body)"
    using assms(1) by (auto simp: content_matches_def word_unat_eq_iff)
qed

lemma publish_run:
  assumes "world_ok w" and "digest_ok (sv_protocol S) d" and "content_matches S d content"
    and "publish S ns d content w = (Inr out, v)"
  shows "world_ok v" and "visible (w_metadata v) ns d"
    and "\<exists>c. held (w_blobs v) d = Some c \<and> content_matches S d c"
    and "out = Created \<Longrightarrow> held (w_blobs w) d = None \<and> held (w_blobs v) d = Some content"
proof -
  from assms(4) obtain b n where b: "bs_put (sv_blobs S) d content (w_blobs w) = (Inr out, b)"
    and n: "ms_register_blob (sv_metadata S) ns d out (w_metadata w) = (Inr (), n)"
    and v: "w_blobs v = b" "w_metadata v = n"
    by (auto simp: publish_def result_simps on_metrics_def)
  have ok: "bok (w_blobs w)" "mok (w_metadata w)" using assms(1) by (simp_all add: world_ok_def)
  have bok: "bok b" using blobs.put_ok [OF ok(1) assms(2,3)] b by simp
  note reg = metadata.register [OF ok(2) n]
  from bok reg v show "world_ok v" by (simp add: world_ok_def)
  from reg v show "visible (w_metadata v) ns d" by simp
  have "held b d \<noteq> None"
    using blobs.put_created [OF ok(1) assms(2)] blobs.put_exists [OF ok(1) assms(2)] b by (cases out) fastforce+
  with blobs.held_good [OF bok assms(2)] v show "\<exists>c. held (w_blobs v) d = Some c \<and> content_matches S d c" by auto
  show "held (w_blobs w) d = None \<and> held (w_blobs v) d = Some content" if "out = Created"
    using blobs.put_created [OF ok(1) assms(2)] b that v by simp
qed

lemma spool_and_store_run:
  assumes "world_ok w" and "digest_ok (sv_protocol S) d" and "chunks_fit body"
    and "spool_and_store S ns d body w = (Inr status, v)"
  shows "completes body \<and> content_matches S d (delivered body) \<and> world_ok v \<and> visible (w_metadata v) ns d
    \<and> (\<exists>c. held (w_blobs v) d = Some c \<and> content_matches S d c)
    \<and> (status = 201 \<and> held (w_blobs w) d = None \<and> held (w_blobs v) d = Some (delivered body) \<or> status = 204)"
proof -
  obtain a where a: "algorithm_kind (sv_protocol S) d = Inr a" using protocol assms(2) by (rule digest_ok_algorithm)
  from assms(4) obtain w1 w2 i w3 w4 actual out where
    t: "temp_io w = (Inr (), w1)" "temp_io w1 = (Inr (), w2)"
    and i: "receive_body S d body (new_intake S) w2 = (Inr i, w3)" and t4: "temp_io w3 = (Inr (), w4)"
    and actual: "actual_hash S d i = Inr actual"
    and guard: "\<not> (in_size i \<noteq> d_size d \<or> actual \<noteq> d_hash d)"
    and out: "publish S ns d (in_content i) w4 = (Inr out, v)"
    and status: "status = (case out of Created \<Rightarrow> 201 | AlreadyExists \<Rightarrow> 204)"
    by (auto simp: spool_and_store_def result_simps split: if_splits)
  note m = received_matches [OF a assms(3) i actual]
  have "untouched w w4"
    using moves_step [OF untouched_prims(1) t(1)] moves_step [OF untouched_prims(1) t(2)]
      moves_step [OF receive_body_untouched i] moves_step [OF untouched_prims(1) t4]
    by (simp add: untouched_def)
  then have w4: "world_ok w4" "w_blobs w4 = w_blobs w" using assms(1) by (simp_all add: untouched_def world_ok_def)
  have good: "content_matches S d (delivered body)" using m(3) guard by simp
  note p = publish_run [OF w4(1) assms(2) _ out, unfolded m(2), OF good]
  show ?thesis using m(1) good p w4(2) status by (cases out) simp_all
qed

lemma spool_and_store_refused:
  assumes "digest_ok (sv_protocol S) d" and "chunks_fit body"
    and "\<not> (completes body \<and> content_matches S d (delivered body))"
  shows "moves untouched (spool_and_store S ns d body)"
proof -
  obtain a where a: "algorithm_kind (sv_protocol S) d = Inr a" using protocol assms(1) by (rule digest_ok_algorithm)
  have tail: "moves untouched (bindE temp_io (\<lambda>_. bindE (liftE (actual_hash S d i)) (\<lambda>actual.
     if in_size i \<noteq> d_size d \<or> actual \<noteq> d_hash d then throwE e
     else bindE (publish S ns d (in_content i)) k)))"
    if i: "receive_body S d body (new_intake S) w = (Inr i, v)" for w i v e and k :: "put_outcome \<Rightarrow> ('b, 'm, nat) handler"
  proof (rule moves_bind [OF untouched_preorder untouched_prims(1)], rule moves_bind_result [OF untouched_preorder moves_lift [OF untouched_preorder]])
    fix x u w' v' actual assume "liftE (actual_hash S d i) w' = (Inr actual, v')"
    then have "actual_hash S d i = Inr actual" by simp
    from received_matches [OF a assms(2) i this] assms(3)
    have "in_size i \<noteq> d_size d \<or> actual \<noteq> d_hash d" by blast
    then show "moves untouched (if in_size i \<noteq> d_size d \<or> actual \<noteq> d_hash d then throwE e
        else bindE (publish S ns d (in_content i)) k)"
      by (simp add: moves_throw)
  qed
  show ?thesis
    unfolding spool_and_store_def
    by (rule moves_bind [OF untouched_preorder untouched_prims(1)])+
      (rule moves_bind_result [OF untouched_preorder receive_body_untouched], rule tail)
qed

text \<open>
  A relation that carries verified uploads into a namespace: it holds when the stores are untouched, and
  along the publication of a content that belongs under its digest. Whatever an upload does follows it.
\<close>

definition carries :: "string \<Rightarrow> (('b, 'm) world \<Rightarrow> ('b, 'm) world \<Rightarrow> bool) \<Rightarrow> bool" where
  "carries ns R \<longleftrightarrow> preorder_rel R \<and> (\<forall>w v. untouched w v \<longrightarrow> R w v)
     \<and> (\<forall>d content. digest_ok (sv_protocol S) d \<longrightarrow> content_matches S d content \<longrightarrow> moves R (publish S ns d content))"

lemma carries_facts:
  assumes "carries ns R"
  shows "preorder_rel R" and "moves untouched m \<Longrightarrow> moves R m"
    and "digest_ok (sv_protocol S) d \<Longrightarrow> content_matches S d content \<Longrightarrow> moves R (publish S ns d content)"
  using assms by (auto simp: carries_def moves_def)

lemma carries_permit: "carries ns R \<Longrightarrow> moves R m \<Longrightarrow> moves R (with_permit k m)"
proof (rule moves_any)
  fix w r v assume R: "carries ns R" and m: "moves R m" and run: "with_permit k m w = (r, v)"
  obtain q u where q: "m w = (q, u)" by fastforce
  with run have v: "v = u\<lparr>w_spool := release k (w_spool u)\<rparr>" by (simp add: with_permit_def)
  have "R u v" using R by (simp add: carries_def untouched_def v)
  with moves_step [OF m q] show "R w v" by (rule preorder_rel_trans [OF carries_facts(1) [OF R]])
qed

lemma spool_and_store_moves:
  assumes R: "carries ns R" and "digest_ok (sv_protocol S) d" and "chunks_fit body"
  shows "moves R (spool_and_store S ns d body)"
proof (cases "completes body \<and> content_matches S d (delivered body)")
  case False
  with assms show ?thesis by (intro carries_facts(2) [OF R] spool_and_store_refused)
next
  case True
  note pre = carries_facts(1) [OF R] and calm = carries_facts(2) [OF R]
  obtain a where a: "algorithm_kind (sv_protocol S) d = Inr a" using protocol assms(2) by (rule digest_ok_algorithm)
  have tail: "moves R (bindE temp_io (\<lambda>_. bindE (liftE (actual_hash S d i)) (\<lambda>actual.
     if in_size i \<noteq> d_size d \<or> actual \<noteq> d_hash d then throwE e
     else bindE (publish S ns d (in_content i)) (\<lambda>out. returnE (k out)))))"
    if i: "receive_body S d body (new_intake S) w = (Inr i, v)" for w i v e and k :: "put_outcome \<Rightarrow> nat"
  proof (rule moves_bind [OF pre calm [OF untouched_prims(1)]], rule moves_bind_result [OF pre moves_lift [OF pre]])
    fix x u w' v' actual assume "liftE (actual_hash S d i) w' = (Inr actual, v')"
    then have "actual_hash S d i = Inr actual" by simp
    from received_matches(2) [OF a assms(3) i this] True
    have "content_matches S d (in_content i)" by simp
    then show "moves R (if in_size i \<noteq> d_size d \<or> actual \<noteq> d_hash d then throwE e
        else bindE (publish S ns d (in_content i)) (\<lambda>out. returnE (k out)))"
      by (intro moves_if moves_throw moves_bind pre carries_facts(3) [OF R] moves_return assms)
  qed
  show ?thesis
    unfolding spool_and_store_def
    by (rule moves_bind [OF pre calm [OF untouched_prims(1)]])+
      (rule moves_bind_result [OF pre calm [OF receive_body_untouched]], rule tail)
qed

text \<open>A handler that authorizes first works in the namespace its header names.\<close>

lemma authorized_bind_moves:
  assumes "preorder_rel R" and "moves R (authorized S headers a)"
    and "\<And>ns. namespace_header S headers = Some ns \<Longrightarrow> moves R (f ns)"
  shows "moves R (bindE (authorized S headers a) f)"
  by (rule moves_bind_result [OF assms(1,2)]) (auto dest: authorized_run(2) intro: assms(3))

lemma authorized_bind_step:
  assumes "\<And>ns. namespace_header S headers = Some ns \<Longrightarrow> moves (step N) (f ns)"
  shows "moves (step N) (bindE (authorized S headers a) f)"
  using step_preorder authorized_step assms by (rule authorized_bind_moves)

lemma put_blob_moves:
  assumes pre: "preorder_rel R" and calm: "\<And>w v. untouched w v \<Longrightarrow> R w v"
    and R: "\<And>ns. namespace_header S headers = Some ns \<Longrightarrow> carries ns R" and "chunks_fit body"
  shows "moves R (put_blob S headers parts body)"
proof -
  have quiet: "moves R m" if "moves untouched m" for m :: "('b, 'm, 'x) handler"
    using that calm by (simp add: moves_def)
  show ?thesis
    unfolding put_blob_def
  proof (rule authorized_bind_moves [OF pre quiet [OF untouched_prims(6)]], rule moves_bind [OF pre moves_lift [OF pre]],
      rule moves_bind_result [OF pre moves_lift [OF pre]])
    fix ns x w d v assume ns: "namespace_header S headers = Some ns"
      and d: "liftE (parse_digest (sv_protocol S) parts) w = (Inr d, v)"
    then have "digest_ok (sv_protocol S) d" by (cases parts) (auto simp: result_simps)
    with R [OF ns] assms(4) have "moves R (with_permit k (spool_and_store S ns d body))" for k
      by (intro carries_permit spool_and_store_moves)
    then show "moves R (if sv_max_blob_bytes S < d_size d then throwE (too_large ''blob exceeds configured limit'')
        else bindE (on_spool (reserve (d_size d))) (\<lambda>permit. with_permit permit (spool_and_store S ns d body)))"
      by (intro moves_if moves_throw moves_bind pre quiet [OF untouched_prims(3)])
  qed
qed

lemma untouched_step: "untouched w v \<Longrightarrow> step N w v"
  by (simp add: untouched_def step_def world_ok_def blobs_kept_def same_outside_def)

lemma carries_step: "ns \<in> N \<Longrightarrow> carries ns (step N)"
  unfolding carries_def
proof (intro conjI allI impI)
  fix d content assume "ns \<in> N" "digest_ok (sv_protocol S) d" "content_matches S d content"
  then show "moves (step N) (publish S ns d content)"
    unfolding publish_def
    by (intro moves_bind step_preorder moves_internalE put_step register_step on_metrics_step moves_return)
qed (simp_all add: untouched_step)

lemma put_blob_step:
  assumes "\<And>ns. namespace_header S headers = Some ns \<Longrightarrow> ns \<in> N" and "chunks_fit body"
  shows "moves (step N) (put_blob S headers parts body)"
  by (rule put_blob_moves) (simp_all add: untouched_step carries_step assms)

lemma put_blob_run:
  assumes "world_ok w" and "chunks_fit body" and "put_blob S headers (alg, h, sz) body w = (Inr status, v)"
  defines "d \<equiv> \<lparr>d_algorithm = alg, d_hash = h, d_size = sz\<rparr>"
  obtains ns where "access_allowed (sv_jwt S) (fst (w_auth w)) headers Write ns"
    "namespace_header S headers = Some ns" "world_ok v" "digest_ok (sv_protocol S) d" "sz \<le> sv_max_blob_bytes S"
    "completes body" "content_matches S d (delivered body)" "visible (w_metadata v) ns d"
    "\<exists>c. held (w_blobs v) d = Some c \<and> content_matches S d c"
    "status = 201 \<and> held (w_blobs w) d = None \<and> held (w_blobs v) d = Some (delivered body) \<or> status = 204"
proof -
  from assms(3) obtain ns w1 s k where
    auth: "authorized S headers Write w = (Inr ns, w1)" and d: "digest_ok (sv_protocol S) d"
    and sz: "\<not> sv_max_blob_bytes S < sz" and r: "on_spool (reserve sz) w1 = (Inr k, s)"
    and put: "with_permit k (spool_and_store S ns d body) s = (Inr status, v)"
    by (auto simp: put_blob_def d_def result_simps split: if_splits)
  from put obtain t where t: "spool_and_store S ns d body s = (Inr status, t)"
    and v: "v = t\<lparr>w_spool := release k (w_spool t)\<rparr>" by (auto simp: with_permit_def split: prod.splits)
  note a = authorized_run [OF auth]
  from a(3) r have s: "w_blobs s = w_blobs w" "world_ok s"
    using assms(1) by (auto simp: result_simps world_ok_def)
  note run = spool_and_store_run [OF s(2) d assms(2) t]
  show thesis
  proof (rule that [of ns])
    show "access_allowed (sv_jwt S) (fst (w_auth w)) headers Write ns" "namespace_header S headers = Some ns"
      using a by blast+
  qed (use run d sz s v in \<open>auto simp: world_ok_def\<close>)
qed

lemma visible_in_true:
  assumes "world_ok w" and "visible_in S ns d w = (Inr b, v)"
  shows "b = visible (w_metadata w) ns d" and "world_ok v" and "w_blobs v = w_blobs w"
    and "visible (w_metadata v) = visible (w_metadata w)"
  using visible_in_run [OF assms] assms(1) by (auto simp: step_def)

lemma get_stored_run:
  assumes "world_ok w" and "digest_ok (sv_protocol S) d" and "get_stored S d w = (Inr found, v)"
  shows "found = None \<Longrightarrow> held (w_blobs w) d = None"
    and "found = Some b \<Longrightarrow> bl_size b = d_size d"
    and "found = Some b \<Longrightarrow> \<exists>c. held (w_blobs v) d = Some c \<and> content_matches S d c
      \<and> (completes (bl_stream b) \<longrightarrow> delivered (bl_stream b) = c)"
proof -
  from assms(3) have g: "bs_get (sv_blobs S) d (w_blobs w) = (Inr found, w_blobs v)"
    by (auto simp: get_stored_def result_simps)
  have ok: "bok (w_blobs w)" using assms(1) by (simp add: world_ok_def)
  show "held (w_blobs w) d = None" if "found = None"
    using blobs.get_missing [OF ok assms(2)] g that by simp
  assume b: "found = Some b"
  with g have gb: "bs_get (sv_blobs S) d (w_blobs w) = (Inr (Some b), w_blobs v)" by simp
  from blobs.get_found [OF ok assms(2) gb] obtain c where c: "held (w_blobs v) d = Some c"
    "bl_size b = of_nat (length c)" "completes (bl_stream b) \<longrightarrow> delivered (bl_stream b) = c" by blast
  have "bok (w_blobs v)" using blobs.get_ok [OF ok, of d] gb by simp
  with c(1) have good: "content_matches S d c" using blobs.held_good [OF _ assms(2)] by blast
  with c(2) show "bl_size b = d_size d" by (simp add: content_matches_def)
  from c good show "\<exists>c. held (w_blobs v) d = Some c \<and> content_matches S d c
      \<and> (completes (bl_stream b) \<longrightarrow> delivered (bl_stream b) = c)" by blast
qed

lemma get_blob_run:
  assumes "world_ok w" and "get_blob S headers (alg, h, sz) w = (Inr rep, v)"
  defines "d \<equiv> \<lparr>d_algorithm = alg, d_hash = h, d_size = sz\<rparr>"
  obtains ns where "access_allowed (sv_jwt S) (fst (w_auth w)) headers Read ns"
    "namespace_header S headers = Some ns" "digest_ok (sv_protocol S) d" "visible (w_metadata w) ns d"
    "completes (rp_body rep) \<Longrightarrow> content_matches S d (delivered (rp_body rep))"
    "rp_status rep = 200"
    "rp_headers rep = [(''content-length'', nat_to_string (unat sz)), (''content-type'', ''application/octet-stream''),
      (''etag'', quoted_etag h), (''digest'', alg @ ''='' @ h)]"
proof -
  from assms(2) obtain ns w1 w2 w3 b w4 where
    auth: "authorized S headers Read w = (Inr ns, w1)" and d: "digest_ok (sv_protocol S) d"
    and vis: "visible_in S ns d w1 = (Inr True, w2)"
    and p: "w3 = w2\<lparr>w_pending := record_access ns [d] (w_pending w2)\<rparr>"
    and g: "get_stored S d w3 = (Inr (Some b), w4)"
    and rep: "rep = \<lparr>rp_status = 200, rp_headers = [(''content-length'', nat_to_string (unat (bl_size b))),
        (''content-type'', ''application/octet-stream''), (''etag'', quoted_etag (d_hash d)),
        (''digest'', d_algorithm d @ ''='' @ d_hash d)], rp_body = bl_stream b\<rparr>"
    by (auto simp: get_blob_def d_def result_simps on_pending_def split: if_splits option.splits)
  note a = authorized_run [OF auth]
  from a(3) assms(1) have w1: "world_ok w1" "w_metadata w1 = w_metadata w" by (auto simp: world_ok_def)
  note vt = visible_in_true [OF w1(1) vis]
  have w3: "world_ok w3" using vt(2) by (simp add: p world_ok_def)
  note st = get_stored_run [OF w3 d g]
  show thesis
  proof (rule that [of ns])
    show "completes (rp_body rep) \<Longrightarrow> content_matches S d (delivered (rp_body rep))"
      using st(3) [OF refl] by (auto simp: rep)
  qed (use a vt(1) w1(2) d st(2) [OF refl] in \<open>auto simp: rep d_def\<close>)
qed

lemma get_blob_step:
  assumes "\<And>ns. namespace_header S headers = Some ns \<Longrightarrow> ns \<in> N"
  shows "moves (step N) (get_blob S headers parts)"
  unfolding get_blob_def
  by (rule authorized_bind_step)
    (intro moves_bind moves_lift step_preorder visible_in_step moves_if moves_throw on_pending_step
      get_stored_step moves_case_option forget_missing_blob_step on_metrics_step moves_return assms)

lemma missing_blobs_run:
  assumes "world_ok w" and "missing_blobs S headers ds w = (Inr missing, v)"
  obtains ns where "access_allowed (sv_jwt S) (fst (w_auth w)) headers Read ns"
    "namespace_header S headers = Some ns" "missing = filter (\<lambda>d. \<not> visible (w_metadata w) ns d) ds"
    "length ds \<le> max_batch_items (sv_protocol S)" "w_blobs v = w_blobs w" "visible (w_metadata v) = visible (w_metadata w)"
proof -
  from assms(2) obtain ns w1 found n where
    auth: "authorized S headers Read w = (Inr ns, w1)" and len: "\<not> length ds > max_batch_items (sv_protocol S)"
    and n: "ms_visible_blobs (sv_metadata S) ns ds (w_metadata w1) = (Inr found, n)"
    and m: "missing = filter (\<lambda>d. d \<notin> set found) ds" and v: "v = w1\<lparr>w_metadata := n\<rparr>"
    by (auto simp: missing_blobs_def result_simps split: if_splits)
  note a = authorized_run [OF auth]
  from a(3) assms(1) have w1: "mok (w_metadata w1)" "w_metadata w1 = w_metadata w" "w_blobs w1 = w_blobs w"
    by (auto simp: world_ok_def)
  note vb = metadata.visible_blobs [OF w1(1) n]
  have "missing = filter (\<lambda>d. \<not> visible (w_metadata w) ns d) ds"
    unfolding m using vb w1(2) by (intro filter_cong) auto
  then show thesis using a len vb v w1 by (intro that [of ns]) auto
qed

lemma missing_blobs_step: "moves (step N) (missing_blobs S headers ds)"
  unfolding missing_blobs_def
  by (intro moves_bind moves_lift step_preorder authorized_step moves_if moves_throw moves_internalE
      ms_visible_blobs_step moves_return)

end

section \<open>Which errors a lookup can end in\<close>

lemma authorize_token_errors:
  "authorize_token J a ns token s = (Inl e, t) \<Longrightarrow> ae_status e \<in> {401, 403}"
  by (cases s) (auto simp: authorize_token_def authorize_patterns_def Let_def api_errors
      split: option.splits sum.splits prod.splits if_splits)

lemma authorized_errors: "authorized S headers a w = (Inl e, v) \<Longrightarrow> ae_status e \<in> {400, 401, 403, 426}"
proof -
  assume "authorized S headers a w = (Inl e, v)"
  then obtain t where "authorize (sv_jwt S) headers a (w_auth w) = (Inl e, t)"
    by (auto simp: authorized_def result_simps)
  then show ?thesis
    by (cases "w_auth w")
      (auto simp: authorize_def api_errors upgrade_required_def dest!: authorize_token_errors
        split: option.splits if_splits)
qed

lemma internal_status: "ae_status (internal e) \<in> {500, 503}"
  by (simp add: internal_def api_errors split: anyhow.split)

context cache_server begin

text \<open>A held, visible blob is never reported as missing.\<close>

lemma get_blob_found:
  assumes "world_ok w" and "namespace_header S headers = Some ns"
    and "digest_ok (sv_protocol S) \<lparr>d_algorithm = alg, d_hash = h, d_size = sz\<rparr>"
    and "visible (w_metadata w) ns \<lparr>d_algorithm = alg, d_hash = h, d_size = sz\<rparr>"
    and "held (w_blobs w) \<lparr>d_algorithm = alg, d_hash = h, d_size = sz\<rparr> \<noteq> None"
    and "get_blob S headers (alg, h, sz) w = (Inl e, v)"
  shows "ae_status e \<in> {400, 401, 403, 426, 500, 503}"
proof -
  let ?d = "\<lparr>d_algorithm = alg, d_hash = h, d_size = sz\<rparr>"
  obtain r w1 where auth: "authorized S headers Read w = (r, w1)" by fastforce
  show ?thesis
  proof (cases r)
    case (Inl f)
    with assms(6) auth have "f = e" by (simp add: get_blob_def)
    with authorized_errors auth Inl show ?thesis by fastforce
  next
    case (Inr ns')
    note a = authorized_run [OF auth [unfolded Inr]]
    with assms(2) have ns: "ns' = ns" by simp
    from a(3) assms(1) have w1: "world_ok w1" "w_metadata w1 = w_metadata w" "w_blobs w1 = w_blobs w"
      by (auto simp: world_ok_def)
    obtain q w2 where vis: "visible_in S ns ?d w1 = (q, w2)" by fastforce
    have parse: "parse_digest (sv_protocol S) (alg, h, sz) = Inr ?d" using assms(3) by (simp add: parse_digest_ok)
    show ?thesis
    proof (cases q)
      case (Inl f)
      with assms(6) auth Inr ns vis parse have "f = e" by (simp add: get_blob_def)
      moreover have "ae_status f \<in> {500, 503}"
        using vis Inl internal_status by (auto simp: visible_in_def result_simps)
      ultimately show ?thesis by auto
    next
      case (Inr b)
      note vt = visible_in_true [OF w1(1) vis [unfolded Inr]]
      with assms(4) w1(2) have b: "b" by simp
      define w3 where "w3 = w2\<lparr>w_pending := record_access ns [?d] (w_pending w2)\<rparr>"
      have w3: "world_ok w3" "w_blobs w3 = w_blobs w" using vt(2,3) w1(3) by (simp_all add: w3_def world_ok_def)
      obtain g w4 where get: "get_stored S ?d w3 = (g, w4)" by fastforce
      show ?thesis
      proof (cases g)
        case (Inl f)
        with assms(6) auth \<open>r = Inr ns'\<close> ns vis parse Inr b get have "f = e"
          by (simp add: get_blob_def on_pending_def w3_def)
        moreover have "ae_status f \<in> {500, 503}"
          using get Inl internal_status by (auto simp: get_stored_def result_simps)
        ultimately show ?thesis by auto
      next
        case (Inr found)
        with get_stored_run(1) [OF w3(1) assms(3) get [unfolded Inr]] assms(5) w3(2)
        obtain bl where "found = Some bl" by (cases found) auto
        with assms(6) auth \<open>r = Inr ns'\<close> ns vis parse \<open>q = Inr b\<close> b get Inr have False
          by (simp add: get_blob_def on_pending_def on_metrics_def w3_def)
        then show ?thesis ..
      qed
    qed
  qed
qed

end

end
