(* ===== verification/Sample_Server.thy ===== *)
theory Sample_Server
  imports Blob_Requests
begin

text \<open>
  One server put together from the model's own stores: blobs on the filesystem, metadata in memory. Any
  such server satisfies \<open>cache_server\<close> (\<open>filesystem_server\<close>); \<open>sample_server\<close> fixes the crates' functions
  to computable ones, so that whole requests evaluate in the witnesses. Its hash of a content is the
  content padded to 32 bytes.
\<close>

lemma filesystem_server:
  assumes "protocol_ok (sv_protocol S)" and "codec_ok J" and "hasher_ok (sv_blake3 S)" and "hasher_ok (sv_sha256 S)"
    and "sv_blobs S = filesystem_blob_store (sv_protocol S) st" and "sv_metadata S = memory_store J"
  shows "cache_server S (fs_ok (sv_protocol S) st (content_matches S)) (fs_held (sv_protocol S) st)
    (memory_ok J) memory_visible (mem_result J) memory_manifest"
proof (rule cache_server.intro)
  show "blob_storage (bs_get (sv_blobs S)) (bs_put (sv_blobs S)) (fs_ok (sv_protocol S) st (content_matches S))
      (fs_held (sv_protocol S) st) (digest_ok (sv_protocol S)) (content_matches S)"
    using filesystem_contract [OF assms(1)] by (simp add: assms(5) filesystem_blob_store_def)
  show "metadata_contract (sv_metadata S) (memory_ok J) memory_visible (mem_result J) memory_manifest"
    unfolding assms(6) by (rule memory_contract [OF assms(2)])
  show "cache_server_axioms S" using assms(1,3,4) by (rule cache_server_axioms.intro)
qed

definition pad_hasher :: "bytes hasher" where
  "pad_hasher = \<lparr>hs_new = [], hs_update = (@), hs_finalize = (\<lambda>h. take 32 (h @ replicate 32 170))\<rparr>"

definition sample_json :: json where
  "sample_json = JObject [(''kind'', JString ''rustc''), (''version'', JNumber (PosInt 1))]"

definition sample_directory :: directory where
  "sample_directory = \<lparr>dir_directories = [],
     dir_files = [\<lparr>fn_name = ''out'', fn_mode = 420, fn_executable = False, fn_digest = sample_blake\<rparr>],
     dir_symlinks = [], dir_version = 1\<rparr>"

definition sample_output :: output_metadata where
  "sample_output = \<lparr>om_version = 1, om_kind = ''rustc'', om_stdout = sample_blake, om_stderr = sample_blake\<rparr>"

definition sample_wire :: wire_codec where
  "sample_wire =
     \<lparr>wc_json_from_slice = (\<lambda>bs. if bs = [170, 170] then Inr sample_json else Inl ''expected value''),
      wc_json_to_vec = (\<lambda>_. Inr [170, 170]),
      wc_directory_from_slice = (\<lambda>bs. if bs = [170, 170] then Inr sample_directory else Inl ''expected value''),
      wc_directory_to_vec = (\<lambda>_. Inr [170, 170]),
      wc_build_script_action = (\<lambda>_. Inl ''missing field''), wc_cc_action = (\<lambda>_. Inl ''missing field''),
      wc_task_action = (\<lambda>_. Inl ''missing field''), wc_rustc_action = (\<lambda>_. Inr sample_rustc_action),
      wc_build_script_metadata = (\<lambda>_. Inl ''missing field''), wc_cc_metadata = (\<lambda>_. Inl ''missing field''),
      wc_rustc_metadata = (\<lambda>_. Inr sample_output), wc_task_metadata = (\<lambda>_. Inl ''missing field''),
      wc_cc_metadata_validate = (\<lambda>_. True), wc_rustc_metadata_validate = (\<lambda>_. True),
      wc_manifest_from_slice = (\<lambda>bs. if bs = [170, 170] then Inr sample_manifest else Inl ''expected value''),
      wc_manifest_validate = (\<lambda>_. True), wc_selector_digest = (\<lambda>_. sample_blake),
      wc_canonical_json = (\<lambda>_. Inr [170, 170]), wc_debug = (\<lambda>s. s), wc_encode_metrics = (\<lambda>_. Inr ''''),
      wc_protocol_version = 1, wc_manifest_media_type = ''manifest'', wc_batch_media_type = ''batch'',
      wc_pack_media_type = ''pack'', wc_receipt_media_type = ''receipt'',
      wc_pack_blobs_header = ''mbx-cache-pack-blobs'', wc_pack_bytes_header = ''mbx-cache-pack-bytes''\<rparr>"

definition sample_store :: filesystem_store where
  "sample_store = \<lparr>fss_root = []\<rparr>"

definition sample_server :: "(fs, memory_metadata, bytes) server" where
  "sample_server =
     \<lparr>sv_protocol = reference_protocol, sv_jwt = sample_jwt, sv_codec = sample_wire,
      sv_blake3 = pad_hasher, sv_sha256 = pad_hasher,
      sv_blobs = filesystem_blob_store reference_protocol sample_store,
      sv_metadata = memory_store reference_codec, sv_max_blob_bytes = 1024, sv_pack_store_concurrency = 2\<rparr>"

definition sample_world :: "(fs, memory_metadata) world" where
  "sample_world =
     \<lparr>w_blobs = quiet, w_metadata = memory_default, w_auth = (sample_authorizer, sample_net),
      w_metrics = metrics_new ''1'' None, w_pending = pending_default, w_spool = Some 10, w_temp = [],
      w_now = 0, w_ticks = [], w_progress = []\<rparr>"

lemma pad_hasher_ok: "hasher_ok pad_hasher"
  by (simp add: hasher_ok_def pad_hasher_def min_def)

lemma sample_server_simps [simp]:
  "sv_protocol sample_server = reference_protocol" "sv_jwt sample_server = sample_jwt"
  "sv_codec sample_server = sample_wire" "sv_blake3 sample_server = pad_hasher" "sv_sha256 sample_server = pad_hasher"
  "sv_blobs sample_server = filesystem_blob_store reference_protocol sample_store"
  "sv_metadata sample_server = memory_store reference_codec" "sv_max_blob_bytes sample_server = 1024"
  "sv_pack_store_concurrency sample_server = 2"
  by (simp_all add: sample_server_def)

abbreviation sample_blobs_ok :: "fs \<Rightarrow> bool" where
  "sample_blobs_ok \<equiv> fs_ok reference_protocol sample_store (content_matches sample_server)"

interpretation sample: cache_server sample_server
    "fs_ok reference_protocol sample_store (content_matches sample_server)"
    "fs_held reference_protocol sample_store" "memory_ok reference_codec" memory_visible
    "mem_result reference_codec" memory_manifest
  using filesystem_server [of sample_server reference_codec sample_store] reference_protocol_ok
    reference_codec_ok pad_hasher_ok by simp

lemma sample_contract: "cache_server sample_server sample_blobs_ok (fs_held reference_protocol sample_store)
    (memory_ok reference_codec) memory_visible (mem_result reference_codec) memory_manifest"
  by (rule sample.cache_server_axioms)

lemma hex_of_padding: "ref_hex_encode (replicate n 170) = replicate (2 * n) (CHR ''a'')"
  by (induction n) (simp_all add: hex_digit_def char_of_def bit_iff_odd)

lemma sample_matches: "content_matches sample_server sample_blake [170, 170]"
proof -
  have "take 32 ([170, 170] @ replicate 32 (170 :: u8)) = replicate 32 170"
  proof -
    have "[170, 170] @ replicate 32 (170 :: u8) = replicate 34 170"
      using replicate_add [of 2 32 "170 :: u8"] by (simp add: numeral_2_eq_2)
    then show ?thesis by (simp add: take_replicate)
  qed
  then show ?thesis
    by (simp add: content_matches_def sample_blake_def hash_content_def hasher_of_def pad_hasher_def
        reference_protocol_def ref_algorithm_kind_def hex_of_padding sample_hash_def split: algorithm.split)
qed

lemma sample_world_ok: "sample_blobs_ok (w_blobs sample_world)" "memory_ok reference_codec (w_metadata sample_world)"
  by (simp_all add: sample_world_def quiet_ok memory_default_ok)

definition put_headers :: header_map where
  "put_headers = (sample_headers ''secret'')(''if-none-match'' \<mapsto> ''*'')"

lemma sample_authorized:
  "w_auth w = (sample_authorizer, sample_net) \<Longrightarrow> authorized sample_server put_headers a w = (Inr ''team/app'', w)"
  by (cases a) (simp_all add: authorized_def on_auth_def focus_def authorize_eval put_headers_def
      strip_suffix_def)

lemma sample_authorized_run: "authorized sample_server put_headers a sample_world = (Inr ''team/app'', sample_world)"
  by (rule sample_authorized) (simp add: sample_world_def)

end
