(* ===== verification/Deployment.thy ===== *)
theory Deployment
  imports Sample_Server Postgres_Spec
begin

text \<open>
  The durable deployment: metadata in PostgreSQL. Together with a blob store that keeps its contract it
  is a \<open>cache_server\<close>, so everything proved of the handlers and of the service holds for it; the
  interpretation below fixes the blobs to the filesystem and the crates' functions to computable ones.
\<close>

lemma postgres_server:
  assumes "protocol_ok (sv_protocol S)" and "codec_ok J" and "hasher_ok (sv_blake3 S)" and "hasher_ok (sv_sha256 S)"
    and "blob_storage (bs_get (sv_blobs S)) (bs_put (sv_blobs S)) bok held (digest_ok (sv_protocol S)) (content_matches S)"
    and "sv_metadata S = postgres_store J"
  shows "cache_server S bok held (pg_ok J) pg_visible (pg_result J) (pg_manifest J)"
proof (rule cache_server.intro)
  show "metadata_contract (sv_metadata S) (pg_ok J) pg_visible (pg_result J) (pg_manifest J)"
    unfolding assms(6) by (rule postgres_contract [OF assms(2)])
  show "cache_server_axioms S" using assms(1,3,4) by (rule cache_server_axioms.intro)
qed (rule assms(5))

definition durable_server :: "(fs, postgres, bytes) server" where
  "durable_server =
     \<lparr>sv_protocol = reference_protocol, sv_jwt = sample_jwt, sv_codec = sample_wire,
      sv_blake3 = pad_hasher, sv_sha256 = pad_hasher,
      sv_blobs = filesystem_blob_store reference_protocol sample_store,
      sv_metadata = postgres_store reference_codec, sv_max_blob_bytes = 1024, sv_pack_store_concurrency = 2\<rparr>"

interpretation durable: cache_server durable_server
    "fs_ok reference_protocol sample_store (content_matches durable_server)"
    "fs_held reference_protocol sample_store" "pg_ok reference_codec" pg_visible
    "pg_result reference_codec" "pg_manifest reference_codec"
proof (rule postgres_server)
  show "blob_storage (bs_get (sv_blobs durable_server)) (bs_put (sv_blobs durable_server))
      (fs_ok reference_protocol sample_store (content_matches durable_server)) (fs_held reference_protocol sample_store)
      (digest_ok (sv_protocol durable_server)) (content_matches durable_server)"
    using filesystem_contract [OF reference_protocol_ok] by (simp add: durable_server_def filesystem_blob_store_def)
qed (simp_all add: durable_server_def reference_protocol_ok reference_codec_ok pad_hasher_ok)

end
