(* ===== verification/Startup.thy ===== *)
theory Startup
  imports Postgres Object_Stores Server
begin

text \<open>
  How the process starts: the command line (\<open>src/config.rs\<close>), the choice of the stores
  (\<open>storage::from_config\<close>, \<open>metadata::from_url\<close> and the stores' constructors), \<open>AppState::new\<close>, and
  \<open>main\<close> (\<open>src/main.rs\<close>) up to the router. The clients of the clouds, \<open>sqlx\<close> and the file system are
  the operations of \<open>startup_library\<close>; the record \<open>config\<close> is what \<open>clap\<close> returns, and
  \<open>config_accepted\<close> what its attributes make \<open>clap\<close> refuse.
\<close>

section \<open>The command line\<close>

datatype storage_kind = AzureStorage | FilesystemStorage | GcsStorage | S3Storage

record config =
  cf_listen :: string
  cf_tls_cert :: "path option"
  cf_tls_key :: "path option"
  cf_storage :: storage_kind
  cf_data_dir :: path
  cf_database_url :: string
  cf_database_max_connections :: u32
  cf_database_acquire_timeout :: u64
  cf_sweep_metadata_older_than_days :: "u32 option"
  cf_azure_account :: "string option"
  cf_azure_container :: "string option"
  cf_azure_prefix :: string
  cf_azure_credential_type :: string
  cf_azure_endpoint :: "string option"
  cf_azure_allow_http :: bool
  cf_gcs_bucket :: "string option"
  cf_gcs_prefix :: string
  cf_s3_bucket :: "string option"
  cf_s3_prefix :: string
  cf_s3_endpoint :: "string option"
  cf_s3_region :: string
  cf_s3_path_style :: bool
  cf_tokens_json :: "string option"
  cf_oidc_providers_json :: "string option"
  cf_allow_anonymous :: bool
  cf_anonymous_read_namespaces_json :: "string option"
  cf_max_blob_bytes :: u64
  cf_pack_store_concurrency :: u32
  cf_max_spool_bytes :: u64

definition config_default :: config where
  "config_default =
     \<lparr>cf_listen = ''0.0.0.0:8080'', cf_tls_cert = None, cf_tls_key = None, cf_storage = FilesystemStorage,
      cf_data_dir = [''var'', ''lib'', ''mbx-cache''], cf_database_url = ''memory://'',
      cf_database_max_connections = 32, cf_database_acquire_timeout = 30,
      cf_sweep_metadata_older_than_days = None, cf_azure_account = None, cf_azure_container = None,
      cf_azure_prefix = ''v1'', cf_azure_credential_type = ''auto'', cf_azure_endpoint = None,
      cf_azure_allow_http = False, cf_gcs_bucket = None, cf_gcs_prefix = ''v1'', cf_s3_bucket = None,
      cf_s3_prefix = ''v1'', cf_s3_endpoint = None, cf_s3_region = ''us-east-1'', cf_s3_path_style = False,
      cf_tokens_json = None, cf_oidc_providers_json = None, cf_allow_anonymous = False,
      cf_anonymous_read_namespaces_json = None, cf_max_blob_bytes = 5 * 1024 * 1024 * 1024,
      cf_pack_store_concurrency = 8, cf_max_spool_bytes = 0\<rparr>"

text \<open>\<open>range(1..)\<close> and \<open>requires\<close>.\<close>

definition config_accepted :: "config \<Rightarrow> bool" where
  "config_accepted c \<longleftrightarrow>
     cf_database_max_connections c \<ge> 1 \<and> cf_database_acquire_timeout c \<ge> 1 \<and> cf_pack_store_concurrency c \<ge> 1
     \<and> (cf_tls_cert c \<noteq> None \<longrightarrow> cf_tls_key c \<noteq> None) \<and> (cf_tls_key c \<noteq> None \<longrightarrow> cf_tls_cert c \<noteq> None)"

section \<open>What the stores' constructors call\<close>

record azure_options =
  azo_account :: string
  azo_container :: string
  azo_credential_type :: string
  azo_allow_http :: bool
  azo_timeout :: "string option"
  azo_read_timeout :: "string option"
  azo_endpoint :: "string option"

record gcs_options =
  gco_bucket :: string
  gco_timeout :: "string option"
  gco_read_timeout :: "string option"

record s3_options =
  s3o_region :: string
  s3o_endpoint :: "string option"
  s3o_path_style :: bool

record 'e startup_library =
  su_env_set :: "string \<Rightarrow> bool"
  su_connect :: "string \<Rightarrow> u32 \<Rightarrow> u64 \<Rightarrow> ('e, anyhow, postgres) comp"
  su_migrate :: "postgres \<Rightarrow> ('e, anyhow, postgres) comp"
  su_create_dir_all :: "path \<Rightarrow> ('e, anyhow, unit) comp"
  su_build_azure :: "azure_options \<Rightarrow> ('e, anyhow, unit) comp"
  su_build_gcs :: "gcs_options \<Rightarrow> ('e, anyhow, unit) comp"
  su_load_s3 :: "s3_options \<Rightarrow> 'e \<Rightarrow> 'e"

section \<open>Metadata\<close>

definition pg_connect :: "'e startup_library \<Rightarrow> string \<Rightarrow> u32 \<Rightarrow> u64 \<Rightarrow> ('e, anyhow, postgres) comp" where
  "pg_connect L url max_connections acquire_timeout =
     (if \<not> max_connections > 0 then throwE (OtherError ''database max connections must be at least 1'')
      else
        bindE (su_connect L url max_connections acquire_timeout) (\<lambda>pool.
        su_migrate L pool))"

datatype opened_metadata = MemoryOpened memory_metadata | PostgresOpened postgres

definition from_url :: "'e startup_library \<Rightarrow> string \<Rightarrow> u32 \<Rightarrow> u64 \<Rightarrow> ('e, anyhow, opened_metadata) comp" where
  "from_url L url max_connections acquire_timeout =
     (if url = ''memory://'' then returnE (MemoryOpened memory_default)
      else bindE (pg_connect L url max_connections acquire_timeout) (\<lambda>p. returnE (PostgresOpened p)))"

definition sweep_opened :: "u32 \<Rightarrow> opened_metadata \<Rightarrow> (anyhow + sweep_outcome) \<times> opened_metadata" where
  "sweep_opened days opened =
     (case opened of
        MemoryOpened m \<Rightarrow> (case default_sweep days m of (r, m') \<Rightarrow> (r, MemoryOpened m'))
      | PostgresOpened p \<Rightarrow> (case pg_sweep days p of (r, p') \<Rightarrow> (r, PostgresOpened p')))"

section \<open>Blob stores\<close>

definition default_timeout :: "'e startup_library \<Rightarrow> string \<Rightarrow> string \<Rightarrow> string option" where
  "default_timeout L variable timeout = (if su_env_set L variable then None else Some timeout)"

definition azure_new :: "'e startup_library \<Rightarrow> config \<Rightarrow> ('e, anyhow, azure_store) comp" where
  "azure_new L c =
     bindE (liftE (ok_or (OtherError ''--azure-account is required with Azure storage'') (cf_azure_account c))) (\<lambda>account.
     bindE (liftE (ok_or (OtherError ''--azure-container is required with Azure storage'') (cf_azure_container c))) (\<lambda>container.
     bindE (su_build_azure L
       \<lparr>azo_account = account, azo_container = container, azo_credential_type = cf_azure_credential_type c,
        azo_allow_http = cf_azure_allow_http c, azo_timeout = default_timeout L ''AZURE_TIMEOUT'' ''1h'',
        azo_read_timeout = default_timeout L ''AZURE_READ_TIMEOUT'' ''30s'',
        azo_endpoint = (case cf_azure_endpoint c of None \<Rightarrow> None | Some e \<Rightarrow> if e \<noteq> [] then Some e else None)\<rparr>) (\<lambda>_.
     returnE (azure_from_store (cf_azure_prefix c)))))"

definition gcs_new :: "'e startup_library \<Rightarrow> config \<Rightarrow> ('e, anyhow, gcs_store) comp" where
  "gcs_new L c =
     bindE (liftE (ok_or (OtherError ''--gcs-bucket is required with GCS storage'') (cf_gcs_bucket c))) (\<lambda>bucket.
     bindE (su_build_gcs L
       \<lparr>gco_bucket = bucket, gco_timeout = default_timeout L ''GOOGLE_TIMEOUT'' ''1h'',
        gco_read_timeout = default_timeout L ''GOOGLE_READ_TIMEOUT'' ''30s''\<rparr>) (\<lambda>_.
     returnE (gcs_from_store (cf_gcs_prefix c))))"

definition s3_new :: "'e startup_library \<Rightarrow> config \<Rightarrow> ('e, anyhow, s3_store) comp" where
  "s3_new L c =
     bindE (liftE (map_err OtherError (s3_store_new (cf_s3_bucket c) (cf_s3_prefix c)))) (\<lambda>st.
     bindE (modifyE (su_load_s3 L
       \<lparr>s3o_region = cf_s3_region c, s3o_endpoint = cf_s3_endpoint c, s3o_path_style = cf_s3_path_style c\<rparr>)) (\<lambda>_.
     returnE st))"

definition filesystem_new :: "'e startup_library \<Rightarrow> path \<Rightarrow> ('e, anyhow, filesystem_store) comp" where
  "filesystem_new L root =
     bindE (su_create_dir_all L (root @ [''blobs''])) (\<lambda>_. returnE \<lparr>fss_root = root\<rparr>)"

datatype opened_blobs =
    AzureBlobs azure_store
  | FilesystemBlobs filesystem_store
  | GcsBlobs gcs_store
  | S3Blobs s3_store

definition from_config :: "'e startup_library \<Rightarrow> config \<Rightarrow> ('e, anyhow, opened_blobs) comp" where
  "from_config L c =
     (case cf_storage c of
        AzureStorage \<Rightarrow> bindE (azure_new L c) (\<lambda>st. returnE (AzureBlobs st))
      | FilesystemStorage \<Rightarrow> bindE (filesystem_new L (cf_data_dir c)) (\<lambda>st. returnE (FilesystemBlobs st))
      | GcsStorage \<Rightarrow> bindE (gcs_new L c) (\<lambda>st. returnE (GcsBlobs st))
      | S3Storage \<Rightarrow> bindE (s3_new L c) (\<lambda>st. returnE (S3Blobs st)))"

section \<open>The state of the server\<close>

record app_state =
  as_blobs :: opened_blobs
  as_metadata :: opened_metadata
  as_auth :: authorizer
  as_max_blob_bytes :: u64
  as_pack_store_concurrency :: nat
  as_spool :: spool
  as_metrics :: metrics
  as_access :: pending

definition app_state_new :: "string \<Rightarrow> string option \<Rightarrow> opened_blobs \<Rightarrow> opened_metadata \<Rightarrow> authorizer \<Rightarrow> u64 \<Rightarrow> nat \<Rightarrow> u64
    \<Rightarrow> app_state" where
  "app_state_new version revision blobs metadata auth max_blob_bytes pack_store_concurrency max_spool_bytes =
     \<lparr>as_blobs = blobs, as_metadata = metadata, as_auth = auth, as_max_blob_bytes = max_blob_bytes,
      as_pack_store_concurrency = pack_store_concurrency, as_spool = spool_new max_spool_bytes,
      as_metrics = metrics_new version revision, as_access = pending_default\<rparr>"

section \<open>main\<close>

text \<open>
  The process either swept and exits, or holds the state it serves requests with. The environment is
  the one of \<open>startup_library\<close> and the network of the authorizer.
\<close>

datatype startup = Swept sweep_outcome opened_metadata | Serving app_state

record authorizer_json =
  aj_grants :: "string \<Rightarrow> string + token_grant list"
  aj_providers :: "string \<Rightarrow> string + oidc_provider_config list"
  aj_patterns :: "string \<Rightarrow> string + string list"

definition on_library :: "('e, anyhow, 'a) comp \<Rightarrow> ('e \<times> net, anyhow, 'a) comp" where
  "on_library = focus fst (\<lambda>e (_, n). (e, n))"

definition new_authorizer :: "jwt_library \<Rightarrow> authorizer_json \<Rightarrow> config \<Rightarrow> ('e \<times> net, anyhow, authorizer) comp" where
  "new_authorizer J A c =
     handleE (focus snd (\<lambda>n (e, _). (e, n)) (authorizer_new J (aj_grants A) (aj_providers A) (aj_patterns A)
         (cf_tokens_json c) (cf_oidc_providers_json c) (cf_allow_anonymous c) (cf_anonymous_read_namespaces_json c)))
       (\<lambda>e. throwE (OtherError e)) returnE"

definition main_start :: "'e startup_library \<Rightarrow> jwt_library \<Rightarrow> authorizer_json \<Rightarrow> string \<Rightarrow> string option \<Rightarrow> config
    \<Rightarrow> ('e \<times> net, anyhow, startup) comp" where
  "main_start L J A version revision c =
     bindE (on_library (from_url L (cf_database_url c) (cf_database_max_connections c) (cf_database_acquire_timeout c)))
       (\<lambda>metadata.
     case cf_sweep_metadata_older_than_days c of
       Some days \<Rightarrow>
         (case sweep_opened days metadata of (r, swept) \<Rightarrow> bindE (liftE r) (\<lambda>out. returnE (Swept out swept)))
     | None \<Rightarrow>
         if \<not> (cf_max_spool_bytes c = 0 \<or> cf_max_spool_bytes c \<ge> cf_max_blob_bytes c)
         then throwE (OtherError ''--max-spool-bytes must be 0 or at least --max-blob-bytes, or the largest uploads can never be spooled'')
         else
           bindE (on_library (from_config L c)) (\<lambda>blobs.
           bindE (new_authorizer J A c) (\<lambda>auth.
           returnE (Serving (app_state_new version revision blobs metadata auth (cf_max_blob_bytes c)
             (unat (cf_pack_store_concurrency c)) (cf_max_spool_bytes c))))))"

section \<open>What a started server has\<close>

lemma on_library_run:
  assumes "on_library m s = (r, t)"
  obtains e' where "m (fst s) = (r, e')" and "t = (e', snd s)"
  using assms by (cases "m (fst s)"; cases s) (auto simp: on_library_def focus_def)

text \<open>The store that was opened is the one asked for, with what it requires.\<close>

definition blobs_configured :: "config \<Rightarrow> opened_blobs \<Rightarrow> bool" where
  "blobs_configured c blobs \<longleftrightarrow>
     (case blobs of
        AzureBlobs st \<Rightarrow> cf_storage c = AzureStorage \<and> cf_azure_account c \<noteq> None \<and> cf_azure_container c \<noteq> None
          \<and> st = azure_from_store (cf_azure_prefix c)
      | FilesystemBlobs st \<Rightarrow> cf_storage c = FilesystemStorage \<and> fss_root st = cf_data_dir c
      | GcsBlobs st \<Rightarrow> cf_storage c = GcsStorage \<and> cf_gcs_bucket c \<noteq> None \<and> st = gcs_from_store (cf_gcs_prefix c)
      | S3Blobs st \<Rightarrow> cf_storage c = S3Storage \<and> cf_s3_bucket c = Some (s3_bucket st))"

lemma from_config_run:
  assumes "from_config L c e = (Inr blobs, e')"
  shows "blobs_configured c blobs"
proof (cases "cf_storage c")
  case AzureStorage
  with assms show ?thesis
    by (auto simp: from_config_def azure_new_def blobs_configured_def result_simps)
next
  case FilesystemStorage
  with assms show ?thesis
    by (auto simp: from_config_def filesystem_new_def blobs_configured_def result_simps)
next
  case GcsStorage
  with assms show ?thesis
    by (auto simp: from_config_def gcs_new_def blobs_configured_def result_simps)
next
  case S3Storage
  with assms show ?thesis
    by (auto simp: from_config_def s3_new_def s3_store_new_def blobs_configured_def result_simps)
qed

lemma new_authorizer_run:
  assumes "new_authorizer J A c s = (Inr auth, t)"
  shows "authorizer_ok auth"
proof -
  let ?m = "authorizer_new J (aj_grants A) (aj_providers A) (aj_patterns A) (cf_tokens_json c)
    (cf_oidc_providers_json c) (cf_allow_anonymous c) (cf_anonymous_read_namespaces_json c)"
  obtain r n where m: "?m (snd s) = (r, n)" by fastforce
  with assms have "r = Inr auth" by (cases r) (auto simp: new_authorizer_def focus_def handleE_def)
  with m show ?thesis by (blast intro: authorizer_new_ok)
qed


definition sample_library :: "unit startup_library" where
  "sample_library =
     \<lparr>su_env_set = (\<lambda>_. False), su_connect = (\<lambda>_ _ _. throwE PoolTimedOut), su_migrate = returnE,
      su_create_dir_all = (\<lambda>_. returnE ()), su_build_azure = (\<lambda>_. returnE ()), su_build_gcs = (\<lambda>_. returnE ()),
      su_load_s3 = (\<lambda>_. id)\<rparr>"

definition sample_parsers :: authorizer_json where
  "sample_parsers = \<lparr>aj_grants = (\<lambda>_. Inr []), aj_providers = (\<lambda>_. Inr []), aj_patterns = (\<lambda>_. Inr [])\<rparr>"

definition sample_config :: config where
  "sample_config = config_default\<lparr>cf_max_spool_bytes := 8 * 1024 * 1024 * 1024\<rparr>"

lemma sample_config_accepted: "config_accepted sample_config"
  by (simp add: config_accepted_def sample_config_def config_default_def word_le_nat_alt)

lemma sample_main:
  "\<exists>st t. main_start sample_library sample_jwt sample_parsers ''1'' None sample_config ((), sample_net) = (Inr (Serving st), t)
    \<and> as_max_blob_bytes st = 5 * 1024 * 1024 * 1024"
  by (simp add: main_start_def from_url_def on_library_def focus_def sample_config_def config_default_def
      from_config_def filesystem_new_def sample_library_def new_authorizer_def authorizer_new_def parse_json_array_def
      sample_parsers_def handleE_def bindE_def app_state_new_def word_le_nat_alt)


end
