(* ===== verification/Blob_Spec.thy ===== *)
theory Blob_Spec
  imports Sample_Server
begin

text \<open>
  The properties of the requests on single blobs, each for any server that keeps \<open>cache_server\<close>, with
  a run of \<open>sample_server\<close> as witness.
\<close>

definition digest_of_parts :: "string \<times> string \<times> u64 \<Rightarrow> digest" where
  "digest_of_parts parts = (case parts of (a, h, n) \<Rightarrow> \<lparr>d_algorithm = a, d_hash = h, d_size = n\<rparr>)"

section \<open>The sample upload\<close>

definition sample_parts :: "string \<times> string \<times> u64" where
  "sample_parts = (''blake3'', sample_hash, 2)"

lemma sample_parts_digest: "digest_of_parts sample_parts = sample_blake"
  by (simp add: digest_of_parts_def sample_parts_def sample_blake_def)

definition sample_body :: "(string + bytes) list" where
  "sample_body = [Inr [170], Inr [170]]"

definition uploaded_fs :: fs where
  "uploaded_fs = quiet\<lparr>fs_files := [[''blobs'', ''blake3'', take 2 sample_hash, sample_hash, ''2''] \<mapsto>
      \<lparr>fi_content = [170, 170], fi_synced = True\<rparr>]\<rparr>"

definition uploaded_world :: "(fs, memory_metadata) world" where
  "uploaded_world = sample_world\<lparr>w_blobs := uploaded_fs,
     w_metadata := memory_default\<lparr>mm_blobs := {(''team/app'', sample_blake)}\<rparr>,
     w_metrics := inc_blob_upload (w_metrics sample_world)\<rparr>"

lemma sample_put: "fs_put reference_protocol sample_store sample_blake [170, 170] quiet = (Inr Created, uploaded_fs)"
  by (simp add: fs_put_def sample_blob_path [folded sample_store_def] io_def quiet_def uploaded_fs_def
      fs_stage_def fs_publish_def bindE_def)

lemma sample_publish:
  "publish sample_server ''team/app'' sample_blake [170, 170] sample_world = (Inr Created, uploaded_world)"
  by (simp add: publish_def internalE_def on_blobs_def on_metadata_def focus_def filesystem_blob_store_def
      sample_put bindE_def sample_world_def memory_store_def mem_register_blob_def on_metrics_def
      uploaded_world_def memory_default_def)

lemma sample_kind: "algorithm_kind reference_protocol sample_blake = Inr Blake3"
  by (simp add: reference_protocol_def sample_blake_def ref_algorithm_kind_def)

lemma sample_size_2: "d_size sample_blake = 2"
  by (simp add: sample_blake_def)

lemma temp_io_calm: "w_temp w = [] \<Longrightarrow> temp_io w = (Inr (), w)"
  by (simp add: temp_io_def)

definition sample_intake :: "bytes intake" where
  "sample_intake = \<lparr>in_size = 2, in_blake3 = [170, 170], in_sha256 = [], in_content = [170, 170]\<rparr>"

lemma sample_receive:
  "w_temp w = [] \<Longrightarrow>
    receive_body sample_server sample_blake sample_body (new_intake sample_server) w = (Inr sample_intake, w)"
  by (simp add: sample_body_def new_intake_def checked_add_def update_hash_def sample_kind pad_hasher_def
      write_chunk_def temp_io_calm sample_size_2 sample_intake_def)

lemma sample_actual: "actual_hash sample_server sample_blake sample_intake = Inr (d_hash sample_blake)"
proof -
  have "hex_encode reference_protocol (hash_content pad_hasher [170, 170]) = d_hash sample_blake"
    using sample_matches by (auto simp: content_matches_def sample_kind hasher_of_def)
  then show ?thesis
    by (simp add: actual_hash_def sample_kind sample_intake_def hash_content_def) (simp add: pad_hasher_def)
qed

lemma sample_store_upload:
  "spool_and_store sample_server ''team/app'' sample_blake sample_body sample_world = (Inr 201, uploaded_world)"
proof -
  have temp: "w_temp sample_world = []" by (simp add: sample_world_def)
  have "in_size sample_intake = 2" "in_content sample_intake = [170, 170]" by (simp_all add: sample_intake_def)
  then show ?thesis
    by (simp add: spool_and_store_def temp_io_calm [OF temp] sample_receive [OF temp] sample_actual
        sample_publish sample_size_2)
qed

lemma sample_put_blob:
  "put_blob sample_server put_headers sample_parts sample_body sample_world = (Inr 201, uploaded_world)"
proof -
  have parse: "parse_digest reference_protocol sample_parts = Inr sample_blake"
    using sample_blake_ok by (simp add: sample_parts_def sample_blake_def parse_digest_ok)
  have pre: "require_immutable_precondition (jl_to_str sample_jwt) put_headers = Inr ()"
    by (simp add: require_immutable_precondition_def header_str_def put_headers_def sample_jwt_def)
  have res: "reserve 2 (Some 10) = (Inr (Some 1), Some 9)" by (simp add: reserve_def div_ceil_def)
  have spool: "on_spool (reserve 2) sample_world = (Inr (Some 1), sample_world\<lparr>w_spool := Some 9\<rparr>)"
    by (simp add: on_spool_def focus_def sample_world_def res)
  have "spool_and_store sample_server ''team/app'' sample_blake sample_body (sample_world\<lparr>w_spool := Some 9\<rparr>)
      = (Inr 201, uploaded_world\<lparr>w_spool := Some 9\<rparr>)"
  proof -
    have temp: "w_temp (sample_world\<lparr>w_spool := Some 9\<rparr>) = []" by (simp add: sample_world_def)
    have "publish sample_server ''team/app'' sample_blake [170, 170] (sample_world\<lparr>w_spool := Some 9\<rparr>)
        = (Inr Created, uploaded_world\<lparr>w_spool := Some 9\<rparr>)"
      by (simp add: publish_def internalE_def on_blobs_def on_metadata_def focus_def filesystem_blob_store_def
          sample_put bindE_def sample_world_def memory_store_def mem_register_blob_def on_metrics_def
          uploaded_world_def memory_default_def)
    moreover have "in_size sample_intake = 2" "in_content sample_intake = [170, 170]" by (simp_all add: sample_intake_def)
    ultimately show ?thesis
      by (simp add: spool_and_store_def temp_io_calm [OF temp] sample_receive [OF temp] sample_actual sample_size_2)
  qed
  then have "with_permit (Some 1) (spool_and_store sample_server ''team/app'' sample_blake sample_body)
      (sample_world\<lparr>w_spool := Some 9\<rparr>) = (Inr 201, uploaded_world)"
    by (simp add: with_permit_def release_def uploaded_world_def sample_world_def)
  then show ?thesis
    by (simp add: put_blob_def sample_authorized_run pre parse sample_size_2 spool)
qed

section \<open>Properties of single uploads and downloads\<close>

lemma upload_verified_lemma:
  assumes "cache_server S bok held mok visible result manifest" and "bok (w_blobs w)" and "mok (w_metadata w)"
    and "chunks_fit body" and "put_blob S headers parts body w = (Inr status, v)"
  shows "\<exists>ns. access_allowed (sv_jwt S) (fst (w_auth w)) headers Write ns
    \<and> completes body \<and> content_matches S (digest_of_parts parts) (delivered body)
    \<and> visible (w_metadata v) ns (digest_of_parts parts)
    \<and> (\<exists>c. held (w_blobs v) (digest_of_parts parts) = Some c \<and> content_matches S (digest_of_parts parts) c)
    \<and> (status = 201 \<and> held (w_blobs w) (digest_of_parts parts) = None
        \<and> held (w_blobs v) (digest_of_parts parts) = Some (delivered body) \<or> status = 204)"
proof -
  obtain a h n where parts: "parts = (a, h, n)" by (cases parts) auto
  have ok: "cache_server.world_ok bok mok w"
    using assms(2,3) by (simp add: cache_server.world_ok_def [OF assms(1)])
  from cache_server.put_blob_run [OF assms(1) ok assms(4) assms(5) [unfolded parts]]
  show ?thesis by (simp add: digest_of_parts_def parts) blast
qed



text \<open>
  C30. A refused upload leaves no trace: whatever else is wrong with the request, when the body breaks off
  or is not the content of the digest, the upload is refused, no store is asked to change anything, and
  the spool has all its room back. Room is given back by every upload, acknowledged or not.
\<close>

lemma put_blob_spool: "w_spool (snd (put_blob S headers parts body w)) = w_spool w"
proof -
  have permit: "w_spool (snd (bindE (on_spool (reserve n)) (\<lambda>k. with_permit k (spool_and_store S ns d body)) u)) = w_spool u"
    for n ns d u
  proof -
    obtain r t where r: "reserve n (w_spool u) = (r, t)" by fastforce
    show ?thesis
    proof (cases r)
      case (Inl e)
      with r reserve_refused [of n "w_spool u" e t] show ?thesis
        by (simp add: bindE_def on_spool_def focus_def)
    next
      case (Inr k)
      let ?u = "u\<lparr>w_spool := t\<rparr>"
      have "w_spool (snd (spool_and_store S ns d body ?u)) = t"
        using spool_and_store_spool [of S ns d body] by (simp add: moves_def)
      with r Inr reserve_release [of n "w_spool u" k t] show ?thesis
        by (simp add: bindE_def on_spool_def focus_def with_permit_def split_beta)
    qed
  qed
  have "moves (\<lambda>w v. w_spool v = w_spool w) (put_blob S headers parts body)"
    unfolding put_blob_def authorized_def
    by (rule moves_bind [OF keeps_preorder moves_spool_prims(5)], rule moves_bind [OF keeps_preorder moves_lift [OF keeps_preorder]],
        rule moves_bind [OF keeps_preorder moves_lift [OF keeps_preorder]], rule moves_if,
        rule moves_throw [OF keeps_preorder]) (simp add: moves_def permit)
  then show ?thesis by (simp add: moves_def)
qed

theorem upload_refused_without_trace:
  assumes "cache_server S bok held mok visible result manifest" and "chunks_fit body"
    and "\<not> (completes body \<and> content_matches S (digest_of_parts parts) (delivered body))"
    and "bok (w_blobs w)" and "mok (w_metadata w)" and "put_blob S headers parts body w = (r, v)"
  shows "(\<exists>e. r = Inl e) \<and> w_blobs v = w_blobs w \<and> w_metadata v = w_metadata w \<and> w_spool v = w_spool w"
proof -
  obtain a h n where parts: "parts = (a, h, n)" by (cases parts) auto
  have "moves untouched (if sv_max_blob_bytes S < d_size d then throwE e
      else bindE (on_spool (reserve (d_size d))) (\<lambda>k. with_permit k (spool_and_store S ns d body)))"
    if "parse_digest (sv_protocol S) parts = Inr d" for ns d e
  proof -
    from that have d: "digest_ok (sv_protocol S) d" "d = digest_of_parts parts"
      by (auto simp: parts parse_digest_ok digest_of_parts_def)
    have "moves untouched (spool_and_store S ns d body)"
      by (rule cache_server.spool_and_store_refused [OF assms(1) d(1) assms(2)]) (use assms(3) d(2) in simp)
    then show ?thesis
      by (intro moves_if moves_throw moves_bind untouched_preorder untouched_prims with_permit_untouched)
  qed
  then have "moves untouched (put_blob S headers parts body)"
    unfolding put_blob_def
    by (intro moves_bind [OF untouched_preorder untouched_prims(6)] moves_bind [OF untouched_preorder moves_lift [OF untouched_preorder]]
        moves_bind_result [OF untouched_preorder moves_lift [OF untouched_preorder]]) simp
  from moves_step [OF this assms(6)] have same: "w_blobs v = w_blobs w" "w_metadata v = w_metadata w"
    by (simp_all add: untouched_def)
  have "\<exists>e. r = Inl e"
  proof (cases r)
    case (Inr status)
    with upload_verified_lemma [OF assms(1,4,5,2)] assms(6,3) show ?thesis by blast
  qed simp
  moreover have "w_spool v = w_spool w" using put_blob_spool [of S headers parts body w] assms(6) by simp
  ultimately show ?thesis using same by blast
qed

definition wrong_body :: "(string + bytes) list" where
  "wrong_body = [Inr [170], Inl ''connection reset'']"

theorem upload_refused_without_trace_witness:
  "\<exists>e. fst (put_blob sample_server put_headers sample_parts wrong_body sample_world) = Inl e"
proof -
  obtain r v where run: "put_blob sample_server put_headers sample_parts wrong_body sample_world = (r, v)" by fastforce
  have "\<not> (completes wrong_body \<and> content_matches sample_server (digest_of_parts sample_parts) (delivered wrong_body))"
    "chunks_fit wrong_body" by (simp_all add: wrong_body_def chunks_fit_def)
  from upload_refused_without_trace [OF sample_contract this(2,1) sample_world_ok run] run show ?thesis by simp
qed

text \<open>
  C31. A download is authentic: a blob is only served to a client allowed to read the namespace that lists
  it, with the digest's size as \<open>Content-Length\<close> and its hash as entity tag, and if the body arrives
  completely it is the content of the digest.
\<close>

theorem download_authentic:
  assumes "cache_server S bok held mok visible result manifest" and "bok (w_blobs w)" and "mok (w_metadata w)"
    and "get_blob S headers parts w = (Inr rep, v)"
  shows "\<exists>ns. access_allowed (sv_jwt S) (fst (w_auth w)) headers Read ns
    \<and> visible (w_metadata w) ns (digest_of_parts parts)
    \<and> (completes (rp_body rep) \<longrightarrow> content_matches S (digest_of_parts parts) (delivered (rp_body rep)))
    \<and> map_of (rp_headers rep) ''content-length'' = Some (nat_to_string (unat (d_size (digest_of_parts parts))))
    \<and> map_of (rp_headers rep) ''etag'' = Some (quoted_etag (d_hash (digest_of_parts parts)))"
proof -
  obtain a h n where parts: "parts = (a, h, n)" by (cases parts) auto
  have ok: "cache_server.world_ok bok mok w"
    using assms(2,3) by (simp add: cache_server.world_ok_def [OF assms(1)])
  from cache_server.get_blob_run [OF assms(1) ok assms(4) [unfolded parts]]
  obtain ns where "access_allowed (sv_jwt S) (fst (w_auth w)) headers Read ns"
    "visible (w_metadata w) ns \<lparr>d_algorithm = a, d_hash = h, d_size = n\<rparr>"
    "completes (rp_body rep) \<longrightarrow> content_matches S \<lparr>d_algorithm = a, d_hash = h, d_size = n\<rparr> (delivered (rp_body rep))"
    "rp_headers rep = [(''content-length'', nat_to_string (unat n)), (''content-type'', ''application/octet-stream''),
      (''etag'', quoted_etag h), (''digest'', a @ ''='' @ h)]" by metis
  then show ?thesis by (intro exI [of _ ns]) (simp add: digest_of_parts_def parts)
qed

lemma sample_get_blob:
  "\<exists>v. get_blob sample_server put_headers sample_parts uploaded_world =
    (Inr \<lparr>rp_status = 200, rp_headers = [(''content-length'', ''2''), (''content-type'', ''application/octet-stream''),
       (''etag'', quoted_etag sample_hash), (''digest'', ''blake3='' @ sample_hash)],
       rp_body = map Inr (chunks_of 4096 [170, 170])\<rparr>, v)"
proof -
  have auth: "authorized sample_server put_headers Read uploaded_world = (Inr ''team/app'', uploaded_world)"
    by (rule sample_authorized) (simp add: uploaded_world_def sample_world_def)
  have parse: "parse_digest reference_protocol sample_parts = Inr sample_blake"
    using sample_blake_ok by (simp add: sample_parts_def sample_blake_def parse_digest_ok)
  have vis: "visible_in sample_server ''team/app'' sample_blake uploaded_world = (Inr True, uploaded_world)"
    by (simp add: visible_in_def internalE_def on_metadata_def focus_def blob_visible_def bindE_def
        memory_store_def mem_visible_blobs_def uploaded_world_def)
  let ?w = "uploaded_world\<lparr>w_pending := record_access ''team/app'' [sample_blake] (w_pending uploaded_world)\<rparr>"
  have get: "get_stored sample_server sample_blake ?w
      = (Inr (Some \<lparr>bl_size = 2, bl_stream = map Inr (chunks_of 4096 [170, 170])\<rparr>), ?w)"
    by (simp add: get_stored_def internalE_def on_blobs_def focus_def filesystem_blob_store_def fs_get_def
        sample_blob_path [folded sample_store_def] io_def quiet_def uploaded_fs_def fs_stream_def bindE_def uploaded_world_def)
  show ?thesis
    by (simp add: get_blob_def auth parse vis on_pending_def get on_metrics_def sample_size)
      (simp add: sample_blake_def)
qed

lemma uploaded_world_ok: "sample_blobs_ok (w_blobs uploaded_world)" "memory_ok reference_codec (w_metadata uploaded_world)"
  using sample.publish_run(1) [OF _ _ _ sample_publish] sample_world_ok sample_blake_ok sample_matches
  by (simp_all add: sample.world_ok_def)

theorem download_authentic_witness:
  "\<exists>rep v. get_blob sample_server put_headers sample_parts uploaded_world = (Inr rep, v)
    \<and> map_of (rp_headers rep) ''content-length'' = Some ''2''"
proof -
  obtain rep v where run: "get_blob sample_server put_headers sample_parts uploaded_world = (Inr rep, v)"
    using sample_get_blob by blast
  from download_authentic [OF sample_contract uploaded_world_ok run] run show ?thesis
    by (auto simp: sample_parts_digest sample_size_2 sample_size)
qed

text \<open>
  C32. What was uploaded is there: right after an acknowledged upload, a download of the digest in the same
  namespace is either served or fails for a reason that is not the blob's (the client may not read, a
  store fails); it is never answered 404.
\<close>

theorem upload_then_download:
  assumes "cache_server S bok held mok visible result manifest" and "bok (w_blobs w)" and "mok (w_metadata w)"
    and "chunks_fit body" and "put_blob S headers parts body w = (Inr status, v)"
    and "namespace_header S headers' = namespace_header S headers"
  shows "case fst (get_blob S headers' parts v) of
      Inr rep \<Rightarrow> completes (rp_body rep) \<longrightarrow> content_matches S (digest_of_parts parts) (delivered (rp_body rep))
    | Inl e \<Rightarrow> ae_status e \<in> {400, 401, 403, 426, 500, 503}"
proof -
  obtain a h n where parts: "parts = (a, h, n)" by (cases parts) auto
  have ok: "cache_server.world_ok bok mok w"
    using assms(2,3) by (simp add: cache_server.world_ok_def [OF assms(1)])
  let ?d = "\<lparr>d_algorithm = a, d_hash = h, d_size = n\<rparr>"
  have "\<exists>ns. namespace_header S headers = Some ns \<and> cache_server.world_ok bok mok v
      \<and> digest_ok (sv_protocol S) ?d \<and> visible (w_metadata v) ns ?d \<and> held (w_blobs v) ?d \<noteq> None"
    by (rule cache_server.put_blob_run [OF assms(1) ok assms(4) assms(5) [unfolded parts]]) auto
  then obtain ns where ns: "namespace_header S headers = Some ns" and v: "cache_server.world_ok bok mok v"
    and d: "digest_ok (sv_protocol S) ?d" "visible (w_metadata v) ns ?d" "held (w_blobs v) ?d \<noteq> None" by blast
  obtain r u where g: "get_blob S headers' (a, h, n) v = (r, u)" by fastforce
  show ?thesis
  proof (cases r)
    case (Inl e)
    with cache_server.get_blob_found [OF assms(1) v _ d g [unfolded Inl]] assms(6) ns g show ?thesis
      by (simp add: parts)
  next
    case (Inr rep)
    from cache_server.get_blob_run [OF assms(1) v g [unfolded Inr]] have "completes (rp_body rep) \<longrightarrow>
        content_matches S ?d (delivered (rp_body rep))" by metis
    with Inr g show ?thesis by (simp add: parts digest_of_parts_def)
  qed
qed

theorem upload_then_download_witness:
  "\<exists>rep. fst (get_blob sample_server put_headers sample_parts uploaded_world) = Inr rep
    \<and> content_matches sample_server sample_blake (delivered (rp_body rep))"
proof -
  have "chunks_fit sample_body" by (simp add: chunks_fit_def sample_body_def)
  from upload_then_download [OF sample_contract sample_world_ok this sample_put_blob refl] sample_get_blob
  show ?thesis by (auto simp: sample_parts_digest delivered_all)
qed

text \<open>
  C33. The missing-blobs query is exact: of the digests asked about, with their repetitions and in their
  order, it returns those the namespace does not list, and it changes neither store.
\<close>

theorem missing_blobs_exact:
  assumes "cache_server S bok held mok visible result manifest" and "bok (w_blobs w)" and "mok (w_metadata w)"
    and "missing_blobs S headers ds w = (Inr missing, v)"
  shows "\<exists>ns. access_allowed (sv_jwt S) (fst (w_auth w)) headers Read ns
    \<and> missing = filter (\<lambda>d. \<not> visible (w_metadata w) ns d) ds \<and> length ds \<le> max_batch_items (sv_protocol S)
    \<and> w_blobs v = w_blobs w \<and> visible (w_metadata v) = visible (w_metadata w)"
proof -
  have ok: "cache_server.world_ok bok mok w"
    using assms(2,3) by (simp add: cache_server.world_ok_def [OF assms(1)])
  from cache_server.missing_blobs_run [OF assms(1) ok assms(4)] show ?thesis by blast
qed

theorem missing_blobs_exact_witness:
  "fst (missing_blobs sample_server put_headers [sample_blake] sample_world) = Inr [sample_blake]"
proof -
  have valid: "validate_all reference_protocol [sample_blake] = Inr ()"
    using sample_blake_ok by (simp add: validate_all_def validate_digest_def)
  have "\<exists>v. missing_blobs sample_server put_headers [sample_blake] sample_world = (Inr [sample_blake], v)"
  proof -
    have "internalE (on_metadata (ms_visible_blobs (memory_store reference_codec) ''team/app'' [sample_blake])) sample_world
        = (Inr [], sample_world)"
      by (simp add: internalE_def on_metadata_def focus_def memory_store_def mem_visible_blobs_def
          sample_world_def memory_default_def)
    moreover have "max_batch_items reference_protocol = 10000" by (simp add: reference_protocol_def)
    ultimately show ?thesis by (simp add: missing_blobs_def sample_authorized_run valid)
  qed
  then obtain v where run: "missing_blobs sample_server put_headers [sample_blake] sample_world = (Inr [sample_blake], v)" by blast
  from missing_blobs_exact [OF sample_contract sample_world_ok run] run show ?thesis by simp
qed

end
