(* ===== verification/Pack_Download.thy ===== *)
theory Pack_Download
  imports Server Pack_Spec
begin

text \<open>
  \<open>src/server.rs\<close>: \<open>POST /v1/blobs:pack\<close>. The handler validates and deduplicates the requested digests,
  asks the metadata once which of them the namespace lists, and answers with a stream that is run
  later, as the client reads it: \<open>pack_blobs\<close> is the handler, \<open>run_pack_stream\<close> the life of its stream
  until the response is dropped, \<open>polls\<close> how many chunks the client asks for before it goes away
  (\<open>None\<close>: all of them). \<open>buffered\<close> keeps up to sixteen storage reads ahead of the stream; here the
  reads of a window run in their order when the window is filled.
\<close>

section \<open>The request\<close>

definition max_pack_storage_reads :: nat where "max_pack_storage_reads = 16"

fun scan_requested :: "protocol \<Rightarrow> u64 \<Rightarrow> digest list \<Rightarrow> digest list \<Rightarrow> u64 \<Rightarrow> api_error + (digest list \<times> u64)" where
  "scan_requested P limit [] requested total_bytes = Inr (requested, total_bytes)"
| "scan_requested P limit (d # ds) requested total_bytes =
     bind_r (validate_digest P d) (\<lambda>_.
     if d \<in> set requested then scan_requested P limit ds requested total_bytes
     else
       bind_r (ok_or (too_large ''blob pack is too large'') (checked_add total_bytes (d_size d))) (\<lambda>total_bytes.
       if total_bytes > limit then Inl (too_large ''blob pack exceeds the configured size limit'')
       else scan_requested P limit ds (requested @ [d]) total_bytes))"

definition pack_blob_header :: "protocol \<Rightarrow> digest \<Rightarrow> api_error + bytes" where
  "pack_blob_header P d =
     bind_r (map_err bad_request (hex_decode P (d_hash d))) (\<lambda>hash.
     if length hash \<noteq> 32 then Inl (bad_request ''invalid digest hash length'')
     else
       bind_r (map_err bad_request (algorithm_kind P d)) (\<lambda>a.
       Inr ([case a of Blake3 \<Rightarrow> 1 | Sha256 \<Rightarrow> 2] @ hash @ to_be_bytes (d_size d))))"

record pack_plan =
  pp_entries :: "(bytes \<times> digest) list"
  pp_bytes :: u64
  pp_payload_bytes :: u64

definition plan_entry :: "protocol \<Rightarrow> digest \<Rightarrow> pack_plan \<Rightarrow> api_error + pack_plan" where
  "plan_entry P d p =
     bind_r (pack_blob_header P d) (\<lambda>header.
     bind_r (ok_or (too_large ''blob pack is too large'') (checked_add (pp_payload_bytes p) (d_size d))) (\<lambda>payload.
     bind_r (ok_or (too_large ''blob pack is too large'')
         (case checked_add (pp_bytes p) (of_nat (blob_pack_header_bytes P)) of
            None \<Rightarrow> None | Some n \<Rightarrow> checked_add n (d_size d))) (\<lambda>total_bytes.
     Inr (p\<lparr>pp_entries := pp_entries p @ [(header, d)], pp_bytes := total_bytes, pp_payload_bytes := payload\<rparr>))))"

definition plan_pack :: "protocol \<Rightarrow> digest list \<Rightarrow> api_error + pack_plan" where
  "plan_pack P ds = fold_r (plan_entry P) ds
     \<lparr>pp_entries = [], pp_bytes = of_nat (length (blob_pack_magic P)), pp_payload_bytes = 0\<rparr>"

definition visible_for_pack :: "('b, 'm, 'h) server \<Rightarrow> string \<Rightarrow> digest list \<Rightarrow> ('b, 'm, digest list) handler" where
  "visible_for_pack S namespace requested =
     bindE instant_now (\<lambda>started.
     handleE (on_metadata (ms_visible_blobs (sv_metadata S) namespace requested))
       (\<lambda>e. bindE instant_now (\<lambda>now.
          bindE (on_metrics (observe_pack_metadata_query ''error'' (now - started))) (\<lambda>_.
          throwE (internal e))))
       (\<lambda>visible. bindE instant_now (\<lambda>now.
          bindE (on_metrics (observe_pack_metadata_query ''success'' (now - started))) (\<lambda>_.
          returnE visible))))"

section \<open>The stream\<close>

datatype io_error = NotFoundError string | InvalidData string | StoreError anyhow | ChunkError string

record pack_stream =
  ps_guard :: pack_guard
  ps_namespace :: string
  ps_entries :: "(bytes \<times> digest) list"

datatype pack_stop = Cancelled | Broken io_error

record ('b, 'm) pack_gen =
  ge_world :: "('b, 'm) world"
  ge_guard :: pack_guard
  ge_polls :: "nat option"
  ge_sent :: "bytes list"

type_synonym ('b, 'm, 'a) gen = "(('b, 'm) pack_gen, pack_stop, 'a) comp"

definition gen_world :: "(('b, 'm) world, pack_stop, 'a) comp \<Rightarrow> ('b, 'm, 'a) gen" where
  "gen_world = focus ge_world (\<lambda>w s. s\<lparr>ge_world := w\<rparr>)"

definition guard_op :: "(nat \<Rightarrow> pack_guard \<times> metrics \<Rightarrow> pack_guard \<times> metrics) \<Rightarrow> ('b, 'm, unit) gen" where
  "guard_op f =
     bindE (gen_world instant_now) (\<lambda>now s.
       case f now (ge_guard s, w_metrics (ge_world s)) of
         (g, M) \<Rightarrow> (Inr (), s\<lparr>ge_guard := g, ge_world := (ge_world s)\<lparr>w_metrics := M\<rparr>\<rparr>))"

definition broken :: "io_error \<Rightarrow> ('b, 'm, 'a) gen" where
  "broken e = bindE (guard_op guard_error) (\<lambda>_. throwE (Broken e))"

text \<open>\<open>yield\<close>: the stream goes on when it is polled again.\<close>

definition emit :: "bytes \<Rightarrow> ('b, 'm, unit) gen" where
  "emit chunk s =
     (let s' = s\<lparr>ge_sent := ge_sent s @ [chunk]\<rparr> in
      case ge_polls s of
        None \<Rightarrow> (Inr (), s')
      | Some n \<Rightarrow> (if n \<le> 1 then Inl Cancelled else Inr (), s'\<lparr>ge_polls := Some (n - 1)\<rparr>))"

definition read_outcome :: "('b, 'm, 'h) server \<Rightarrow> string \<Rightarrow> bytes \<times> digest \<Rightarrow> nat \<Rightarrow> blob option \<Rightarrow> nat
    \<Rightarrow> (('b, 'm) world, io_error, bytes \<times> blob) comp" where
  "read_outcome S namespace e started found now =
     (case found of
        None \<Rightarrow>
          bindE (on_metrics (observe_pack_storage_get ''missing'' (now - started))) (\<lambda>_.
          bindE (forget_missing_blob S namespace (snd e)) (\<lambda>_.
          throwE (NotFoundError ''visible blob is missing from storage'')))
      | Some b \<Rightarrow>
          bindE (on_metrics (observe_pack_storage_get ''hit'' (now - started))) (\<lambda>_.
          if bl_size b \<noteq> d_size (snd e) then throwE (InvalidData ''stored blob size does not match its digest'')
          else returnE (fst e, b)))"

definition read_entry :: "('b, 'm, 'h) server \<Rightarrow> string \<Rightarrow> bytes \<times> digest
    \<Rightarrow> (('b, 'm) world, io_error, bytes \<times> blob) comp" where
  "read_entry S namespace e =
     bindE instant_now (\<lambda>started.
     handleE (on_blobs (bs_get (sv_blobs S) (snd e)))
       (\<lambda>error. bindE instant_now (\<lambda>now.
          bindE (on_metrics (observe_pack_storage_get ''error'' (now - started))) (\<lambda>_.
          throwE (StoreError error))))
       (\<lambda>found. bindE instant_now (read_outcome S namespace e started found)))"

fun run_reads :: "('b, 'm, 'h) server \<Rightarrow> string \<Rightarrow> (bytes \<times> digest) list
    \<Rightarrow> (('b, 'm) world, pack_stop, (io_error + bytes \<times> blob) list) comp" where
  "run_reads S namespace [] w = (Inr [], w)"
| "run_reads S namespace (e # es) w =
     (case read_entry S namespace e w of (r, v) \<Rightarrow>
       case run_reads S namespace es v of (rs, u) \<Rightarrow> (map_sum id ((#) r) rs, u))"

fun send_chunks :: "u64 \<Rightarrow> (string + bytes) list \<Rightarrow> u64 \<Rightarrow> ('b, 'm, u64) gen" where
  "send_chunks limit [] streamed = returnE streamed"
| "send_chunks limit (Inl e # cs) streamed = broken (ChunkError e)"
| "send_chunks limit (Inr c # cs) streamed =
     (case checked_add streamed (of_nat (length c)) of
        None \<Rightarrow> broken (InvalidData ''stored blob stream is too large'')
      | Some streamed \<Rightarrow>
          if streamed > limit then broken (InvalidData ''stored blob stream is larger than advertised'')
          else
            bindE (gen_world (on_metrics (add_served_bytes (of_nat (length c))))) (\<lambda>_.
            bindE (emit c) (\<lambda>_.
            send_chunks limit cs streamed)))"

definition deliver :: "io_error + bytes \<times> blob \<Rightarrow> ('b, 'm, unit) gen" where
  "deliver entry =
     (case entry of
        Inl e \<Rightarrow> broken e
      | Inr (header, b) \<Rightarrow>
          bindE (emit header) (\<lambda>_.
          bindE (send_chunks (bl_size b) (bl_stream b) 0) (\<lambda>streamed.
          if streamed \<noteq> bl_size b
          then broken (InvalidData ''stored blob stream is shorter than advertised'')
          else
            bindE (gen_world (on_metrics blob_served)) (\<lambda>_.
            gen_world (on_metrics inc_blob_hit)))))"

text \<open>\<open>q\<close> are the results of the entries read ahead, the first ones of those still to be delivered.\<close>

fun serve_entries :: "('b, 'm, 'h) server \<Rightarrow> string \<Rightarrow> (bytes \<times> digest) list
    \<Rightarrow> (io_error + bytes \<times> blob) list \<Rightarrow> ('b, 'm, unit) gen" where
  "serve_entries S namespace [] q = returnE ()"
| "serve_entries S namespace (e # es) q =
     bindE (gen_world (run_reads S namespace (drop (length q) (take max_pack_storage_reads (e # es))))) (\<lambda>more.
     bindE (deliver (hd (q @ more))) (\<lambda>_.
     serve_entries S namespace es (tl (q @ more))))"

definition pack_body :: "('b, 'm, 'h) server \<Rightarrow> pack_stream \<Rightarrow> ('b, 'm, unit) gen" where
  "pack_body S st =
     bindE (guard_op record_first_byte) (\<lambda>_.
     bindE (emit (blob_pack_magic (sv_protocol S))) (\<lambda>_.
     bindE (serve_entries S (ps_namespace st) (ps_entries st) []) (\<lambda>_.
     guard_op guard_complete)))"

definition drop_guard :: "pack_guard \<Rightarrow> ('b, 'm) world \<Rightarrow> ('b, 'm) world" where
  "drop_guard g w =
     (case instant_now w :: (api_error + nat) \<times> _ of (_, v) \<Rightarrow> v\<lparr>w_metrics := snd (guard_drop (w_now v) (g, w_metrics v))\<rparr>)"

text \<open>What the client receives, and the world once the response is gone.\<close>

definition run_pack_stream :: "('b, 'm, 'h) server \<Rightarrow> pack_stream \<Rightarrow> nat option \<Rightarrow> ('b, 'm) world
    \<Rightarrow> (io_error + bytes) list \<times> ('b, 'm) world" where
  "run_pack_stream S st polls w =
     (let s = \<lparr>ge_world = w, ge_guard = ps_guard st, ge_polls = polls, ge_sent = []\<rparr> in
      case (if polls = Some 0 then (Inl Cancelled, s) else pack_body S st s) of
        (r, s') \<Rightarrow>
          (map Inr (ge_sent s') @ (case r of Inl (Broken e) \<Rightarrow> [Inl e] | _ \<Rightarrow> []),
           drop_guard (ge_guard s') (ge_world s')))"

section \<open>The handler\<close>

definition pack_reply :: "('b, 'm, 'h) server \<Rightarrow> string \<Rightarrow> pack_guard \<Rightarrow> pack_plan \<Rightarrow> pack_stream reply" where
  "pack_reply S namespace g p =
     \<lparr>rp_status = 200,
      rp_headers = [(''content-type'', wc_pack_media_type (sv_codec S)),
        (''content-length'', nat_to_string (unat (pp_bytes p))),
        (wc_pack_blobs_header (sv_codec S), nat_to_string (length (pp_entries p))),
        (wc_pack_bytes_header (sv_codec S), nat_to_string (unat (pp_payload_bytes p)))],
      rp_body = \<lparr>ps_guard = g, ps_namespace = namespace, ps_entries = pp_entries p\<rparr>\<rparr>"

definition start_response :: "('b, 'm, 'h) server \<Rightarrow> string \<Rightarrow> nat \<Rightarrow> digest list \<Rightarrow> u64 \<Rightarrow> digest list
    \<Rightarrow> ('b, 'm, pack_stream reply) handler" where
  "start_response S namespace started requested total_bytes visible w =
     (case start_pack started (of_nat (length requested)) total_bytes
         (of_nat (length requested - length visible)) (w_metrics w) of
        (g, M) \<Rightarrow>
          (case plan_pack (sv_protocol S) visible of
             Inl e \<Rightarrow> (Inl e, drop_guard g (w\<lparr>w_metrics := M\<rparr>))
           | Inr p \<Rightarrow> (Inr (pack_reply S namespace g p), w\<lparr>w_metrics := M\<rparr>)))"

definition pack_blobs :: "('b, 'm, 'h) server \<Rightarrow> header_map \<Rightarrow> digest list \<Rightarrow> ('b, 'm, pack_stream reply) handler" where
  "pack_blobs S headers ds =
     bindE instant_now (\<lambda>started.
     bindE (authorized S headers Read) (\<lambda>namespace.
     if length ds > max_batch_items (sv_protocol S)
     then throwE (bad_request ''at most 10000 digests may be packed'')
     else
       bindE (liftE (scan_requested (sv_protocol S) (sv_max_blob_bytes S) ds [] 0)) (\<lambda>(requested, total_bytes).
       bindE (visible_for_pack S namespace requested) (\<lambda>visible.
       bindE (on_pending (record_access namespace visible)) (\<lambda>_.
       start_response S namespace started requested total_bytes visible)))))"

end
