(* ===== verification/Pack_Delivery.thy ===== *)
theory Pack_Delivery
  imports Pack_Download Sample_Server
begin

text \<open>
  What a pack response delivers: the plan its headers come from, the chunks of its stream against the
  frames they belong to, and the accounting of its guard.
\<close>

section \<open>The plan\<close>

lemma pack_blob_header_ok:
  assumes "protocol_ok P" and "digest_ok P d"
  shows "pack_blob_header P d = Inr (frame_header P d)"
proof -
  obtain a where a: "algorithm_kind P d = Inr a" using assms by (rule digest_ok_algorithm)
  show ?thesis
    by (cases a) (simp_all add: pack_blob_header_def frame_header_def hash_bytes_ok [OF assms] a)
qed

lemma scan_requested_run:
  assumes "scan_requested P limit ds requested sz = Inr (out, total_bytes)"
    and "distinct requested" and "unat sz = sum_list (map (\<lambda>d. unat (d_size d)) requested)" and "sz \<le> limit"
    and "\<forall>d \<in> set requested. digest_ok P d"
  shows "\<exists>new. out = requested @ new \<and> subseq new ds \<and> distinct out \<and> set out = set requested \<union> set ds
    \<and> (\<forall>d \<in> set out. digest_ok P d) \<and> unat total_bytes = sum_list (map (\<lambda>d. unat (d_size d)) out) \<and> total_bytes \<le> limit"
  using assms
proof (induction P limit ds requested sz rule: scan_requested.induct)
  case (1 P limit requested sz)
  then show ?case by auto
next
  case (2 P limit d ds requested sz)
  show ?case
  proof (cases "d \<in> set requested")
    case True
    with 2(3) have ok: "validate_digest P d = Inr ()" and run: "scan_requested P limit ds requested sz = Inr (out, total_bytes)"
      by (auto simp: result_simps split: if_splits)
    from "2.IH"(1) [OF True run 2(4-)] obtain new where new: "out = requested @ new" "subseq new ds"
      "distinct out \<and> set out = set requested \<union> set ds
       \<and> (\<forall>d \<in> set out. digest_ok P d) \<and> unat total_bytes = sum_list (map (\<lambda>d. unat (d_size d)) out) \<and> total_bytes \<le> limit"
      by blast
    moreover have "set requested \<union> set (d # ds) = set requested \<union> set ds" using True by auto
    ultimately show ?thesis by (intro exI [of _ new]) auto
  next
    case False
    with 2(3) obtain s where ok: "digest_ok P d" and s: "unat s = unat sz + unat (d_size d)" "\<not> s > limit"
      and run: "scan_requested P limit ds (requested @ [d]) s = Inr (out, total_bytes)"
      by (auto simp: result_simps split: if_splits)
    have "\<exists>new. out = (requested @ [d]) @ new \<and> subseq new ds \<and> distinct out
        \<and> set out = set (requested @ [d]) \<union> set ds
        \<and> (\<forall>d \<in> set out. digest_ok P d) \<and> unat total_bytes = sum_list (map (\<lambda>d. unat (d_size d)) out) \<and> total_bytes \<le> limit"
      by (rule "2.IH"(2) [OF False s(2) run]) (use 2(4-) False ok s in \<open>auto simp: checked_add_eq_Some\<close>)
    then obtain new where new: "out = requested @ (d # new)" "subseq new ds"
      "distinct out \<and> set out = set (requested @ [d]) \<union> set ds
        \<and> (\<forall>d \<in> set out. digest_ok P d) \<and> unat total_bytes = sum_list (map (\<lambda>d. unat (d_size d)) out) \<and> total_bytes \<le> limit"
      by auto
    then show ?thesis by (intro exI [of _ "d # new"]) auto
  qed
qed

definition planned :: "protocol \<Rightarrow> digest list \<Rightarrow> (bytes \<times> digest) list" where
  "planned P ds = map (\<lambda>d. (frame_header P d, d)) ds"

lemma plan_entries_run:
  assumes "protocol_ok P" and "fold_r (plan_entry P) ds p = Inr q" and "\<forall>d \<in> set ds. digest_ok P d"
  shows "pp_entries q = pp_entries p @ planned P ds"
    and "unat (pp_payload_bytes q) = unat (pp_payload_bytes p) + sum_list (map (\<lambda>d. unat (d_size d)) ds)"
    and "unat (pp_bytes q) = unat (pp_bytes p) + 41 * length ds + sum_list (map (\<lambda>d. unat (d_size d)) ds)"
proof -
  have "pp_entries q = pp_entries p @ planned P ds
    \<and> unat (pp_payload_bytes q) = unat (pp_payload_bytes p) + sum_list (map (\<lambda>d. unat (d_size d)) ds)
    \<and> unat (pp_bytes q) = unat (pp_bytes p) + 41 * length ds + sum_list (map (\<lambda>d. unat (d_size d)) ds)"
    using assms(2,3)
  proof (induction ds arbitrary: p)
    case Nil
    then show ?case by (simp add: planned_def)
  next
    case (Cons d ds)
    from Cons.prems obtain x where x: "plan_entry P d p = Inr x" "fold_r (plan_entry P) ds x = Inr q"
      by (auto simp: result_simps)
    from x(1) Cons.prems(2) pack_blob_header_ok [OF assms(1), of d] protocol_sizes(2) [OF assms(1)]
    have "pp_entries x = pp_entries p @ [(frame_header P d, d)]"
      "unat (pp_payload_bytes x) = unat (pp_payload_bytes p) + unat (d_size d)"
      "unat (pp_bytes x) = unat (pp_bytes p) + 41 + unat (d_size d)"
      by (auto simp: plan_entry_def result_simps split: option.splits)
    with Cons.IH [OF x(2)] Cons.prems(2) show ?case by (simp add: planned_def)
  qed
  then show "pp_entries q = pp_entries p @ planned P ds"
    "unat (pp_payload_bytes q) = unat (pp_payload_bytes p) + sum_list (map (\<lambda>d. unat (d_size d)) ds)"
    "unat (pp_bytes q) = unat (pp_bytes p) + 41 * length ds + sum_list (map (\<lambda>d. unat (d_size d)) ds)"
    by blast+
qed

lemma plan_pack_run:
  assumes "protocol_ok P" and "plan_pack P ds = Inr p" and "\<forall>d \<in> set ds. digest_ok P d"
  shows "pp_entries p = planned P ds"
    and "unat (pp_payload_bytes p) = sum_list (map (\<lambda>d. unat (d_size d)) ds)"
    and "unat (pp_bytes p) = 8 + 41 * length ds + sum_list (map (\<lambda>d. unat (d_size d)) ds)"
  using plan_entries_run [OF assms(1) assms(2) [unfolded plan_pack_def] assms(3)] protocol_sizes(1) [OF assms(1)]
  by simp_all

section \<open>The reads\<close>

context cache_server begin

text \<open>A read delivers the header of its entry and a content that belongs under its digest.\<close>

definition entry_good :: "bytes \<times> digest \<Rightarrow> io_error + bytes \<times> blob \<Rightarrow> bool" where
  "entry_good e r \<longleftrightarrow> (\<forall>h b. r = Inr (h, b) \<longrightarrow> h = fst e \<and>
     (\<exists>c. content_matches S (snd e) c \<and> prefix (delivered (bl_stream b)) c
       \<and> (completes (bl_stream b) \<longrightarrow> delivered (bl_stream b) = c)))"

lemma entry_good_Inl [simp]: "entry_good e (Inl f)"
  by (simp add: entry_good_def)

lemma read_entry_step: "ns \<in> N \<Longrightarrow> moves (step N) (read_entry S ns e)"
proof -
  assume ns: "ns \<in> N"
  have get: "moves (step N) (on_blobs (bs_get (sv_blobs S) (snd e)))"
  proof (rule on_blobs_step)
    fix b r c assume b: "bok b" and run: "bs_get (sv_blobs S) (snd e) b = (r, c)"
    then have "bok c" using blobs.get_ok [OF b, of "snd e"] by simp
    moreover have "held c d = Some x" if "digest_ok (sv_protocol S) d" "held b d = Some x" for d x
      using blobs.get_keeps [OF b that, of "snd e"] run by simp
    ultimately show "bok c \<and> blobs_kept b c" by (simp add: blobs_kept_def)
  qed
  show ?thesis
    unfolding read_entry_def read_outcome_def
    by (intro moves_bind step_preorder instant_now_step moves_handle get on_metrics_step moves_throw
        moves_case_option forget_missing_blob_step ns moves_if moves_return)
qed

lemma stored_blob_good:
  assumes "world_ok w" and "digest_ok (sv_protocol S) d" and "on_blobs (bs_get (sv_blobs S) d) w = (Inr (Some b), v)"
  shows "\<exists>c. content_matches S d c \<and> prefix (delivered (bl_stream b)) c
       \<and> (completes (bl_stream b) \<longrightarrow> delivered (bl_stream b) = c)"
proof -
  from assms(3) have g: "bs_get (sv_blobs S) d (w_blobs w) = (Inr (Some b), w_blobs v)"
    by (auto simp: result_simps)
  have ok: "bok (w_blobs w)" using assms(1) by (simp add: world_ok_def)
  from blobs.get_found [OF ok assms(2) g] obtain c where c: "held (w_blobs v) d = Some c"
    "prefix (delivered (bl_stream b)) c" "completes (bl_stream b) \<longrightarrow> delivered (bl_stream b) = c" by blast
  have "bok (w_blobs v)" using blobs.get_ok [OF ok, of d] g by simp
  with c(1) have "content_matches S d c" using blobs.held_good [OF _ assms(2)] by blast
  with c show ?thesis by blast
qed

lemma instant_now_run: "instant_now w = (r, v) \<Longrightarrow> w_blobs v = w_blobs w \<and> w_metadata v = w_metadata w"
  by (auto simp: instant_now_def split: list.splits)

lemma read_entry_run:
  assumes "world_ok w" and "digest_ok (sv_protocol S) (snd e)" and "read_entry S ns e w = (r, v)"
  shows "world_ok v" and "entry_good e r"
proof -
  show "world_ok v" using step_ok [OF read_entry_step [of ns UNIV] assms(3,1)] by simp
  show "entry_good e r"
    unfolding entry_good_def
  proof (intro allI impI)
    fix h' b assume r: "r = Inr (h', b)"
    from assms(3) obtain s u found t n t' where n: "(instant_now w :: (io_error + nat) \<times> _) = (Inr s, u)"
      and g: "on_blobs (bs_get (sv_blobs S) (snd e)) u = (Inr found, t)"
      and rest: "read_outcome S ns e s found n t' = (Inr (h', b), v)"
      by (auto simp: read_entry_def r result_simps simp del: on_blobs_eq)
    from rest have h: "h' = fst e" and found: "found = Some b"
      by (auto simp: read_outcome_def result_simps split: option.splits if_splits)
    have "world_ok u" using instant_now_run [OF n] assms(1) by (simp add: world_ok_def)
    from stored_blob_good [OF this assms(2) g [unfolded found]] h
    show "h' = fst e \<and> (\<exists>c. content_matches S (snd e) c \<and> prefix (delivered (bl_stream b)) c
       \<and> (completes (bl_stream b) \<longrightarrow> delivered (bl_stream b) = c))" by simp
  qed
qed

lemma run_reads_run:
  assumes "world_ok w" and "\<forall>e \<in> set es. digest_ok (sv_protocol S) (snd e)"
  obtains rs v where "run_reads S ns es w = (Inr rs, v)" "world_ok v" "list_all2 entry_good es rs"
proof -
  have "\<exists>rs v. run_reads S ns es w = (Inr rs, v) \<and> world_ok v \<and> list_all2 entry_good es rs"
    using assms
  proof (induction es arbitrary: w)
    case Nil
    then show ?case by simp
  next
    case (Cons e es)
    obtain r u where r: "read_entry S ns e w = (r, u)" by fastforce
    note one = read_entry_run [OF Cons.prems(1) _ r]
    from Cons.IH [of u] one Cons.prems(2) obtain rs v where
      "run_reads S ns es u = (Inr rs, v)" "world_ok v" "list_all2 entry_good es rs" by auto
    then show ?case using r one(2) Cons.prems(2) by simp
  qed
  then show thesis using that by blast
qed

lemma run_reads_step:
  assumes "ns \<in> N" shows "moves (step N) (run_reads S ns es)"
proof -
  have "step N w (snd (run_reads S ns es w))" for w
  proof (induction es arbitrary: w)
    case Nil
    then show ?case by (simp add: preorder_rel_refl)
  next
    case (Cons e es)
    obtain r u where r: "read_entry S ns e w = (r, u)" by fastforce
    obtain rs v where rs: "run_reads S ns es u = (rs, v)" by fastforce
    have "step N w u" by (rule moves_step [OF read_entry_step [OF assms] r])
    moreover have "step N u v" using Cons.IH [of u] rs by simp
    ultimately have "step N w v" by (rule preorder_rel_trans [OF step_preorder])
    with r rs show ?case by simp
  qed
  then show ?thesis by (simp add: moves_def)
qed

end

section \<open>The stream's operations\<close>

definition same_stores :: "('b, 'm) pack_gen \<Rightarrow> ('b, 'm) pack_gen \<Rightarrow> bool" where
  "same_stores s t \<longleftrightarrow> w_blobs (ge_world t) = w_blobs (ge_world s) \<and> w_metadata (ge_world t) = w_metadata (ge_world s)"

lemma same_stores_trans [trans]: "same_stores s t \<Longrightarrow> same_stores t u \<Longrightarrow> same_stores s u"
  by (simp add: same_stores_def)

lemma gen_world_eq [result_simps]:
  "gen_world m s = (r, t) \<longleftrightarrow> (\<exists>w. m (ge_world s) = (r, w) \<and> t = s\<lparr>ge_world := w\<rparr>)"
  by (auto simp: gen_world_def focus_def split: prod.splits)

lemma instant_now_total: "\<exists>n v. instant_now w = (Inr n, v) \<and> w_blobs v = w_blobs w \<and> w_metadata v = w_metadata w
    \<and> w_metrics v = w_metrics w"
  by (cases "w_ticks w") (simp_all add: instant_now_def)

lemma guard_op_run:
  assumes "guard_op f s = (r, t)"
  shows "r = Inr ()" and "ge_sent t = ge_sent s" and "same_stores s t"
proof -
  obtain n v where n: "(instant_now (ge_world s) :: (pack_stop + nat) \<times> _) = (Inr n, v)"
    "w_blobs v = w_blobs (ge_world s)" "w_metadata v = w_metadata (ge_world s)"
    using instant_now_total by blast
  have g: "gen_world instant_now s = (Inr n, s\<lparr>ge_world := v\<rparr>)" using n(1) by (simp add: gen_world_eq)
  obtain h M where "f n (ge_guard s, w_metrics v) = (h, M)" by fastforce
  with assms g n show "r = Inr ()" "ge_sent t = ge_sent s" "same_stores s t"
    by (auto simp: guard_op_def same_stores_def)
qed

lemma broken_run:
  assumes "broken e s = (r, t)"
  shows "r = Inl (Broken e)" and "ge_sent t = ge_sent s" and "same_stores s t"
proof -
  obtain q u where q: "guard_op guard_error s = (q, u)" by fastforce
  note g = guard_op_run [OF q]
  from assms q g(1) have "r = Inl (Broken e)" "t = u" by (auto simp: broken_def)
  with g show "r = Inl (Broken e)" "ge_sent t = ge_sent s" "same_stores s t" by auto
qed

lemma emit_run:
  assumes "emit chunk s = (r, t)"
  shows "ge_sent t = ge_sent s @ [chunk]" and "ge_world t = ge_world s" and "same_stores s t"
  using assms by (auto simp: emit_def Let_def same_stores_def split: option.splits if_splits)

lemma gen_metrics_run:
  assumes "gen_world (on_metrics f) s = (r, t)"
  shows "r = Inr ()" and "ge_sent t = ge_sent s" and "same_stores s t"
  using assms by (auto simp: result_simps on_metrics_def same_stores_def)

lemma send_chunks_run:
  assumes "send_chunks limit cs streamed s = (r, t)"
  shows "same_stores s t \<and> (\<exists>new. ge_sent t = ge_sent s @ new \<and> prefix (concat new) (delivered cs)
    \<and> (\<forall>n. r = Inr n \<longrightarrow> completes cs \<and> concat new = delivered cs))"
  using assms
proof (induction limit cs streamed arbitrary: s rule: send_chunks.induct)
  case (1 limit streamed)
  then show ?case by (simp add: same_stores_def)
next
  case (2 limit e cs streamed)
  note b = broken_run [OF 2 [unfolded send_chunks.simps]]
  then show ?case by simp
next
  case (3 limit c cs streamed)
  show ?case
  proof (cases "\<exists>n. checked_add streamed (of_nat (length c)) = Some n \<and> \<not> n > limit")
    case False
    then obtain e where "broken e s = (r, t)" using 3(2) by (auto split: option.splits if_splits)
    note b = broken_run [OF this]
    then show ?thesis by simp
  next
    case True
    then obtain n where n: "checked_add streamed (of_nat (length c)) = Some n" "\<not> n > limit" by blast
    obtain s1 where s1: "gen_world (on_metrics (add_served_bytes (of_nat (length c)))) s = (Inr (), s1)"
      using gen_metrics_run(1) by (metis surj_pair)
    obtain q s2 where q: "emit c s1 = (q, s2)" by fastforce
    note m = gen_metrics_run [OF s1] and e = emit_run [OF q]
    show ?thesis
    proof (cases q)
      case (Inl stop)
      with 3(2) n s1 q have "r = Inl stop" "t = s2" by simp_all
      with m(2) e(1) same_stores_trans [OF m(3) e(3)] show ?thesis by simp
    next
      case (Inr u)
      with 3(2) n s1 q have rest: "send_chunks limit cs n s2 = (r, t)" by simp
      from 3(1) [OF n rest] obtain new where new: "same_stores s2 t" "ge_sent t = ge_sent s2 @ new"
        "prefix (concat new) (delivered cs)" "\<forall>n. r = Inr n \<longrightarrow> completes cs \<and> concat new = delivered cs" by blast
      have "same_stores s t" by (rule same_stores_trans [OF same_stores_trans [OF m(3) e(3)] new(1)])
      moreover have "ge_sent t = ge_sent s @ (c # new)" using m(2) e(1) new(2) by simp
      ultimately show ?thesis using new(3,4) by (intro conjI exI [of _ "c # new"]) auto
    qed
  qed
qed

section \<open>What is sent\<close>

lemma take_window: "k \<le> n \<Longrightarrow> take n xs = take k xs @ drop k (take n xs)"
  using append_take_drop_id [of k "take n xs"] by (simp add: min_absorb1)

context cache_server begin

text \<open>The bytes \<open>bs\<close> are the start of the frames \<open>fs\<close>, which belong to the first of the digests \<open>ds\<close>.\<close>

definition frames_good :: "digest list \<Rightarrow> frame list \<Rightarrow> bool" where
  "frames_good ds fs \<longleftrightarrow> prefix (map fst fs) ds \<and> (\<forall>f \<in> set fs. content_matches S (fst f) (snd f))"

abbreviation frames_wire :: "frame list \<Rightarrow> bytes" where
  "frames_wire fs \<equiv> concat (map (frame_bytes (sv_protocol S)) fs)"

lemma deliver_run:
  assumes "entry_good (frame_header (sv_protocol S) d, d) x" and "deliver x s = (r, t)"
  shows "same_stores s t \<and> (\<exists>new. ge_sent t = ge_sent s @ new \<and>
    (new = [] \<and> r \<noteq> Inr () \<or> (\<exists>c. content_matches S d c \<and> prefix (concat new) (frame_bytes (sv_protocol S) (d, c))
      \<and> (r = Inr () \<longrightarrow> concat new = frame_bytes (sv_protocol S) (d, c)))))"
proof (cases x)
  case (Inl e)
  with assms(2) have "broken e s = (r, t)" by (simp add: deliver_def)
  from broken_run [OF this] show ?thesis by simp
next
  case (Inr hb)
  obtain h b where hb: "hb = (h, b)" by fastforce
  from assms(1) obtain c where h: "h = frame_header (sv_protocol S) d" and c: "content_matches S d c"
    "prefix (delivered (bl_stream b)) c" "completes (bl_stream b) \<longrightarrow> delivered (bl_stream b) = c"
    by (auto simp: entry_good_def Inr hb)
  obtain q s1 where q: "emit h s = (q, s1)" by fastforce
  note e = emit_run [OF q]
  have start: "prefix h (frame_bytes (sv_protocol S) (d, c))" by (simp add: frame_bytes_def h)
  show ?thesis
  proof (cases q)
    case (Inl stop)
    with assms(2) q Inr hb have "r = Inl stop" "t = s1" by (simp_all add: deliver_def)
    with e start c(1) show ?thesis by (intro conjI exI [of _ "[h]"]) auto
  next
    case (Inr u)
    obtain p s2 where p: "send_chunks (bl_size b) (bl_stream b) 0 s1 = (p, s2)" by fastforce
    from send_chunks_run [OF p] obtain new where new: "same_stores s1 s2" "ge_sent s2 = ge_sent s1 @ new"
      "prefix (concat new) (delivered (bl_stream b))"
      "\<forall>n. p = Inr n \<longrightarrow> completes (bl_stream b) \<and> concat new = delivered (bl_stream b)" by blast
    have sent: "ge_sent s2 = ge_sent s @ (h # new)" using e(1) new(2) by simp
    have pre: "prefix (concat (h # new)) (frame_bytes (sv_protocol S) (d, c))"
      using new(3) c(2) by (simp add: frame_bytes_def h prefix_order.trans)
    have still: "same_stores s s2" by (rule same_stores_trans [OF e(3) new(1)])
    show ?thesis
    proof (cases p)
      case (Inl stop)
      with assms(2) q Inr \<open>x = Inr hb\<close> hb p have "r = Inl stop" "t = s2" by (simp_all add: deliver_def)
      with still sent pre c(1) show ?thesis by (intro conjI exI [of _ "h # new"]) auto
    next
      case (Inr n)
      with new(4) c(3) have whole: "concat (h # new) = frame_bytes (sv_protocol S) (d, c)"
        by (simp add: frame_bytes_def h)
      show ?thesis
      proof (cases "n = bl_size b")
        case False
        with assms(2) q \<open>q = Inr u\<close> \<open>x = Inr hb\<close> hb p Inr
        have "broken (InvalidData ''stored blob stream is shorter than advertised'') s2 = (r, t)"
          by (simp add: deliver_def)
        from broken_run [OF this] still sent pre c(1) show ?thesis
          by (intro conjI exI [of _ "h # new"]) (auto simp: same_stores_def)
      next
        case True
        obtain a s3 where a: "gen_world (on_metrics blob_served) s2 = (a, s3)" by fastforce
        note m = gen_metrics_run [OF a]
        have z: "gen_world (on_metrics inc_blob_hit) s3 = (r, t)"
          using assms(2) q \<open>q = Inr u\<close> \<open>x = Inr hb\<close> hb p Inr True a m(1) by (simp add: deliver_def)
        note n = gen_metrics_run [OF z]
        have "same_stores s t" by (rule same_stores_trans [OF still same_stores_trans [OF m(3) n(3)]])
        moreover have "ge_sent t = ge_sent s @ (h # new)" using sent m(2) n(2) by simp
        ultimately show ?thesis using c(1) whole by (intro conjI exI [of _ "h # new"]) auto
      qed
    qed
  qed
qed

lemma serve_entries_run:
  assumes "world_ok (ge_world s)" and "\<forall>d \<in> set ds. digest_ok (sv_protocol S) d"
    and "list_all2 entry_good (take (length q) (planned (sv_protocol S) ds)) q" and "length q \<le> max_pack_storage_reads"
    and "serve_entries S ns (planned (sv_protocol S) ds) q s = (r, t)"
  shows "world_ok (ge_world t) \<and> (\<exists>new fs. ge_sent t = ge_sent s @ new \<and> frames_good ds fs
    \<and> prefix (concat new) (frames_wire fs) \<and> (r = Inr () \<longrightarrow> map fst fs = ds \<and> concat new = frames_wire fs))"
  using assms
proof (induction ds arbitrary: q s)
  case Nil
  then have "t = s" by (simp add: planned_def)
  with Nil.prems(1) show ?case by (intro conjI exI [of _ "[]"]) (auto simp: frames_good_def)
next
  case (Cons d ds)
  let ?P = "sv_protocol S"
  let ?e = "(frame_header ?P d, d)" and ?es = "planned ?P ds"
  have es: "planned ?P (d # ds) = ?e # ?es" by (simp add: planned_def)
  let ?todo = "drop (length q) (take max_pack_storage_reads (?e # ?es))"
  have "\<forall>e \<in> set ?todo. digest_ok ?P (snd e)"
    using Cons.prems(2) by (auto simp: planned_def dest!: in_set_dropD in_set_takeD)
  then obtain more v where more: "run_reads S ns ?todo (ge_world s) = (Inr more, v)" "world_ok v"
    "list_all2 entry_good ?todo more"
    using run_reads_run [OF Cons.prems(1)] by blast
  define s1 where "s1 = s\<lparr>ge_world := v\<rparr>"
  have read: "gen_world (run_reads S ns ?todo) s = (Inr more, s1)" using more(1) by (simp add: gen_world_eq s1_def)
  have front: "take max_pack_storage_reads (?e # ?es) = take (length q) (?e # ?es) @ ?todo"
    using Cons.prems(4) by (rule take_window)
  have window: "list_all2 entry_good (take max_pack_storage_reads (?e # ?es)) (q @ more)"
    using list_all2_appendI [OF Cons.prems(3) [unfolded es] more(3)] by (subst front)
  then obtain x q' where x: "q @ more = x # q'" "entry_good ?e x"
    "list_all2 entry_good (take (max_pack_storage_reads - 1) ?es) q'"
    by (auto simp: max_pack_storage_reads_def list_all2_Cons1)
  have q': "length q' = min (max_pack_storage_reads - 1) (length ?es)"
    using list_all2_lengthD [OF x(3)] by simp
  have short: "list_all2 entry_good (take (length q') ?es) q'" 
  proof (cases "max_pack_storage_reads - 1 \<le> length ?es")
    case True
    then show ?thesis using x(3) q' by (simp add: min_absorb1)
  next
    case False
    then show ?thesis using x(3) q' by (simp add: min_absorb2)
  qed
  obtain p s2 where p: "deliver x s1 = (p, s2)" by fastforce
  from deliver_run [OF x(2) p] obtain new where new: "same_stores s1 s2" "ge_sent s2 = ge_sent s1 @ new"
    "new = [] \<and> p \<noteq> Inr () \<or> (\<exists>c. content_matches S d c \<and> prefix (concat new) (frame_bytes ?P (d, c))
      \<and> (p = Inr () \<longrightarrow> concat new = frame_bytes ?P (d, c)))" by blast
  have ok: "world_ok (ge_world s2)" using more(2) new(1) by (simp add: world_ok_def same_stores_def s1_def)
  have sent: "ge_sent s2 = ge_sent s @ new" using new(2) by (simp add: s1_def)
  show ?case
  proof (cases p)
    case (Inl stop)
    with Cons.prems(5) es read p x(1) have "r = Inl stop" "t = s2" by simp_all
    moreover have "\<exists>fs. frames_good (d # ds) fs \<and> prefix (concat new) (frames_wire fs)"
      using new(3)
    proof
      assume "new = [] \<and> p \<noteq> Inr ()"
      then show ?thesis by (intro exI [of _ "[]"]) (simp add: frames_good_def)
    next
      assume "\<exists>c. content_matches S d c \<and> prefix (concat new) (frame_bytes ?P (d, c))
        \<and> (p = Inr () \<longrightarrow> concat new = frame_bytes ?P (d, c))"
      then obtain c where "content_matches S d c" "prefix (concat new) (frame_bytes ?P (d, c))" by blast
      then show ?thesis by (intro exI [of _ "[(d, c)]"]) (simp add: frames_good_def)
    qed
    ultimately show ?thesis using ok sent by auto
  next
    case (Inr u)
    with new(3) obtain c where c: "content_matches S d c" "concat new = frame_bytes ?P (d, c)" by auto
    have rest: "serve_entries S ns ?es q' s2 = (r, t)"
      using Cons.prems(5) es read p x(1) Inr by simp
    have "length q' \<le> max_pack_storage_reads" using q' by simp
    from Cons.IH [OF ok _ short this rest] Cons.prems(2) obtain new' fs where
      fs: "world_ok (ge_world t)" "ge_sent t = ge_sent s2 @ new'" "frames_good ds fs"
      "prefix (concat new') (frames_wire fs)" "r = Inr () \<longrightarrow> map fst fs = ds \<and> concat new' = frames_wire fs"
      by auto
    have "frames_good (d # ds) ((d, c) # fs)" using fs(3) c(1) by (simp add: frames_good_def)
    moreover have "concat (new @ new') = frame_bytes ?P (d, c) @ concat new'" using c(2) by simp
    ultimately show ?thesis using fs sent
      by (intro conjI exI [of _ "new @ new'"] exI [of _ "(d, c) # fs"]) auto
  qed
qed

end

section \<open>Clients that read on\<close>

text \<open>A client that never goes away never cancels the stream.\<close>

definition patient :: "('b, 'm, 'a) gen \<Rightarrow> bool" where
  "patient m \<longleftrightarrow> (\<forall>s r t. m s = (r, t) \<longrightarrow> ge_polls s = None \<longrightarrow> ge_polls t = None \<and> r \<noteq> Inl Cancelled)"

lemma patientD: "patient m \<Longrightarrow> m s = (r, t) \<Longrightarrow> ge_polls s = None \<Longrightarrow> ge_polls t = None \<and> r \<noteq> Inl Cancelled"
  by (simp add: patient_def)

lemma patient_return [keeps_intros]: "patient (returnE x)"
  by (auto simp: patient_def)

lemma patient_bind [keeps_intros]:
  assumes m: "patient m" and f: "\<And>x. patient (f x)" shows "patient (bindE m f)"
  unfolding patient_def
proof (intro allI impI)
  fix s r t assume run: "bindE m f s = (r, t)" and n: "ge_polls s = None"
  obtain q u where q: "m s = (q, u)" by fastforce
  note u = patientD [OF m q n]
  show "ge_polls t = None \<and> r \<noteq> Inl Cancelled"
  proof (cases q)
    case (Inl e)
    with run q u show ?thesis by auto
  next
    case (Inr x)
    with run q have "f x u = (r, t)" by simp
    with patientD [OF f this] u show ?thesis by simp
  qed
qed

lemma patient_guard_op [keeps_intros]: "patient (guard_op f)"
  unfolding patient_def
proof (intro allI impI)
  fix s r t assume run: "guard_op f s = (r, t)" and n: "ge_polls s = None"
  then have "ge_polls t = None"
    by (auto simp: guard_op_def gen_world_def focus_def bindE_def split: prod.splits sum.splits)
  with guard_op_run(1) [OF run] show "ge_polls t = None \<and> r \<noteq> Inl Cancelled" by simp
qed

lemma patient_broken [keeps_intros]: "patient (broken e)"
  unfolding broken_def by (rule patient_bind [OF patient_guard_op]) (simp add: patient_def)

lemma patient_emit [keeps_intros]: "patient (emit c)"
  by (auto simp: patient_def emit_def Let_def)

lemma patient_metrics [keeps_intros]: "patient (gen_world (on_metrics f))"
  by (auto simp: patient_def result_simps on_metrics_def)

lemma run_reads_Inr: "\<exists>rs v. run_reads S ns es w = (Inr rs, v)"
proof (induction es arbitrary: w)
  case (Cons e es)
  obtain r u where r: "read_entry S ns e w = (r, u)" by fastforce
  from Cons [of u] obtain rs v where "run_reads S ns es u = (Inr rs, v)" by blast
  with r show ?case by simp
qed simp

lemma patient_reads [keeps_intros]: "patient (gen_world (run_reads S ns es))"
  unfolding patient_def
proof (intro allI impI)
  fix s r t assume run: "gen_world (run_reads S ns es) s = (r, t)" and n: "ge_polls s = None"
  obtain rs v where "run_reads S ns es (ge_world s) = (Inr rs, v)" using run_reads_Inr by blast
  with run n show "ge_polls t = None \<and> r \<noteq> Inl Cancelled" by (auto simp: gen_world_eq)
qed

lemma patient_send_chunks [keeps_intros]: "patient (send_chunks limit cs streamed)"
proof (induction limit cs streamed rule: send_chunks.induct)
  case (1 limit streamed)
  show ?case unfolding send_chunks.simps by (rule patient_return)
next
  case (2 limit e cs streamed)
  show ?case unfolding send_chunks.simps by (rule patient_broken)
next
  case (3 limit c cs streamed)
  show ?case
  proof (cases "checked_add streamed (of_nat (length c))")
    case None
    then show ?thesis by (simp add: patient_broken)
  next
    case (Some n)
    with 3 [OF Some] show ?thesis by (simp add: patient_broken patient_bind patient_metrics patient_emit)
  qed
qed

lemma patient_deliver [keeps_intros]: "patient (deliver x)"
  by (cases x) (auto simp: deliver_def split: prod.split intro!: keeps_intros)

lemma patient_serve_entries: "patient (serve_entries S ns es q)"
proof (induction es arbitrary: q)
  case Nil
  show ?case unfolding serve_entries.simps by (rule patient_return)
next
  case (Cons e es)
  show ?case unfolding serve_entries.simps by (intro patient_bind patient_reads patient_deliver Cons.IH)
qed

lemma patient_pack_body: "patient (pack_body S st)"
  unfolding pack_body_def by (intro patient_bind patient_guard_op patient_emit patient_serve_entries)

section \<open>The whole response\<close>

lemma drop_guard_stores: "w_blobs (drop_guard g w) = w_blobs w \<and> w_metadata (drop_guard g w) = w_metadata w"
  by (cases "w_ticks w") (simp_all add: drop_guard_def instant_now_def)

lemma delivered_map [simp]: "delivered (map Inr cs @ xs) = concat cs @ delivered xs"
  by (induction cs) auto

lemma completes_append [simp]: "completes (xs @ ys) \<longleftrightarrow> completes xs \<and> completes ys"
  by (simp add: completes_def)

context cache_server begin

lemma pack_stream_run:
  assumes "world_ok w" and ds: "\<forall>d \<in> set ds. digest_ok (sv_protocol S) d"
    and "ps_entries st = planned (sv_protocol S) ds" and "run_pack_stream S st polls w = (items, v)"
  shows "world_ok v"
    and "\<exists>fs. frames_good ds fs \<and> prefix (delivered items) (encode_pack (sv_protocol S) fs)
      \<and> (polls = None \<and> completes items \<longrightarrow> map fst fs = ds \<and> delivered items = encode_pack (sv_protocol S) fs)"
proof -
  let ?s = "\<lparr>ge_world = w, ge_guard = ps_guard st, ge_polls = polls, ge_sent = []\<rparr>"
  obtain r t where run: "(if polls = Some 0 then (Inl Cancelled, ?s) else pack_body S st ?s) = (r, t)" by fastforce
  have items: "items = map Inr (ge_sent t) @ (case r of Inl (Broken e) \<Rightarrow> [Inl e] | _ \<Rightarrow> [])"
    and v: "v = drop_guard (ge_guard t) (ge_world t)"
    using assms(4) run by (auto simp: run_pack_stream_def Let_def)
  have sent: "delivered items = concat (ge_sent t)" unfolding items by (auto split: sum.splits pack_stop.splits)
  let ?goal = "world_ok (ge_world t) \<and> (\<exists>fs. frames_good ds fs
     \<and> prefix (concat (ge_sent t)) (encode_pack (sv_protocol S) fs)
     \<and> (r = Inr () \<longrightarrow> map fst fs = ds \<and> concat (ge_sent t) = encode_pack (sv_protocol S) fs))"
  have body: ?goal
  proof (cases "polls = Some 0")
    case True
    with run assms(1) show ?thesis by (auto simp: frames_good_def encode_pack_def intro!: exI [of _ "[]"])
  next
    case False
    with run have "pack_body S st ?s = (r, t)" by simp
    moreover obtain s1 where s1: "guard_op record_first_byte ?s = (Inr (), s1)"
      using guard_op_run(1) by (metis surj_pair)
    moreover obtain q s2 where q: "emit (blob_pack_magic (sv_protocol S)) s1 = (q, s2)" by fastforce
    ultimately have run: "(case q of Inl e \<Rightarrow> (Inl e, s2) | Inr _ \<Rightarrow>
        bindE (serve_entries S (ps_namespace st) (ps_entries st) []) (\<lambda>_. guard_op guard_complete) s2) = (r, t)"
      by (cases q) (auto simp: pack_body_def)
    note g = guard_op_run [OF s1] and e = emit_run [OF q]
    have ok: "world_ok (ge_world s2)" and magic: "ge_sent s2 = [blob_pack_magic (sv_protocol S)]"
      using assms(1) g e by (auto simp: same_stores_def world_ok_def)
    show ?thesis
    proof (cases q)
      case (Inl stop)
      with run have "r = Inl stop" "t = s2" by simp_all
      with ok magic show ?thesis
        by (auto simp: frames_good_def encode_pack_def intro!: exI [of _ "[]"])
    next
      case (Inr u)
      obtain p s3 where p: "serve_entries S (ps_namespace st) (planned (sv_protocol S) ds) [] s2 = (p, s3)" by fastforce
      from serve_entries_run [OF ok ds _ _ p] obtain new fs where
        fs: "world_ok (ge_world s3)" "ge_sent s3 = ge_sent s2 @ new" "frames_good ds fs"
        "prefix (concat new) (frames_wire fs)" "p = Inr () \<longrightarrow> map fst fs = ds \<and> concat new = frames_wire fs" by auto
      have wire: "concat (ge_sent s3) = blob_pack_magic (sv_protocol S) @ concat new" using fs(2) magic by simp
      show ?thesis
      proof (cases p)
        case (Inl stop)
        with run Inr p assms(3) have "r = Inl stop" "t = s3" by simp_all
        with fs wire show ?thesis by (auto simp: encode_pack_def)
      next
        case (Inr x)
        with run \<open>q = Inr u\<close> p assms(3) have "guard_op guard_complete s3 = (r, t)" by simp
        note c = guard_op_run [OF this]
        have "world_ok (ge_world t)" using fs(1) c(3) by (simp add: same_stores_def world_ok_def)
        with c fs wire Inr show ?thesis by (auto simp: encode_pack_def)
      qed
    qed
  qed
  then show "world_ok v" using drop_guard_stores [of "ge_guard t" "ge_world t"] by (simp add: v world_ok_def)
  have "r = Inr ()" if "polls = None" "completes items"
  proof -
    from run that(1) have "pack_body S st ?s = (r, t)" by simp
    from patientD [OF patient_pack_body this] that(1) have "r \<noteq> Inl Cancelled" by simp
    with that(2) show ?thesis unfolding items by (cases r) (auto split: pack_stop.splits)
  qed
  with body show "\<exists>fs. frames_good ds fs \<and> prefix (delivered items) (encode_pack (sv_protocol S) fs)
      \<and> (polls = None \<and> completes items \<longrightarrow> map fst fs = ds \<and> delivered items = encode_pack (sv_protocol S) fs)"
    unfolding sent by blast
qed

end

section \<open>The handler\<close>

lemma visible_for_pack_cases:
  assumes "visible_for_pack S ns ds w = (r, v)"
  obtains q n where "ms_visible_blobs (sv_metadata S) ns ds (w_metadata w) = (q, n)" "w_metadata v = n"
    "w_blobs v = w_blobs w" "map_err internal q = r"
proof -
  obtain q n where q: "ms_visible_blobs (sv_metadata S) ns ds (w_metadata w) = (q, n)" by fastforce
  show thesis
    by (rule that [OF q]; insert assms q)
      (auto simp: visible_for_pack_def instant_now_def bindE_def handleE_def on_metadata_def focus_def on_metrics_def
        split: list.splits sum.splits)
qed

context cache_server begin

lemma pack_blobs_run:
  assumes "world_ok w" and "pack_blobs S headers ds w = (Inr rep, v)"
  obtains ns requested where
    "access_allowed (sv_jwt S) (fst (w_auth w)) headers Read ns" "namespace_header S headers = Some ns"
    "distinct requested" "set requested = set ds" "subseq requested ds"
    "\<forall>d \<in> set requested. digest_ok (sv_protocol S) d"
    "sum_list (map (\<lambda>d. unat (d_size d)) requested) \<le> unat (sv_max_blob_bytes S)"
    "length ds \<le> max_batch_items (sv_protocol S)" "world_ok v"
    "\<exists>g p. rep = pack_reply S ns g p \<and> plan_pack (sv_protocol S) (filter (visible (w_metadata w) ns) requested) = Inr p"
proof -
  from assms(2) obtain started u ns u1 requested sz found u2 u3 where
    now: "(instant_now w :: (api_error + nat) \<times> _) = (Inr started, u)" and auth: "authorized S headers Read u = (Inr ns, u1)"
    and len: "\<not> length ds > max_batch_items (sv_protocol S)"
    and scan: "scan_requested (sv_protocol S) (sv_max_blob_bytes S) ds [] 0 = Inr (requested, sz)"
    and vis: "visible_for_pack S ns requested u1 = (Inr found, u2)"
    and u3: "u3 = u2\<lparr>w_pending := record_access ns found (w_pending u2)\<rparr>"
    and resp: "start_response S ns started requested sz found u3 = (Inr rep, v)"
    by (auto simp: pack_blobs_def result_simps on_pending_def split: if_splits)
  from instant_now_total [of w] now have "w_blobs u = w_blobs w" "w_metadata u = w_metadata w" "w_auth u = w_auth w"
    by (auto simp: instant_now_def split: list.splits)
  note u = this
  note a = authorized_run [OF auth]
  from a(3) u have u1: "world_ok u1" "w_metadata u1 = w_metadata w" "w_blobs u1 = w_blobs w"
    using assms(1) by (auto simp: world_ok_def)
  from scan_requested_run [OF scan] have
    req: "subseq requested ds" "distinct requested" "set requested = set ds" "\<forall>d \<in> set requested. digest_ok (sv_protocol S) d"
      "unat sz = sum_list (map (\<lambda>d. unat (d_size d)) requested)" "sz \<le> sv_max_blob_bytes S" by auto
  obtain n where n: "ms_visible_blobs (sv_metadata S) ns requested (w_metadata w) = (Inr found, n)"
    "w_metadata u2 = n" "w_blobs u2 = w_blobs w"
    by (rule visible_for_pack_cases [OF vis]) (use u1 in \<open>auto simp: result_simps\<close>)
  have "mok (w_metadata w)" using assms(1) by (simp add: world_ok_def)
  from metadata.visible_blobs [OF this n(1)] have found: "found = filter (visible (w_metadata w) ns) requested" "mok n"
    by blast+
  from resp obtain g p where gp: "plan_pack (sv_protocol S) found = Inr p" "rep = pack_reply S ns g p"
    "w_blobs v = w_blobs u3" "w_metadata v = w_metadata u3"
    by (auto simp: start_response_def split: prod.splits sum.splits)
  show thesis
  proof (rule that [of ns requested])
    show "world_ok v" using gp n found(2) assms(1) by (simp add: u3 world_ok_def)
    show "sum_list (map (\<lambda>d. unat (d_size d)) requested) \<le> unat (sv_max_blob_bytes S)"
      using req(5,6) by (simp add: word_le_nat_alt)
    show "\<exists>g p. rep = pack_reply S ns g p \<and> plan_pack (sv_protocol S) (filter (visible (w_metadata w) ns) requested) = Inr p"
      using gp found by blast
  qed (use a u req len in \<open>auto\<close>)
qed

end

section \<open>The guard's account\<close>

abbreviation in_flight :: "('b, 'm) world \<Rightarrow> gauge" where
  "in_flight w \<equiv> mt_pack_in_flight (w_metrics w)"

definition flight :: "('b, 'm) pack_gen \<Rightarrow> gauge" where
  "flight s = in_flight (ge_world s) - (if pg_finished (ge_guard s) then 0 else 1)"

lemma in_flight_prims [keeps_intros]:
  "moves (\<lambda>w v. in_flight v = in_flight w) instant_now"
  "moves (\<lambda>w v. in_flight v = in_flight w) (on_blobs m)"
  "moves (\<lambda>w v. in_flight v = in_flight w) (on_metadata n)"
  "moves (\<lambda>w v. in_flight v = in_flight w) (on_auth a)"
  "moves (\<lambda>w v. in_flight v = in_flight w) (on_pending p)"
  "moves (\<lambda>w v. in_flight v = in_flight w) (forget_missing_blob S ns d)"
  by (auto simp: moves_def instant_now_def on_blobs_def on_metadata_def on_auth_def on_pending_def focus_def
      forget_missing_blob_def split_beta split: list.split)

lemma in_flight_metrics [keeps_intros]:
  "(\<And>M. mt_pack_in_flight (f M) = mt_pack_in_flight M) \<Longrightarrow> moves (\<lambda>w v. in_flight v = in_flight w) (on_metrics f)"
  by (simp add: moves_def on_metrics_def)

lemma run_reads_flight: "in_flight (snd (run_reads S ns es w)) = in_flight w"
proof (induction es arbitrary: w)
  case (Cons e es)
  have "moves (\<lambda>w v. in_flight v = in_flight w) (read_entry S ns e)"
    unfolding read_entry_def read_outcome_def
    by (intro keeps_intros keeps_preorder) (simp_all add: observe_pack_storage_get_def keeps_intros)
  then have "in_flight (snd (read_entry S ns e w)) = in_flight w" by (simp add: moves_def)
  with Cons [of "snd (read_entry S ns e w)"] show ?case by (simp add: split_beta)
qed simp

lemma flight_return [keeps_intros]: "moves (\<lambda>s t. flight t = flight s) (returnE x)"
  by (simp add: moves_def)

lemma flight_guard_op [keeps_intros]:
  assumes "\<And>n g M h N. f n (g, M) = (h, N) \<Longrightarrow>
    mt_pack_in_flight N - (if pg_finished h then 0 else 1) = mt_pack_in_flight M - (if pg_finished g then 0 else (1 :: gauge))"
  shows "moves (\<lambda>s t. flight t = flight s) (guard_op f)"
proof (rule moves_any)
  fix s r t assume run: "guard_op f s = (r, t)"
  obtain n v where n: "(instant_now (ge_world s) :: (pack_stop + nat) \<times> _) = (Inr n, v)"
    "w_metrics v = w_metrics (ge_world s)" using instant_now_total by blast
  have g: "gen_world instant_now s = (Inr n, s\<lparr>ge_world := v\<rparr>)" using n(1) by (simp add: gen_world_eq)
  obtain h M where h: "f n (ge_guard s, w_metrics v) = (h, M)" by fastforce
  with run g have "ge_guard t = h" "w_metrics (ge_world t) = M" by (auto simp: guard_op_def)
  with assms [OF h] n(2) show "flight t = flight s" by (simp add: flight_def)
qed

lemma flight_guard_calls [keeps_intros]:
  "moves (\<lambda>s t. flight t = flight s) (guard_op record_first_byte)"
  "moves (\<lambda>s t. flight t = flight s) (guard_op guard_complete)"
  "moves (\<lambda>s t. flight t = flight s) (guard_op guard_error)"
  by (rule flight_guard_op; auto simp: guard_ops split: if_splits)+

lemma flight_broken [keeps_intros]: "moves (\<lambda>s t. flight t = flight s) (broken e)"
  unfolding broken_def by (intro moves_bind keeps_preorder flight_guard_calls moves_throw)

lemma flight_emit [keeps_intros]: "moves (\<lambda>s t. flight t = flight s) (emit c)"
  by (simp add: moves_def emit_def Let_def flight_def split: option.split)

lemma flight_metrics [keeps_intros]:
  "(\<And>M. mt_pack_in_flight (f M) = mt_pack_in_flight M) \<Longrightarrow> moves (\<lambda>s t. flight t = flight s) (gen_world (on_metrics f))"
  by (simp add: moves_def gen_world_def focus_def on_metrics_def flight_def)

lemma flight_reads [keeps_intros]: "moves (\<lambda>s t. flight t = flight s) (gen_world (run_reads S ns es))"
  using run_reads_flight [of S ns es] by (simp add: moves_def gen_world_def focus_def flight_def split_beta)

lemma flight_send_chunks: "moves (\<lambda>s t. flight t = flight s) (send_chunks limit cs streamed)"
proof (induction limit cs streamed rule: send_chunks.induct)
  case (1 limit streamed)
  show ?case unfolding send_chunks.simps by (rule flight_return)
next
  case (2 limit e cs streamed)
  show ?case unfolding send_chunks.simps by (rule flight_broken)
next
  case (3 limit c cs streamed)
  show ?case
  proof (cases "checked_add streamed (of_nat (length c))")
    case None
    then show ?thesis by (simp add: flight_broken)
  next
    case (Some n)
    with 3 [OF Some] show ?thesis
      by (simp add: flight_broken) (intro impI moves_bind keeps_preorder flight_metrics flight_emit; simp add: add_served_bytes_def)
  qed
qed

lemma flight_deliver: "moves (\<lambda>s t. flight t = flight s) (deliver x)"
proof -
  have served: "moves (\<lambda>s t. flight t = flight s) (gen_world (on_metrics blob_served))"
    "moves (\<lambda>s t. flight t = flight s) (gen_world (on_metrics inc_blob_hit))"
    by (rule flight_metrics; simp add: blob_served_def inc_blob_hit_def)+
  show ?thesis
    unfolding deliver_def
    by (intro moves_case_sum flight_broken)
      (auto split: prod.split intro!: moves_bind flight_emit flight_send_chunks flight_broken served)
qed

lemma flight_serve_entries: "moves (\<lambda>s t. flight t = flight s) (serve_entries S ns es q)"
proof (induction es arbitrary: q)
  case Nil
  show ?case unfolding serve_entries.simps by (rule flight_return)
next
  case (Cons e es)
  show ?case unfolding serve_entries.simps
    by (intro moves_bind keeps_preorder flight_reads flight_deliver Cons.IH)
qed

lemma flight_pack_body: "moves (\<lambda>s t. flight t = flight s) (pack_body S st)"
  unfolding pack_body_def
  by (intro moves_bind keeps_preorder flight_guard_calls flight_emit flight_serve_entries)

lemma drop_guard_flight: "in_flight (drop_guard g w) = in_flight w - (if pg_finished g then 0 else 1)"
  by (cases "w_ticks w") (simp_all add: drop_guard_def instant_now_def guard_drop_def guard_finish_def)

lemma run_pack_stream_flight:
  "run_pack_stream S st polls w = (items, v) \<Longrightarrow> in_flight v = in_flight w - (if pg_finished (ps_guard st) then 0 else 1)"
proof -
  assume run: "run_pack_stream S st polls w = (items, v)"
  let ?s = "\<lparr>ge_world = w, ge_guard = ps_guard st, ge_polls = polls, ge_sent = []\<rparr>"
  obtain r t where r: "(if polls = Some 0 then (Inl Cancelled, ?s) else pack_body S st ?s) = (r, t)" by fastforce
  then have "flight t = flight ?s"
    using moves_step [OF flight_pack_body, of S st ?s r t] by (auto split: if_splits)
  moreover have "v = drop_guard (ge_guard t) (ge_world t)"
    using run r by (auto simp: run_pack_stream_def Let_def)
  ultimately show ?thesis by (simp add: drop_guard_flight flight_def)
qed

definition accounts :: "('b, 'm, pack_stream reply) handler \<Rightarrow> bool" where
  "accounts m \<longleftrightarrow> (\<forall>w r v. m w = (r, v) \<longrightarrow>
     (case r of Inl _ \<Rightarrow> in_flight v = in_flight w
      | Inr rep \<Rightarrow> in_flight v = in_flight w + 1 \<and> \<not> pg_finished (ps_guard (rp_body rep))))"

lemma accounts_throw: "accounts (throwE e)"
  by (simp add: accounts_def)

lemma accounts_bind:
  assumes m: "moves (\<lambda>w v. in_flight v = in_flight w) m" and f: "\<And>x. accounts (f x)"
  shows "accounts (bindE m f)"
  unfolding accounts_def
proof (intro allI impI)
  fix w r v assume run: "bindE m f w = (r, v)"
  obtain q u where q: "m w = (q, u)" by fastforce
  have same: "in_flight u = in_flight w" using moves_step [OF m q] .
  show "case r of Inl _ \<Rightarrow> in_flight v = in_flight w
      | Inr rep \<Rightarrow> in_flight v = in_flight w + 1 \<and> \<not> pg_finished (ps_guard (rp_body rep))"
  proof (cases q)
    case (Inl e)
    with run q same show ?thesis by auto
  next
    case (Inr x)
    with run q have "f x u = (r, v)" by simp
    with f [of x] same show ?thesis unfolding accounts_def by metis
  qed
qed

lemma pack_blobs_accounts: "accounts (pack_blobs S headers ds)"
proof -
  have vfp: "moves (\<lambda>w v. in_flight v = in_flight w) (visible_for_pack S ns requested)" for ns requested
    unfolding visible_for_pack_def
    by (intro keeps_intros keeps_preorder) (simp_all add: observe_pack_metadata_query_def)
  have aut: "moves (\<lambda>w v. in_flight v = in_flight w) (authorized S headers Read)"
    unfolding authorized_def by (intro keeps_intros)
  have resp: "accounts (start_response S ns started requested sz found)" for ns started requested sz found
    by (auto simp: accounts_def start_response_def start_pack_def pack_reply_def drop_guard_flight split: sum.splits)
  show ?thesis
    unfolding pack_blobs_def
    by (intro accounts_bind in_flight_prims aut vfp resp)
      (auto intro!: accounts_bind accounts_throw in_flight_prims vfp resp moves_lift keeps_preorder split: prod.split)
qed

end
