(* ===== verification/Pack_Download_Spec.thy ===== *)
theory Pack_Download_Spec
  imports Pack_Delivery Blob_Spec
begin

text \<open>
  The properties of pack downloads: what a client may rely on, whether it reads the whole response or
  a part of it, and that every response leaves the in-flight gauge as it found it.
\<close>

context cache_server begin

lemma frame_sizes:
  assumes "\<forall>f \<in> set fs. content_matches S (fst f) (snd f)" and "\<forall>f \<in> set fs. digest_ok (sv_protocol S) (fst f)"
  shows "payload_total fs = sum_list (map (\<lambda>d. unat (d_size d)) (map fst fs))"
    and "length (encode_pack (sv_protocol S) fs)
      = 8 + 41 * length fs + sum_list (map (\<lambda>d. unat (d_size d)) (map fst fs))"
proof -
  have "payload_total fs = sum_list (map (\<lambda>d. unat (d_size d)) (map fst fs))
    \<and> length (concat (map (frame_bytes (sv_protocol S)) fs))
      = 41 * length fs + sum_list (map (\<lambda>d. unat (d_size d)) (map fst fs))"
    using assms
  proof (induction fs)
    case (Cons f fs)
    then have "length (snd f) = unat (d_size (fst f))" "length (frame_header (sv_protocol S) (fst f)) = 41"
      using length_frame_header [OF protocol, of "fst f"] protocol_sizes(2) [OF protocol]
      by (simp_all add: content_matches_def)
    with Cons show ?case by (simp add: payload_total_def frame_bytes_def)
  qed (simp add: payload_total_def)
  then show "payload_total fs = sum_list (map (\<lambda>d. unat (d_size d)) (map fst fs))"
    "length (encode_pack (sv_protocol S) fs)
      = 8 + 41 * length fs + sum_list (map (\<lambda>d. unat (d_size d)) (map fst fs))"
    using protocol_sizes(1) [OF protocol] by (simp_all add: encode_pack_def)
qed

lemma member_le_total: "d \<in> set ds \<Longrightarrow> unat (d_size d) \<le> sum_list (map (\<lambda>d. unat (d_size d)) ds)"
  by (induction ds) auto

lemma filtered_total:
  "sum_list (map (\<lambda>d. unat (d_size d)) (filter Q ds)) \<le> sum_list (map (\<lambda>d. unat (d_size d)) ds)"
  by (induction ds) auto

text \<open>The response, with the digests it sends and the numbers of its headers.\<close>

lemma pack_reply_run:
  assumes "world_ok w" and "pack_blobs S headers ds w = (Inr rep, v)"
  obtains ns sent where
    "access_allowed (sv_jwt S) (fst (w_auth w)) headers Read ns" "namespace_header S headers = Some ns"
    "distinct sent" "set sent = {d \<in> set ds. visible (w_metadata w) ns d}" "subseq sent ds"
    "\<forall>d \<in> set sent. digest_ok (sv_protocol S) d" "ps_entries (rp_body rep) = planned (sv_protocol S) sent"
    "sum_list (map (\<lambda>d. unat (d_size d)) sent) \<le> unat (sv_max_blob_bytes S)" "length sent \<le> max_batch_items (sv_protocol S)"
    "rp_status rep = 200"
    "rp_headers rep = [(''content-type'', wc_pack_media_type (sv_codec S)),
        (''content-length'', nat_to_string (8 + 41 * length sent + sum_list (map (\<lambda>d. unat (d_size d)) sent))),
        (wc_pack_blobs_header (sv_codec S), nat_to_string (length sent)),
        (wc_pack_bytes_header (sv_codec S), nat_to_string (sum_list (map (\<lambda>d. unat (d_size d)) sent)))]"
proof -
  obtain ns requested where
    a: "access_allowed (sv_jwt S) (fst (w_auth w)) headers Read ns" "namespace_header S headers = Some ns"
    and req: "distinct requested" "set requested = set ds" "subseq requested ds"
      "\<forall>d \<in> set requested. digest_ok (sv_protocol S) d"
      "sum_list (map (\<lambda>d. unat (d_size d)) requested) \<le> unat (sv_max_blob_bytes S)"
      "length ds \<le> max_batch_items (sv_protocol S)"
    and "\<exists>g p. rep = pack_reply S ns g p \<and> plan_pack (sv_protocol S) (filter (visible (w_metadata w) ns) requested) = Inr p"
    by (rule pack_blobs_run [OF assms]) (rule that; assumption)
  then obtain g p where rep: "rep = pack_reply S ns g p"
    and plan: "plan_pack (sv_protocol S) (filter (visible (w_metadata w) ns) requested) = Inr p" by (elim exE conjE)
  let ?sent = "filter (visible (w_metadata w) ns) requested"
  have ok: "\<forall>d \<in> set ?sent. digest_ok (sv_protocol S) d" using req(4) by auto
  note p = plan_pack_run [OF protocol plan ok]
  have sub: "subseq ?sent ds" using subseq_filter_left req(3) by (rule subseq_order.trans)
  have "length ?sent \<le> length ds" using sub by (rule list_emb_length)
  show thesis
  proof (rule that [of ns ?sent])
    show "sum_list (map (\<lambda>d. unat (d_size d)) ?sent) \<le> unat (sv_max_blob_bytes S)"
      using filtered_total req(5) by (rule order_trans)
    show "length ?sent \<le> max_batch_items (sv_protocol S)" using \<open>length ?sent \<le> length ds\<close> req(6) by simp
  qed (use a req sub ok p rep in \<open>auto simp: pack_reply_def planned_def\<close>)
qed

end

section \<open>A sample response\<close>

definition sample_plan :: pack_plan where
  "sample_plan = \<lparr>pp_entries = [(frame_header reference_protocol sample_blake, sample_blake)],
     pp_bytes = 51, pp_payload_bytes = 2\<rparr>"

lemma sample_magic: "length (blob_pack_magic reference_protocol) = 8"
  by (simp add: reference_protocol_def)

lemma sample_header_bytes: "blob_pack_header_bytes reference_protocol = 41"
  by (simp add: reference_protocol_def)

lemma sample_plan_pack: "plan_pack reference_protocol [sample_blake] = Inr sample_plan"
  using pack_blob_header_ok [OF reference_protocol_ok sample_blake_ok]
  by (simp add: plan_pack_def plan_entry_def sample_plan_def sample_magic sample_header_bytes sample_size_2 checked_add_def)

lemma sample_pack_blobs:
  "\<exists>g v. pack_blobs sample_server put_headers [sample_blake] uploaded_world
    = (Inr (pack_reply sample_server ''team/app'' g sample_plan), v)"
proof -
  have ticks: "w_ticks uploaded_world = []" "w_now uploaded_world = 0" by (simp_all add: uploaded_world_def sample_world_def)
  have auth: "authorized sample_server put_headers Read uploaded_world = (Inr ''team/app'', uploaded_world)"
    by (rule sample_authorized) (simp add: uploaded_world_def sample_world_def)
  have now: "instant_now uploaded_world = (Inr 0, uploaded_world)" by (simp add: instant_now_def ticks)
  have scan: "scan_requested reference_protocol 1024 [sample_blake] [] 0 = Inr ([sample_blake], 2)"
    using sample_blake_ok by (simp add: validate_digest_def sample_size_2 checked_add_def)
  have batch: "length [sample_blake] \<le> max_batch_items reference_protocol" by (simp add: reference_protocol_def)
  have vis: "visible_for_pack sample_server ''team/app'' [sample_blake] uploaded_world
      = (Inr [sample_blake], uploaded_world\<lparr>w_metrics := observe_pack_metadata_query ''success'' 0 (w_metrics uploaded_world)\<rparr>)"
    by (simp add: visible_for_pack_def now handleE_def on_metadata_def focus_def memory_store_def mem_visible_blobs_def
        uploaded_world_def on_metrics_def instant_now_def sample_world_def)
  show ?thesis
    using batch by (simp add: pack_blobs_def now auth scan vis on_pending_def start_response_def start_pack_def
        sample_plan_pack del: scan_requested.simps) blast
qed

text \<open>Running the stream in a calm world, one operation after the other.\<close>

definition calm :: "(fs, memory_metadata) pack_gen \<Rightarrow> bytes list \<Rightarrow> bool" where
  "calm s sent \<longleftrightarrow> w_blobs (ge_world s) = uploaded_fs \<and> w_ticks (ge_world s) = [] \<and> ge_polls s = None \<and> ge_sent s = sent"

lemma calm_guard_op: "calm s sent \<Longrightarrow> \<exists>t. guard_op f s = (Inr (), t) \<and> calm t sent"
  by (cases "f (w_now (ge_world s)) (ge_guard s, w_metrics (ge_world s))")
    (simp add: calm_def guard_op_def gen_world_def focus_def instant_now_def bindE_def)

lemma calm_emit: "calm s sent \<Longrightarrow> \<exists>t. emit c s = (Inr (), t) \<and> calm t (sent @ [c])"
  by (simp add: calm_def emit_def)

lemma calm_metrics: "calm s sent \<Longrightarrow> \<exists>t. gen_world (on_metrics f) s = (Inr (), t) \<and> calm t sent"
  by (simp add: calm_def gen_world_def focus_def on_metrics_def)

lemma sample_fs_get: "fs_get reference_protocol sample_store sample_blake uploaded_fs
    = (Inr (Some \<lparr>bl_size = 2, bl_stream = [Inr [170, 170]]\<rparr>), uploaded_fs)"
proof -
  have "chunks_of 4096 ([] :: bytes) = []" by (subst chunks_of.simps) simp
  then have "chunks_of 4096 [170, 170 :: u8] = [[170, 170]]" by (subst chunks_of.simps) simp
  then show ?thesis
    by (simp add: fs_get_def sample_blob_path [folded sample_store_def] io_def quiet_def uploaded_fs_def fs_stream_def
        bindE_def)
qed

lemma calm_reads:
  assumes "calm s sent"
  shows "\<exists>t. gen_world (run_reads sample_server ns [(h, sample_blake)]) s
      = (Inr [Inr (h, \<lparr>bl_size = 2, bl_stream = [Inr [170, 170]]\<rparr>)], t) \<and> calm t sent"
  using assms by (simp add: calm_def gen_world_def focus_def read_entry_def instant_now_def handleE_def on_blobs_def
      filesystem_blob_store_def sample_fs_get read_outcome_def on_metrics_def sample_size_2)

lemma calm_chunks:
  assumes "calm s sent"
  shows "\<exists>t. send_chunks 2 [Inr [170, 170]] 0 s = (Inr 2, t) \<and> calm t (sent @ [[170, 170]])"
proof -
  obtain t where t: "gen_world (on_metrics (add_served_bytes 2)) s = (Inr (), t)" "calm t sent"
    using calm_metrics [OF assms] by blast
  obtain u where u: "emit [170, 170] t = (Inr (), u)" "calm u (sent @ [[170, 170]])"
    using calm_emit [OF t(2)] by blast
  show ?thesis using t u by (simp add: checked_add_def)
qed

lemma calm_deliver:
  assumes "calm s sent"
  shows "\<exists>t. deliver (Inr (h, \<lparr>bl_size = 2, bl_stream = [Inr [170, 170]]\<rparr>)) s = (Inr (), t)
    \<and> calm t (sent @ [h, [170, 170]])"
proof -
  obtain t where t: "emit h s = (Inr (), t)" "calm t (sent @ [h])" using calm_emit [OF assms] by blast
  obtain u where u: "send_chunks 2 [Inr [170, 170]] 0 t = (Inr 2, u)" "calm u (sent @ [h, [170, 170]])"
    using calm_chunks [OF t(2)] by auto
  obtain v where v: "gen_world (on_metrics blob_served) u = (Inr (), v)" "calm v (sent @ [h, [170, 170]])"
    using calm_metrics [OF u(2)] by blast
  obtain x where x: "gen_world (on_metrics inc_blob_hit) v = (Inr (), x)" "calm x (sent @ [h, [170, 170]])"
    using calm_metrics [OF v(2)] by blast
  show ?thesis using t u v x by (simp add: deliver_def del: send_chunks.simps)
qed

lemma sample_stream:
  assumes "w_blobs u = uploaded_fs" and "w_ticks u = []"
  shows "\<exists>u'. run_pack_stream sample_server \<lparr>ps_guard = g, ps_namespace = ns, ps_entries = [(h, sample_blake)]\<rparr> None u
    = (map Inr [blob_pack_magic reference_protocol, h, [170, 170]], u')"
proof -
  let ?m = "blob_pack_magic reference_protocol"
  have "calm \<lparr>ge_world = u, ge_guard = g, ge_polls = None, ge_sent = []\<rparr> []" using assms by (simp add: calm_def)
  then obtain s1 where s1: "guard_op record_first_byte \<lparr>ge_world = u, ge_guard = g, ge_polls = None, ge_sent = []\<rparr>
      = (Inr (), s1)" "calm s1 []" using calm_guard_op by blast
  obtain s2 where s2: "emit ?m s1 = (Inr (), s2)" "calm s2 [?m]" using calm_emit [OF s1(2)] by auto
  obtain s3 where s3: "gen_world (run_reads sample_server ns [(h, sample_blake)]) s2
      = (Inr [Inr (h, \<lparr>bl_size = 2, bl_stream = [Inr [170, 170]]\<rparr>)], s3)" "calm s3 [?m]"
    using calm_reads [OF s2(2)] by blast
  obtain s4 where s4: "deliver (Inr (h, \<lparr>bl_size = 2, bl_stream = [Inr [170, 170]]\<rparr>)) s3 = (Inr (), s4)"
    "calm s4 [?m, h, [170, 170]]" using calm_deliver [OF s3(2)] by auto
  obtain s5 where s5: "guard_op guard_complete s4 = (Inr (), s5)" "calm s5 [?m, h, [170, 170]]"
    using calm_guard_op [OF s4(2)] by blast
  have "serve_entries sample_server ns [(h, sample_blake)] [] s2 = (Inr (), s4)"
    using s3(1) s4(1) by (simp add: max_pack_storage_reads_def del: run_reads.simps)
  then show ?thesis
    using s1(1) s2(1) s5 by (simp add: run_pack_stream_def pack_body_def calm_def del: serve_entries.simps)
qed

lemma sample_run:
  "\<exists>u'. run_pack_stream sample_server (rp_body (pack_reply sample_server ''team/app'' g sample_plan)) None uploaded_world
    = (map Inr [blob_pack_magic reference_protocol, frame_header reference_protocol sample_blake, [170, 170]], u')"
proof -
  have "w_blobs uploaded_world = uploaded_fs" "w_ticks uploaded_world = []"
    by (simp_all add: uploaded_world_def sample_world_def)
  from sample_stream [OF this, of g "''team/app''" "frame_header reference_protocol sample_blake"]
  show ?thesis by (simp add: pack_reply_def sample_plan_def)
qed

section \<open>Properties of pack downloads\<close>

text \<open>
  C38. A pack response never carries a wrong byte. The client may read the namespace; the blobs sent are
  the requested ones the namespace listed, each once and in request order; and whatever happens while
  the response is streamed - failing reads, a client that goes away, other requests in between - what
  was delivered is the beginning of the pack of frames whose payloads hash to their digests. A client
  that reads on and sees no error has received all of it.
\<close>

theorem pack_download_safe:
  assumes "cache_server S bok held mok visible result manifest" and "bok (w_blobs w)" and "mok (w_metadata w)"
    and "pack_blobs S headers ds w = (Inr rep, v)" and "bok (w_blobs u)" and "mok (w_metadata u)"
    and "run_pack_stream S (rp_body rep) polls u = (items, u')"
  shows "\<exists>ns sent fs. access_allowed (sv_jwt S) (fst (w_auth w)) headers Read ns
    \<and> distinct sent \<and> set sent = {d \<in> set ds. visible (w_metadata w) ns d} \<and> subseq sent ds
    \<and> prefix (map fst fs) sent \<and> (\<forall>f \<in> set fs. content_matches S (fst f) (snd f))
    \<and> prefix (delivered items) (encode_pack (sv_protocol S) fs)
    \<and> (polls = None \<and> completes items \<longrightarrow> map fst fs = sent \<and> delivered items = encode_pack (sv_protocol S) fs)"
proof -
  have w: "cache_server.world_ok bok mok w" and u: "cache_server.world_ok bok mok u"
    using assms(2,3,5,6) by (simp_all add: cache_server.world_ok_def [OF assms(1)])
  obtain ns sent where
    a: "access_allowed (sv_jwt S) (fst (w_auth w)) headers Read ns"
    and sent: "distinct sent" "set sent = {d \<in> set ds. visible (w_metadata w) ns d}" "subseq sent ds"
      "\<forall>d \<in> set sent. digest_ok (sv_protocol S) d" "ps_entries (rp_body rep) = planned (sv_protocol S) sent"
    by (rule cache_server.pack_reply_run [OF assms(1) w assms(4)]) (rule that; assumption)
  from cache_server.pack_stream_run(2) [OF assms(1) u sent(4,5) assms(7)] a sent(1-3)
  show ?thesis unfolding cache_server.frames_good_def [OF assms(1)] by blast
qed

theorem pack_download_safe_witness:
  "\<exists>g fs. fst (run_pack_stream sample_server
      (rp_body (pack_reply sample_server ''team/app'' g sample_plan)) None uploaded_world) \<noteq> []
    \<and> (\<forall>f \<in> set fs. content_matches sample_server (fst f) (snd f)) \<and> map fst fs = [sample_blake]"
proof -
  obtain g v where run: "pack_blobs sample_server put_headers [sample_blake] uploaded_world
      = (Inr (pack_reply sample_server ''team/app'' g sample_plan), v)" using sample_pack_blobs by blast
  obtain u' where s: "run_pack_stream sample_server (rp_body (pack_reply sample_server ''team/app'' g sample_plan)) None
      uploaded_world = (map Inr [blob_pack_magic reference_protocol, frame_header reference_protocol sample_blake, [170, 170]], u')"
    using sample_run by blast
  obtain ns sent fs where "set sent = {d \<in> set [sample_blake]. memory_visible (w_metadata uploaded_world) ns d}"
    "distinct sent" "map fst fs = sent" "\<forall>f \<in> set fs. content_matches sample_server (fst f) (snd f)"
    "delivered (map Inr [blob_pack_magic reference_protocol, frame_header reference_protocol sample_blake, [170, 170]])
      = encode_pack (sv_protocol sample_server) fs"
    using pack_download_safe [OF sample_contract uploaded_world_ok run uploaded_world_ok s] by (auto simp: completes_def)
  moreover from this(5) have "fs \<noteq> []" by (auto simp: encode_pack_def)
  ultimately have "set sent \<subseteq> {sample_blake}" "distinct sent" "sent \<noteq> []" by auto
  then have "sent = [sample_blake]" by (cases sent; cases "tl sent") auto
  with \<open>map fst fs = sent\<close> \<open>\<forall>f \<in> set fs. content_matches sample_server (fst f) (snd f)\<close> s show ?thesis
    by (intro exI [of _ g] exI [of _ fs]) simp
qed

text \<open>
  C39. A pack download can be uploaded again: the headers announce exactly the length of the pack, its
  number of blobs and its payload bytes, and a pack reader limited to what they announce reads every
  complete response back, however it is cut into chunks, as one verified frame for each blob sent.
\<close>

theorem pack_download_reads_back:
  assumes "cache_server S bok held mok visible result manifest" and "bok (w_blobs w)" and "mok (w_metadata w)"
    and "pack_blobs S headers ds w = (Inr rep, v)" and "bok (w_blobs u)" and "mok (w_metadata u)"
    and "run_pack_stream S (rp_body rep) None u = (items, u')" and "completes items"
    and "unat (sv_max_blob_bytes S) < 2 ^ 63" and "max_batch_items (sv_protocol S) < 2 ^ 63" and "concat cs = delivered items"
  shows "\<exists>fs n bytes evs. rp_headers rep = [(''content-type'', wc_pack_media_type (sv_codec S)),
        (''content-length'', nat_to_string (length (delivered items))),
        (wc_pack_blobs_header (sv_codec S), nat_to_string (unat n)),
        (wc_pack_bytes_header (sv_codec S), nat_to_string (unat bytes))]
    \<and> read_pack (sv_protocol S) (new_reader (sv_max_blob_bytes S) n bytes) cs = Inr evs
    \<and> collect None evs = Some (fs, None) \<and> length fs = unat n \<and> payload_total fs = unat bytes
    \<and> (\<forall>f \<in> set fs. content_matches S (fst f) (snd f)) \<and> subseq (map fst fs) ds"
proof -
  let ?P = "sv_protocol S"
  have w: "cache_server.world_ok bok mok w" and u: "cache_server.world_ok bok mok u"
    using assms(2,3,5,6) by (simp_all add: cache_server.world_ok_def [OF assms(1)])
  have P: "protocol_ok ?P" using assms(1) by (rule cache_server.protocol)
  obtain sent where
    sent: "subseq sent ds" "\<forall>d \<in> set sent. digest_ok ?P d" "ps_entries (rp_body rep) = planned ?P sent"
      "sum_list (map (\<lambda>d. unat (d_size d)) sent) \<le> unat (sv_max_blob_bytes S)" "length sent \<le> max_batch_items ?P"
    and hs: "rp_headers rep = [(''content-type'', wc_pack_media_type (sv_codec S)),
        (''content-length'', nat_to_string (8 + 41 * length sent + sum_list (map (\<lambda>d. unat (d_size d)) sent))),
        (wc_pack_blobs_header (sv_codec S), nat_to_string (length sent)),
        (wc_pack_bytes_header (sv_codec S), nat_to_string (sum_list (map (\<lambda>d. unat (d_size d)) sent)))]"
    by (rule cache_server.pack_reply_run [OF assms(1) w assms(4)]) (rule that; assumption)
  from cache_server.pack_stream_run(2) [OF assms(1) u sent(2,3) assms(7)] assms(8) obtain fs where
    fs: "map fst fs = sent" "\<forall>f \<in> set fs. content_matches S (fst f) (snd f)" "delivered items = encode_pack ?P fs"
    unfolding cache_server.frames_good_def [OF assms(1)] by blast
  have ok: "\<forall>f \<in> set fs. digest_ok ?P (fst f)" using sent(2) unfolding fs(1) [symmetric] by simp
  note sizes = cache_server.frame_sizes [OF assms(1) fs(2) ok]
  define n :: u64 where "n = of_nat (length sent)"
  define bytes :: u64 where "bytes = of_nat (sum_list (map (\<lambda>d. unat (d_size d)) sent))"
  have un: "unat n = length sent" unfolding n_def using sent(5) assms(10) by (intro unat_u64_of_nat) simp
  have ub: "unat bytes = sum_list (map (\<lambda>d. unat (d_size d)) sent)"
    unfolding bytes_def using sent(4) assms(9) by (intro unat_u64_of_nat) simp
  have len: "length fs = length sent" using fs(1) by (metis length_map)
  have limits: "limits_ok (sv_max_blob_bytes S) n bytes"
    using assms(9,10) sent(4,5) by (simp add: limits_ok_def un ub)
  have "frame_valid ?P (sv_max_blob_bytes S) f" if "f \<in> set fs" for f
  proof -
    have "fst f \<in> set sent" using that fs(1) by auto
    from cache_server.member_le_total [OF assms(1) this] sent(4) have "d_size (fst f) \<le> sv_max_blob_bytes S"
      by (simp add: word_le_nat_alt)
    with that ok fs(2) show ?thesis by (simp add: frame_valid_def content_matches_def)
  qed
  then have "frames_within ?P (sv_max_blob_bytes S) n bytes fs"
    using len sizes(1) fs(1) by (simp add: frames_within_def list_all_iff un ub)
  with push_complete [OF P limits] obtain evs r' where p: "push ?P (new_reader (sv_max_blob_bytes S) n bytes) (concat cs) = Inr (evs, r')"
    "collect None evs = Some (fs, None)" "finish r' = Inr ()" using fs(3) assms(11) by metis
  from push_all_as_push(3) [OF P reader_ok_new [OF P limits] p(1)] p(2,3) obtain evs' where
    "read_pack ?P (new_reader (sv_max_blob_bytes S) n bytes) cs = Inr evs'" "collect None evs' = Some (fs, None)"
    by (auto simp: read_pack_def)
  moreover have "length (delivered items) = 8 + 41 * length sent + sum_list (map (\<lambda>d. unat (d_size d)) sent)"
    using sizes(2) fs(1,3) len by simp
  ultimately show ?thesis using hs un ub len sizes(1) fs(1,2) sent(1)
    by (intro exI [of _ fs] exI [of _ n] exI [of _ bytes] exI [of _ evs']) simp
qed

theorem pack_download_reads_back_witness:
  "\<exists>fs n bytes evs. read_pack reference_protocol (new_reader 1024 n bytes)
      [blob_pack_magic reference_protocol, frame_header reference_protocol sample_blake, [170, 170]] = Inr evs
    \<and> collect None evs = Some (fs, None) \<and> (\<forall>f \<in> set fs. content_matches sample_server (fst f) (snd f))"
proof -
  let ?cs = "[blob_pack_magic reference_protocol, frame_header reference_protocol sample_blake, [170, 170]]"
  obtain g v where run: "pack_blobs sample_server put_headers [sample_blake] uploaded_world
      = (Inr (pack_reply sample_server ''team/app'' g sample_plan), v)" using sample_pack_blobs by blast
  obtain u' where s: "run_pack_stream sample_server (rp_body (pack_reply sample_server ''team/app'' g sample_plan)) None
      uploaded_world = (map Inr ?cs, u')" using sample_run by blast
  have "completes (map Inr ?cs :: (io_error + bytes) list)" by (simp add: completes_def)
  moreover have "unat (sv_max_blob_bytes sample_server) < 2 ^ 63" by simp
  moreover have "max_batch_items (sv_protocol sample_server) < 2 ^ 63" by (simp add: reference_protocol_def)
  moreover have "concat ?cs = delivered (map Inr ?cs :: (io_error + bytes) list)" by simp
  ultimately have "\<exists>fs n bytes evs. read_pack (sv_protocol sample_server) (new_reader (sv_max_blob_bytes sample_server) n bytes) ?cs = Inr evs
    \<and> collect None evs = Some (fs, None) \<and> (\<forall>f \<in> set fs. content_matches sample_server (fst f) (snd f))"
    using pack_download_reads_back [OF sample_contract uploaded_world_ok run uploaded_world_ok s] by blast
  then show ?thesis by simp
qed

text \<open>
  C40. The in-flight gauge is balanced: a pack request that is refused leaves it as it was, an accepted
  one raises it by one, and the end of its stream - complete, broken or abandoned after any number of
  chunks - lowers it by one again, whatever other requests did to it in between.
\<close>

theorem pack_flight_balanced:
  "case pack_blobs S headers ds w of
     (Inl e, v) \<Rightarrow> in_flight v = in_flight w
   | (Inr rep, v) \<Rightarrow> in_flight v = in_flight w + 1
       \<and> in_flight (snd (run_pack_stream S (rp_body rep) polls u)) = in_flight u - 1"
proof -
  obtain r v where r: "pack_blobs S headers ds w = (r, v)" by fastforce
  have acc: "case r of Inl _ \<Rightarrow> in_flight v = in_flight w
      | Inr rep \<Rightarrow> in_flight v = in_flight w + 1 \<and> \<not> pg_finished (ps_guard (rp_body rep))"
    using pack_blobs_accounts [of S headers ds] r unfolding accounts_def by blast
  show ?thesis
  proof (cases r)
    case (Inl e)
    with r acc show ?thesis by simp
  next
    case (Inr rep)
    obtain items u' where s: "run_pack_stream S (rp_body rep) polls u = (items, u')" by fastforce
    from run_pack_stream_flight [OF s] acc Inr r s show ?thesis by simp
  qed
qed

end
