(* ===== verification/Directory_Tree.thy ===== *)
theory Directory_Tree
  imports Server
begin

text \<open>
  \<open>src/server.rs\<close>: the checks of an output tree before an action result names it. \<open>validate_tree\<close> walks
  the directory objects depth first with an explicit stack of visits; a directory is being visited
  between its \<open>Enter\<close> and its \<open>Exit\<close> and seen from then on. The walk is a total function: its
  termination proof is the one of the loop. The stack's top is the head of the list; the sets are
  lists without repetitions.
\<close>

section \<open>Required blobs\<close>

definition require_blob :: "('b, 'm, 'h) server \<Rightarrow> string \<Rightarrow> digest \<Rightarrow> string \<Rightarrow> ('b, 'm, unit) handler" where
  "require_blob S namespace d label =
     bindE (liftE (validate_digest (sv_protocol S) d)) (\<lambda>_.
     bindE (visible_in S namespace d) (\<lambda>visible.
     if visible then returnE () else throwE (unprocessable (label @ '' is missing''))))"

text \<open>A stored object of up to 16 MiB, read as a whole, or the error of a missing one.\<close>

definition max_object_bytes :: u64 where "max_object_bytes = 16 * 1024 * 1024"

definition read_object :: "('b, 'm, 'h) server \<Rightarrow> string \<Rightarrow> digest \<Rightarrow> api_error \<Rightarrow> ('b, 'm, bytes) handler" where
  "read_object S namespace d missing =
     bindE (visible_in S namespace d) (\<lambda>visible.
     if \<not> visible then throwE missing
     else
       bindE (get_stored S d) (\<lambda>found.
       case found of
         None \<Rightarrow> bindE (forget_missing_blob S namespace d) (\<lambda>_. throwE missing)
       | Some b \<Rightarrow> liftE (map_err (\<lambda>e. internal (OtherError e)) (read_stream (bl_stream b) []))))"

section \<open>The entries of a directory\<close>

definition validate_entry :: "string \<Rightarrow> u32 \<Rightarrow> string list \<Rightarrow> api_error + string list" where
  "validate_entry name mode names =
     (if name = [] \<or> name = ''.'' \<or> name = ''..''
        \<or> CHR ''/'' \<in> set name \<or> backslash \<in> set name \<or> nul \<in> set name \<or> mode > 4095
      then Inl (unprocessable ''invalid directory entry'')
      else if name \<in> set names then Inl (unprocessable ''duplicate directory entry'')
      else Inr (name # names))"

definition validate_directory_entries :: "directory \<Rightarrow> api_error + unit" where
  "validate_directory_entries dir =
     bind_r (fold_r (\<lambda>n. validate_entry (dn_name n) (dn_mode n)) (dir_directories dir) []) (\<lambda>names.
     bind_r (fold_r (\<lambda>n. validate_entry (fn_name n) (fn_mode n)) (dir_files dir) names) (\<lambda>names.
     bind_r (fold_r (\<lambda>n names. bind_r (validate_entry (sn_name n) (sn_mode n) names) (\<lambda>names.
         if sn_target n = [] \<or> nul \<in> set (sn_target n) then Inl (unprocessable ''invalid symlink target'')
         else Inr names)) (dir_symlinks dir) names) (\<lambda>_.
     Inr ())))"

text \<open>The digests of the files, validated, without repetitions.\<close>

fun file_digests :: "protocol \<Rightarrow> file_node list \<Rightarrow> digest list \<Rightarrow> api_error + digest list" where
  "file_digests P [] files = Inr files"
| "file_digests P (n # ns) files =
     bind_r (validate_digest P (fn_digest n)) (\<lambda>_. file_digests P ns (List.insert (fn_digest n) files))"

section \<open>One directory object\<close>

definition decode_directory :: "wire_codec \<Rightarrow> bytes \<Rightarrow> api_error + directory" where
  "decode_directory C bs =
     bind_r (map_err (\<lambda>_. unprocessable ''directory object is invalid'') (wc_directory_from_slice C bs)) (\<lambda>dir.
     bind_r (map_err (\<lambda>e. internal (OtherError e)) (wc_directory_to_vec C dir)) (\<lambda>canonical.
     if canonical \<noteq> bs then Inl (unprocessable ''directory object is not canonical JSON'')
     else if dir_version dir \<noteq> 1 then Inl (unprocessable ''unsupported directory object version'')
     else bind_r (validate_directory_entries dir) (\<lambda>_. Inr dir)))"

definition require_files :: "('b, 'm, 'h) server \<Rightarrow> string \<Rightarrow> directory \<Rightarrow> ('b, 'm, unit) handler" where
  "require_files S namespace dir =
     bindE (liftE (file_digests (sv_protocol S) (dir_files dir) [])) (\<lambda>files.
     bindE (internalE (on_metadata (ms_visible_blobs (sv_metadata S) namespace files))) (\<lambda>visible.
     if length visible \<noteq> length files then throwE (unprocessable ''file blob is missing'')
     else returnE ()))"

definition read_directory :: "('b, 'm, 'h) server \<Rightarrow> string \<Rightarrow> digest \<Rightarrow> ('b, 'm, directory) handler" where
  "read_directory S namespace d =
     (if d_size d > max_object_bytes then throwE (unprocessable ''directory object is too large'')
      else
        bindE (read_object S namespace d (unprocessable ''directory object is missing'')) (\<lambda>bs.
        bindE (liftE (decode_directory (sv_codec S) bs)) (\<lambda>dir.
        bindE (require_files S namespace dir) (\<lambda>_.
        returnE dir))))"

section \<open>The walk\<close>

datatype visit = Enter digest | Exit digest

record walk =
  wk_pending :: "visit list"
  wk_visiting :: "digest list"
  wk_seen :: "digest list"

definition max_tree_directories :: nat where "max_tree_directories = 100000"

definition visit_step :: "('b, 'm, 'h) server \<Rightarrow> string \<Rightarrow> visit \<Rightarrow> walk \<Rightarrow> ('b, 'm, walk) handler" where
  "visit_step S namespace v k =
     (case v of
        Exit d \<Rightarrow> returnE (k\<lparr>wk_visiting := removeAll d (wk_visiting k), wk_seen := List.insert d (wk_seen k)\<rparr>)
      | Enter d \<Rightarrow>
          if d \<in> set (wk_seen k) then returnE k
          else if d \<in> set (wk_visiting k) then throwE (unprocessable ''directory graph contains a cycle'')
          else if length (wk_seen k) + length (d # wk_visiting k) > max_tree_directories
          then throwE (unprocessable ''directory graph is too large'')
          else
            bindE (read_directory S namespace d) (\<lambda>dir.
            returnE (k\<lparr>wk_visiting := d # wk_visiting k,
              wk_pending := rev (map (\<lambda>n. Enter (dn_digest n)) (dir_directories dir)) @ Exit d # wk_pending k\<rparr>)))"

text \<open>
  The loop ends: a visit either shortens the stack and forgets no directory, or adds a directory, of
  which there are at most \<open>max_tree_directories\<close>.
\<close>

definition walked :: "walk \<Rightarrow> digest set" where
  "walked k = set (wk_visiting k) \<union> set (wk_seen k)"

lemma visit_step_progress:
  assumes "wk_pending k = v # vs" and "visit_step S ns v (k\<lparr>wk_pending := vs\<rparr>) w = (Inr k', w')"
  shows "max_tree_directories - card (walked k') < max_tree_directories - card (walked k)
    \<or> max_tree_directories - card (walked k') = max_tree_directories - card (walked k)
      \<and> length (wk_pending k') < length (wk_pending k)"
proof (cases v)
  case (Exit d)
  then have k': "wk_pending k' = vs" "walked k' = insert d (walked k)"
    using assms(2) by (auto simp: visit_step_def walked_def)
  have "card (walked k) \<le> card (walked k')" unfolding k'(2) by (simp add: card_insert_le walked_def)
  with k'(1) assms(1) show ?thesis by auto
next
  case (Enter d)
  show ?thesis
  proof (cases "d \<in> set (wk_seen k)")
    case True
    then have "k' = k\<lparr>wk_pending := vs\<rparr>" using Enter assms(2) by (simp add: visit_step_def)
    with assms(1) show ?thesis by (simp add: walked_def)
  next
    case False
    with Enter assms(2) have small: "d \<notin> set (wk_visiting k)"
      "length (wk_seen k) + length (wk_visiting k) < max_tree_directories"
      and vis: "wk_visiting k' = d # wk_visiting k" "wk_seen k' = wk_seen k"
      by (auto simp: visit_step_def result_simps split: if_splits)
    have "card (walked k) \<le> card (set (wk_visiting k)) + card (set (wk_seen k))"
      by (simp add: walked_def card_Un_le)
    also have "\<dots> \<le> length (wk_visiting k) + length (wk_seen k)"
      using card_length [of "wk_visiting k"] card_length [of "wk_seen k"] by simp
    finally have "card (walked k) < max_tree_directories" using small(2) by simp
    moreover have "card (walked k') = card (walked k) + 1"
      using False small(1) by (simp add: walked_def vis)
    ultimately show ?thesis by linarith
  qed
qed

function walk_tree :: "('b, 'm, 'h) server \<Rightarrow> string \<Rightarrow> walk \<Rightarrow> ('b, 'm, unit) handler" where
  "walk_tree S namespace k w =
     (case wk_pending k of
        [] \<Rightarrow> (Inr (), w)
      | v # vs \<Rightarrow>
          (case visit_step S namespace v (k\<lparr>wk_pending := vs\<rparr>) w of
             (Inl e, w') \<Rightarrow> (Inl e, w')
           | (Inr k', w') \<Rightarrow> walk_tree S namespace k' w'))"
  by pat_completeness auto
termination
proof (relation "measures [\<lambda>(S, ns, k, w). max_tree_directories - card (walked k), \<lambda>(S, ns, k, w). length (wk_pending k)]",
    goal_cases)
  case 1
  show ?case by simp
next
  case (2 S ns k w v vs r w' k')
  then have "visit_step S ns v (k\<lparr>wk_pending := vs\<rparr>) w = (Inr k', w')" by simp
  from visit_step_progress [OF 2(1) this] show ?case by auto
qed

declare walk_tree.simps [simp del]

definition validate_tree :: "('b, 'm, 'h) server \<Rightarrow> string \<Rightarrow> digest \<Rightarrow> ('b, 'm, unit) handler" where
  "validate_tree S namespace root =
     walk_tree S namespace \<lparr>wk_pending = [Enter root], wk_visiting = [], wk_seen = []\<rparr>"

end
