(* ===== verification/Action_Results.thy ===== *)
theory Action_Results
  imports Directory_Tree
begin

text \<open>
  \<open>src/server.rs\<close>: committing an action result. The action's descriptor and the client's metadata are
  stored objects: they are read back, must be canonical JSON, and are checked against the schema of
  their kind; the output tree is walked; only then the result is committed. Deserialising a JSON value
  into a record is derived code (\<open>serde\<close>) and a field of the wire codec.
\<close>

section \<open>Canonical objects\<close>

definition json_as_str :: "json option \<Rightarrow> string option" where
  "json_as_str v = (case v of Some (JString s) \<Rightarrow> Some s | _ \<Rightarrow> None)"

definition json_as_u64 :: "json option \<Rightarrow> u64 option" where
  "json_as_u64 v = (case v of Some (JNumber (PosInt n)) \<Rightarrow> Some n | _ \<Rightarrow> None)"

definition json_is_object :: "json \<Rightarrow> bool" where
  "json_is_object v \<longleftrightarrow> (case v of JObject _ \<Rightarrow> True | _ \<Rightarrow> False)"

definition decode_object :: "wire_codec \<Rightarrow> string \<Rightarrow> bytes \<Rightarrow> api_error + json" where
  "decode_object C label bs =
     bind_r (map_err (\<lambda>_. unprocessable (label @ '' is invalid JSON'')) (wc_json_from_slice C bs)) (\<lambda>v.
     if \<not> json_is_object v then Inl (unprocessable (label @ '' is not canonical JSON''))
     else
       bind_r (map_err (\<lambda>e. internal (OtherError e)) (wc_json_to_vec C v)) (\<lambda>canonical.
       if canonical \<noteq> bs then Inl (unprocessable (label @ '' is not canonical JSON'')) else Inr v))"

definition read_canonical_object :: "('b, 'm, 'h) server \<Rightarrow> string \<Rightarrow> digest \<Rightarrow> string \<Rightarrow> ('b, 'm, json) handler" where
  "read_canonical_object S namespace d label =
     bindE (liftE (validate_digest (sv_protocol S) d)) (\<lambda>_.
     if d_size d > max_object_bytes then throwE (unprocessable (label @ '' is too large''))
     else
       bindE (read_object S namespace d (unprocessable (label @ '' blob is missing''))) (\<lambda>bs.
       liftE (decode_object (sv_codec S) label bs)))"

section \<open>Action descriptors\<close>

datatype action_kind = BuildScriptKind | CcKind | RustcKind | TaskKind

definition validate_build_script_action :: "protocol \<Rightarrow> wire_codec \<Rightarrow> json \<Rightarrow> u64 \<Rightarrow> api_error + action_kind" where
  "validate_build_script_action P C v version =
     (if \<not> (unat version < 256 \<and> ucast version \<in> set build_script_action_schemas)
      then Inl (unprocessable (''unsupported build-script action schema '' @ nat_to_string (unat version)))
      else
        bind_r (map_err (\<lambda>e. unprocessable (''invalid build-script action: '' @ e)) (wc_build_script_action C v)) (\<lambda>a.
        if \<not> build_script_action_validate P a then Inl (unprocessable ''invalid build-script action values'')
        else Inr BuildScriptKind))"

definition validate_cc_action :: "protocol \<Rightarrow> wire_codec \<Rightarrow> json \<Rightarrow> u64 \<Rightarrow> api_error + action_kind" where
  "validate_cc_action P C v version =
     (if version \<noteq> 1 then Inl (unprocessable (''unsupported cc action schema '' @ nat_to_string (unat version)))
      else
        bind_r (map_err (\<lambda>e. unprocessable (''invalid cc action: '' @ e)) (wc_cc_action C v)) (\<lambda>a.
        if \<not> cc_action_validate P a then Inl (unprocessable ''invalid cc action values'') else Inr CcKind))"

definition task_action_fields :: "string list" where
  "task_action_fields = [''version'', ''kind'', ''task'', ''phase'', ''run'', ''args'', ''shell'', ''outputs'',
     ''root'', ''source_hash'', ''environment'', ''vars'', ''tools'', ''os'', ''arch'']"

definition validate_task_action :: "wire_codec \<Rightarrow> json \<Rightarrow> u64 \<Rightarrow> api_error + action_kind" where
  "validate_task_action C v version =
     (if version \<noteq> 1 then Inl (unprocessable (''unsupported task action schema '' @ nat_to_string (unat version)))
      else
        bind_r (fold_r (\<lambda>field _. check (json_get v field \<noteq> None)
            (unprocessable (''task action field '' @ wc_debug C field @ '' is required''))) task_action_fields ()) (\<lambda>_.
        bind_r (map_err (\<lambda>e. unprocessable (''invalid task action: '' @ e)) (wc_task_action C v)) (\<lambda>a.
        if \<not> task_action_validate a then Inl (unprocessable ''invalid task action values'') else Inr TaskKind)))"

definition validate_rustc_action :: "protocol \<Rightarrow> wire_codec \<Rightarrow> json \<Rightarrow> u64 \<Rightarrow> api_error + action_kind" where
  "validate_rustc_action P C v version =
     (if version \<noteq> 1 then Inl (unprocessable (''unsupported rustc action schema '' @ nat_to_string (unat version)))
      else
        bind_r (map_err (\<lambda>e. unprocessable (''invalid rustc action: '' @ e)) (wc_rustc_action C v)) (\<lambda>a.
        if \<not> rustc_action_validate P a then Inl (unprocessable ''invalid rustc action values'') else Inr RustcKind))"

definition check_action_descriptor :: "protocol \<Rightarrow> wire_codec \<Rightarrow> json \<Rightarrow> api_error + action_kind" where
  "check_action_descriptor P C v =
     (if \<not> json_is_object v then Inl (unprocessable ''action descriptor must be a JSON object'')
      else
        bind_r (ok_or (unprocessable ''action descriptor kind is required'') (json_as_str (json_get v ''kind''))) (\<lambda>kind.
        bind_r (ok_or (unprocessable ''action descriptor version is required'') (json_as_u64 (json_get v ''version''))) (\<lambda>version.
        if kind = ''build-script'' then validate_build_script_action P C v version
        else if kind = ''cc'' then validate_cc_action P C v version
        else if kind = ''task'' then validate_task_action C v version
        else if kind = ''rustc'' then validate_rustc_action P C v version
        else Inl (unprocessable (''unsupported action kind '' @ wc_debug C kind)))))"

definition validate_action_descriptor :: "('b, 'm, 'h) server \<Rightarrow> string \<Rightarrow> digest \<Rightarrow> ('b, 'm, action_kind) handler" where
  "validate_action_descriptor S namespace d =
     bindE (read_canonical_object S namespace d ''action descriptor'') (\<lambda>v.
     liftE (check_action_descriptor (sv_protocol S) (sv_codec S) v))"

definition validate_action_result_shape :: "action_result \<Rightarrow> action_kind \<Rightarrow> api_error + unit" where
  "validate_action_result_shape r kind =
     check (\<not> (kind \<noteq> TaskKind \<and> (ar_metadata r = None \<or> ar_output_root r = None)))
       (unprocessable ''compiler action results require metadata and an output root'')"

section \<open>Client metadata\<close>

definition require_output_blobs :: "('b, 'm, 'h) server \<Rightarrow> string \<Rightarrow> digest \<Rightarrow> digest \<Rightarrow> string
    \<Rightarrow> ('b, 'm, unit) handler" where
  "require_output_blobs S namespace stdout stderr kind =
     bindE (require_blob S namespace stdout (kind @ '' stdout blob'')) (\<lambda>_.
     require_blob S namespace stderr (kind @ '' stderr blob''))"

definition validate_build_script_metadata :: "('b, 'm, 'h) server \<Rightarrow> string \<Rightarrow> json \<Rightarrow> u64 \<Rightarrow> ('b, 'm, unit) handler" where
  "validate_build_script_metadata S namespace v version =
     (if version \<noteq> 1
      then throwE (unprocessable (''unsupported build-script metadata schema '' @ nat_to_string (unat version)))
      else
        bindE (liftE (map_err (\<lambda>e. unprocessable (''invalid build-script metadata: '' @ e))
            (wc_build_script_metadata (sv_codec S) v))) (\<lambda>m.
        if \<not> build_script_metadata_validate (sv_protocol S) m then throwE (unprocessable ''invalid build-script metadata values'')
        else require_output_blobs S namespace (bm_stdout m) (bm_stderr m) ''build-script''))"

definition validate_cc_metadata :: "('b, 'm, 'h) server \<Rightarrow> string \<Rightarrow> json \<Rightarrow> u64 \<Rightarrow> ('b, 'm, unit) handler" where
  "validate_cc_metadata S namespace v version =
     (if version \<noteq> 1
      then throwE (unprocessable (''unsupported cc metadata schema '' @ nat_to_string (unat version)))
      else
        bindE (liftE (map_err (\<lambda>e. unprocessable (''invalid cc metadata: '' @ e))
            (wc_cc_metadata (sv_codec S) v))) (\<lambda>m.
        if \<not> wc_cc_metadata_validate (sv_codec S) m then throwE (unprocessable ''invalid cc metadata values'')
        else require_output_blobs S namespace (om_stdout m) (om_stderr m) ''cc''))"

definition validate_rustc_metadata :: "('b, 'm, 'h) server \<Rightarrow> string \<Rightarrow> json \<Rightarrow> u64 \<Rightarrow> ('b, 'm, unit) handler" where
  "validate_rustc_metadata S namespace v version =
     (if version \<noteq> 1
      then throwE (unprocessable (''unsupported rustc metadata schema '' @ nat_to_string (unat version)))
      else
        bindE (liftE (map_err (\<lambda>e. unprocessable (''invalid rustc metadata: '' @ e))
            (wc_rustc_metadata (sv_codec S) v))) (\<lambda>m.
        if \<not> wc_rustc_metadata_validate (sv_codec S) m then throwE (unprocessable ''invalid rustc metadata values'')
        else require_output_blobs S namespace (om_stdout m) (om_stderr m) ''rustc''))"

definition validate_task_root :: "string \<Rightarrow> api_error + unit" where
  "validate_task_root root =
     check (\<not> (root = [] \<or> hd root = CHR ''/'' \<or> backslash \<in> set root \<or> nul \<in> set root
         \<or> list_ex (\<lambda>c. c = [] \<or> c = ''.'' \<or> c = ''..'') (split_on (CHR ''/'') root)))
       (unprocessable ''task metadata root must be a safe relative path'')"

definition validate_task_metadata :: "wire_codec \<Rightarrow> json \<Rightarrow> u64 \<Rightarrow> api_error + unit" where
  "validate_task_metadata C v version =
     (if version \<noteq> 1
      then Inl (unprocessable (''unsupported task metadata schema '' @ nat_to_string (unat version)))
      else
        bind_r (map_err (\<lambda>e. unprocessable (''invalid task metadata: '' @ e)) (wc_task_metadata C v)) (\<lambda>m.
        if \<not> task_metadata_validate m then Inl (unprocessable ''invalid task metadata values'')
        else fold_r (\<lambda>root _. validate_task_root root) (tmd_roots m) ()))"

definition kind_name :: "action_kind \<Rightarrow> string" where
  "kind_name kind = (case kind of
     BuildScriptKind \<Rightarrow> ''build-script'' | CcKind \<Rightarrow> ''cc'' | RustcKind \<Rightarrow> ''rustc'' | TaskKind \<Rightarrow> ''task'')"

definition metadata_version :: "json \<Rightarrow> action_kind \<Rightarrow> api_error + u64" where
  "metadata_version v kind =
     (if \<not> json_is_object v then Inl (unprocessable ''client metadata must be a JSON object'')
      else
        bind_r (ok_or (unprocessable ''client metadata kind is required'') (json_as_str (json_get v ''kind''))) (\<lambda>k.
        bind_r (ok_or (unprocessable ''client metadata version is required'') (json_as_u64 (json_get v ''version''))) (\<lambda>version.
        if k \<noteq> kind_name kind then Inl (unprocessable ''client metadata kind does not match action kind'')
        else Inr version)))"

definition validate_client_metadata :: "('b, 'm, 'h) server \<Rightarrow> string \<Rightarrow> digest \<Rightarrow> action_kind \<Rightarrow> ('b, 'm, unit) handler" where
  "validate_client_metadata S namespace d kind =
     bindE (read_canonical_object S namespace d ''client metadata'') (\<lambda>v.
     bindE (liftE (metadata_version v kind)) (\<lambda>version.
     case kind of
       TaskKind \<Rightarrow> liftE (validate_task_metadata (sv_codec S) v version)
     | BuildScriptKind \<Rightarrow> validate_build_script_metadata S namespace v version
     | CcKind \<Rightarrow> validate_cc_metadata S namespace v version
     | RustcKind \<Rightarrow> validate_rustc_metadata S namespace v version))"

section \<open>The commit\<close>

definition if_some :: "'x option \<Rightarrow> ('x \<Rightarrow> ('s, 'e, unit) comp) \<Rightarrow> ('s, 'e, unit) comp" where
  "if_some v f = (case v of None \<Rightarrow> returnE () | Some x \<Rightarrow> f x)"

definition put_action_result :: "('b, 'm, 'h) server \<Rightarrow> header_map \<Rightarrow> string \<times> string \<times> u64 \<Rightarrow> action_result
    \<Rightarrow> ('b, 'm, nat) handler" where
  "put_action_result S headers parts r =
     bindE (authorized S headers Write) (\<lambda>namespace.
     bindE (liftE (require_immutable_precondition (headers_str S) headers)) (\<lambda>_.
     bindE (liftE (parse_action_digest (sv_protocol S) parts)) (\<lambda>a.
     if ar_version r \<noteq> 1 \<or> ar_action r \<noteq> a
     then throwE (bad_request ''action result does not match request'')
     else
       bindE (validate_action_descriptor S namespace a) (\<lambda>kind.
       bindE (liftE (validate_action_result_shape r kind)) (\<lambda>_.
       bindE (if_some (ar_metadata r) (\<lambda>d. validate_client_metadata S namespace d kind)) (\<lambda>_.
       bindE (if_some (ar_output_root r) (validate_tree S namespace)) (\<lambda>_.
       bindE (internalE (on_metadata (ms_commit (sv_metadata S) namespace a r))) (\<lambda>outcome.
       bindE (on_metrics inc_action_commit) (\<lambda>_.
       case outcome of
         CommitCreated \<Rightarrow> returnE 201
       | CommitAlreadyExists \<Rightarrow> returnE 204
       | CommitConflict \<Rightarrow> throwE (conflict ''an immutable action result already exists'')))))))))) "

end
