(* ===== verification/Result_Closure.thy ===== *)
theory Result_Closure
  imports Action_Results Blob_Requests
begin

text \<open>
  What a committed action result guarantees: everything it names is there. \<open>tree_stored\<close> is the abstract
  view of an output tree - a finite tree of canonical directory objects whose files are all listed -
  and the walk of \<open>validate_tree\<close> is shown to accept only such trees. \<open>content\<close> is what the store holds,
  \<open>listed\<close> which blobs the namespace lists.
\<close>

section \<open>What is stored\<close>

definition dir_stored :: "('b, 'm, 'h) server \<Rightarrow> (digest \<Rightarrow> bytes option) \<Rightarrow> (digest \<Rightarrow> bool) \<Rightarrow> digest \<Rightarrow> directory \<Rightarrow> bool" where
  "dir_stored S content listed d dir \<longleftrightarrow> listed d \<and> d_size d \<le> max_object_bytes
     \<and> (\<exists>c. content d = Some c \<and> decode_directory (sv_codec S) c = Inr dir)
     \<and> (\<forall>n \<in> set (dir_files dir). digest_ok (sv_protocol S) (fn_digest n) \<and> listed (fn_digest n))"

inductive tree_stored :: "('b, 'm, 'h) server \<Rightarrow> (digest \<Rightarrow> bytes option) \<Rightarrow> (digest \<Rightarrow> bool) \<Rightarrow> digest \<Rightarrow> bool"
  for S content listed where
  tree_node: "dir_stored S content listed d dir \<Longrightarrow>
    (\<And>n. n \<in> set (dir_directories dir) \<Longrightarrow> tree_stored S content listed (dn_digest n)) \<Longrightarrow>
    tree_stored S content listed d"

inductive_cases tree_storedE: "tree_stored S content listed d"

definition object_stored :: "('b, 'm, 'h) server \<Rightarrow> (digest \<Rightarrow> bytes option) \<Rightarrow> (digest \<Rightarrow> bool) \<Rightarrow> digest \<Rightarrow> string \<Rightarrow> json \<Rightarrow> bool" where
  "object_stored S content listed d label v \<longleftrightarrow> digest_ok (sv_protocol S) d \<and> listed d \<and> d_size d \<le> max_object_bytes
     \<and> (\<exists>c. content d = Some c \<and> decode_object (sv_codec S) label c = Inr v)"

text \<open>The output streams a metadata object of a kind names.\<close>

definition metadata_outputs :: "wire_codec \<Rightarrow> action_kind \<Rightarrow> json \<Rightarrow> digest list" where
  "metadata_outputs C kind v =
     (case kind of
        BuildScriptKind \<Rightarrow> (case wc_build_script_metadata C v of Inr m \<Rightarrow> [bm_stdout m, bm_stderr m] | Inl _ \<Rightarrow> [])
      | CcKind \<Rightarrow> (case wc_cc_metadata C v of Inr m \<Rightarrow> [om_stdout m, om_stderr m] | Inl _ \<Rightarrow> [])
      | RustcKind \<Rightarrow> (case wc_rustc_metadata C v of Inr m \<Rightarrow> [om_stdout m, om_stderr m] | Inl _ \<Rightarrow> [])
      | TaskKind \<Rightarrow> [])"

definition metadata_stored :: "('b, 'm, 'h) server \<Rightarrow> (digest \<Rightarrow> bytes option) \<Rightarrow> (digest \<Rightarrow> bool) \<Rightarrow> action_kind \<Rightarrow> digest \<Rightarrow> bool" where
  "metadata_stored S content listed kind d \<longleftrightarrow>
     (\<exists>v. object_stored S content listed d ''client metadata'' v \<and> json_get v ''kind'' = Some (JString (kind_name kind))
        \<and> (\<forall>e \<in> set (metadata_outputs (sv_codec S) kind v). digest_ok (sv_protocol S) e \<and> listed e))"

definition result_stored :: "('b, 'm, 'h) server \<Rightarrow> (digest \<Rightarrow> bytes option) \<Rightarrow> (digest \<Rightarrow> bool) \<Rightarrow> action_result \<Rightarrow> bool" where
  "result_stored S content listed r \<longleftrightarrow> ar_version r = 1 \<and>
     (\<exists>v kind. object_stored S content listed (ar_action r) ''action descriptor'' v
        \<and> check_action_descriptor (sv_protocol S) (sv_codec S) v = Inr kind
        \<and> (kind \<noteq> TaskKind \<longrightarrow> ar_metadata r \<noteq> None \<and> ar_output_root r \<noteq> None)
        \<and> (\<forall>d. ar_metadata r = Some d \<longrightarrow> metadata_stored S content listed kind d)
        \<and> (\<forall>d. ar_output_root r = Some d \<longrightarrow> tree_stored S content listed d))"

text \<open>More content and more listed blobs keep what is stored.\<close>

definition grown :: "(digest \<Rightarrow> bytes option) \<Rightarrow> (digest \<Rightarrow> bool) \<Rightarrow> (digest \<Rightarrow> bytes option) \<Rightarrow> (digest \<Rightarrow> bool) \<Rightarrow> bool" where
  "grown content listed content' listed' \<longleftrightarrow>
     (\<forall>d. listed d \<longrightarrow> listed' d) \<and> (\<forall>d x. listed d \<longrightarrow> content d = Some x \<longrightarrow> content' d = Some x)"

lemma grown_refl [simp]: "grown content listed content listed"
  by (simp add: grown_def)

lemma grown_trans: "grown c l c' l' \<Longrightarrow> grown c' l' c'' l'' \<Longrightarrow> grown c l c'' l''"
  by (simp add: grown_def)

lemma dir_stored_grown: "grown c l c' l' \<Longrightarrow> dir_stored S c l d dir \<Longrightarrow> dir_stored S c' l' d dir"
  by (auto simp: grown_def dir_stored_def)

lemma tree_stored_grown:
  assumes "grown c l c' l'" and "tree_stored S c l d" shows "tree_stored S c' l' d"
  using assms(2)
proof induction
  case (tree_node d dir)
  show ?case using dir_stored_grown [OF assms(1) tree_node(1)] tree_node(3) by (rule tree_stored.tree_node)
qed

lemma object_stored_grown: "grown c l c' l' \<Longrightarrow> object_stored S c l d label v \<Longrightarrow> object_stored S c' l' d label v"
  by (auto simp: grown_def object_stored_def)

lemma metadata_stored_grown:
  assumes "grown c l c' l'" and "metadata_stored S c l kind d" shows "metadata_stored S c' l' kind d"
proof -
  from assms(2) obtain v where v: "object_stored S c l d ''client metadata'' v"
    "json_get v ''kind'' = Some (JString (kind_name kind))"
    "\<forall>e \<in> set (metadata_outputs (sv_codec S) kind v). digest_ok (sv_protocol S) e \<and> l e"
    unfolding metadata_stored_def by (elim exE conjE)
  have "\<forall>e \<in> set (metadata_outputs (sv_codec S) kind v). digest_ok (sv_protocol S) e \<and> l' e"
    using v(3) assms(1) by (simp add: grown_def)
  with v(2) object_stored_grown [OF assms(1) v(1)] show ?thesis unfolding metadata_stored_def by (intro exI conjI)
qed

lemma result_stored_grown:
  assumes "grown c l c' l'" and "result_stored S c l r" shows "result_stored S c' l' r"
proof -
  from assms(2) obtain v kind where r: "ar_version r = 1"
    "object_stored S c l (ar_action r) ''action descriptor'' v"
    "check_action_descriptor (sv_protocol S) (sv_codec S) v = Inr kind"
    "kind \<noteq> TaskKind \<longrightarrow> ar_metadata r \<noteq> None \<and> ar_output_root r \<noteq> None"
    "\<forall>d. ar_metadata r = Some d \<longrightarrow> metadata_stored S c l kind d"
    "\<forall>d. ar_output_root r = Some d \<longrightarrow> tree_stored S c l d"
    unfolding result_stored_def by (elim exE conjE)
  from r(5) have "\<forall>d. ar_metadata r = Some d \<longrightarrow> metadata_stored S c' l' kind d"
    using metadata_stored_grown [OF assms(1)] by blast
  moreover from r(6) have "\<forall>d. ar_output_root r = Some d \<longrightarrow> tree_stored S c' l' d"
    using tree_stored_grown [OF assms(1)] by blast
  ultimately show ?thesis
    unfolding result_stored_def using r(1,3,4) object_stored_grown [OF assms(1) r(2)] by (intro conjI exI)
qed

section \<open>The entries of a directory\<close>

lemma validate_entry_ok:
  "validate_entry name mode names = Inr out \<longleftrightarrow>
    safe_component name \<and> mode \<le> 4095 \<and> name \<notin> set names \<and> out = name # names"
  by (auto simp: validate_entry_def safe_component_def plain_component_def not_less)

lemma entries_run:
  assumes "\<And>x names out. f x names = Inr out \<longleftrightarrow> P x \<and> name x \<notin> set names \<and> out = name x # names"
  shows "fold_r f xs names = Inr out \<longleftrightarrow>
    (\<forall>x \<in> set xs. P x) \<and> distinct (map name xs) \<and> set (map name xs) \<inter> set names = {} \<and> out = rev (map name xs) @ names"
proof (induction xs arbitrary: names)
  case (Cons x xs)
  have "fold_r f (x # xs) names = Inr out \<longleftrightarrow> P x \<and> name x \<notin> set names \<and> fold_r f xs (name x # names) = Inr out"
    by (auto simp: result_simps assms)
  with Cons [of "name x # names"] show ?case by auto
qed auto

lemma validate_directory_entries_ok:
  "validate_directory_entries dir = Inr u \<longleftrightarrow>
    (\<forall>n \<in> set (dir_directories dir). safe_component (dn_name n) \<and> dn_mode n \<le> 4095)
    \<and> (\<forall>n \<in> set (dir_files dir). safe_component (fn_name n) \<and> fn_mode n \<le> 4095)
    \<and> (\<forall>n \<in> set (dir_symlinks dir). safe_component (sn_name n) \<and> sn_mode n \<le> 4095
        \<and> sn_target n \<noteq> [] \<and> nul \<notin> set (sn_target n))
    \<and> distinct (map dn_name (dir_directories dir) @ map fn_name (dir_files dir) @ map sn_name (dir_symlinks dir))"
proof -
  have d: "fold_r (\<lambda>n. validate_entry (dn_name n) (dn_mode n)) xs names = Inr out \<longleftrightarrow>
      (\<forall>n \<in> set xs. safe_component (dn_name n) \<and> dn_mode n \<le> 4095) \<and> distinct (map dn_name xs)
      \<and> set (map dn_name xs) \<inter> set names = {} \<and> out = rev (map dn_name xs) @ names" for xs names out
    by (rule entries_run) (auto simp: validate_entry_ok)
  have f: "fold_r (\<lambda>n. validate_entry (fn_name n) (fn_mode n)) xs names = Inr out \<longleftrightarrow>
      (\<forall>n \<in> set xs. safe_component (fn_name n) \<and> fn_mode n \<le> 4095) \<and> distinct (map fn_name xs)
      \<and> set (map fn_name xs) \<inter> set names = {} \<and> out = rev (map fn_name xs) @ names" for xs names out
    by (rule entries_run) (auto simp: validate_entry_ok)
  have l: "fold_r (\<lambda>n names. bind_r (validate_entry (sn_name n) (sn_mode n) names) (\<lambda>names.
         if sn_target n = [] \<or> nul \<in> set (sn_target n) then Inl (unprocessable ''invalid symlink target'')
         else Inr names)) xs names = Inr out \<longleftrightarrow>
      (\<forall>n \<in> set xs. safe_component (sn_name n) \<and> sn_mode n \<le> 4095 \<and> sn_target n \<noteq> [] \<and> nul \<notin> set (sn_target n))
      \<and> distinct (map sn_name xs) \<and> set (map sn_name xs) \<inter> set names = {} \<and> out = rev (map sn_name xs) @ names"
    for xs names out
    by (rule entries_run) (auto simp: result_simps validate_entry_ok)
  show ?thesis
    unfolding validate_directory_entries_def bind_r_eq_Inr d f l by auto
qed

lemma file_digests_run:
  assumes "file_digests P ns files = Inr out"
  shows "set out = set files \<union> fn_digest ` set ns" and "\<forall>n \<in> set ns. digest_ok P (fn_digest n)"
    and "distinct files \<Longrightarrow> distinct out"
  using assms
proof (induction P ns files rule: file_digests.induct)
  case (2 P n ns files)
  { case 1 with 2 show ?case by (auto simp: result_simps) }
  { case 2 with "2.IH" show ?case by (auto simp: result_simps) }
  { case 3 with "2.IH" show ?case by (auto simp: result_simps) }
qed auto

section \<open>Reading objects\<close>

context cache_server begin

text \<open>The digests a namespace lists are valid.\<close>

definition listed_ok :: "'m \<Rightarrow> bool" where
  "listed_ok m \<longleftrightarrow> (\<forall>ns d. visible m ns d \<longrightarrow> digest_ok (sv_protocol S) d)"

text \<open>What a successful check leaves behind: nothing is lost and the listing is as it was.\<close>

definition only_reads :: "('b, 'm) world \<Rightarrow> ('b, 'm) world \<Rightarrow> bool" where
  "only_reads w v \<longleftrightarrow> world_ok v \<and> blobs_kept (w_blobs w) (w_blobs v) \<and> visible (w_metadata v) = visible (w_metadata w)
     \<and> result (w_metadata v) = result (w_metadata w)"

lemma only_reads_refl: "world_ok w \<Longrightarrow> only_reads w w"
  by (simp add: only_reads_def blobs_kept_def)

lemma only_reads_trans: "only_reads w u \<Longrightarrow> only_reads u v \<Longrightarrow> only_reads w v"
  by (simp add: only_reads_def blobs_kept_def)

lemma only_reads_ok: "only_reads w v \<Longrightarrow> world_ok v"
  by (simp add: only_reads_def)

lemma only_reads_listed: "only_reads w v \<Longrightarrow> listed_ok (w_metadata w) \<Longrightarrow> listed_ok (w_metadata v)"
  by (simp add: only_reads_def listed_ok_def)

lemma only_reads_grown:
  "only_reads w v \<Longrightarrow> listed_ok (w_metadata w) \<Longrightarrow>
    grown (held (w_blobs w)) (visible (w_metadata w) ns) (held (w_blobs v)) (visible (w_metadata v) ns)"
  by (auto simp: only_reads_def grown_def blobs_kept_def listed_ok_def)

lemma visible_in_reads:
  assumes "world_ok w" and "visible_in S ns d w = (Inr b, v)"
  shows "only_reads w v" and "b = visible (w_metadata w) ns d"
proof -
  note vr = visible_in_run [OF assms]
  from vr(1) assms(1) have ok: "world_ok v" by (simp add: step_def)
  from vr(3) obtain n where "v = w\<lparr>w_metadata := n\<rparr>" "visible n = visible (w_metadata w)"
    "result n = result (w_metadata w)" by blast
  with ok show "only_reads w v" by (simp add: only_reads_def blobs_kept_def)
  show "b = visible (w_metadata w) ns d" using vr(2) by simp
qed

lemma get_stored_reads:
  assumes "world_ok w" and "get_stored S d w = (r, v)" shows "only_reads w v"
proof -
  have s: "step {} w v" using get_stored_step assms(2) by (rule moves_step)
  moreover have "w_metadata v = w_metadata w"
    using assms(2) by (cases r) (auto simp: get_stored_def result_simps)
  ultimately show ?thesis using assms(1) by (simp add: only_reads_def step_def)
qed

lemma read_object_run:
  assumes "world_ok w" and "listed_ok (w_metadata w)" and "read_object S ns d e w = (Inr bs, v)"
  shows "only_reads w v" and "visible (w_metadata v) ns d" and "held (w_blobs v) d = Some bs"
proof -
  from assms(3) obtain u b where vis: "visible_in S ns d w = (Inr True, u)"
    and got: "get_stored S d u = (Inr (Some b), v)" and all: "read_stream (bl_stream b) [] = Inr bs"
    by (auto simp: read_object_def result_simps split: if_splits option.splits)
  note vr = visible_in_reads [OF assms(1) vis]
  note u = only_reads_ok [OF vr(1)]
  note gr = get_stored_reads [OF u got]
  show "only_reads w v" by (rule only_reads_trans [OF vr(1) gr])
  then show listed: "visible (w_metadata v) ns d" using vr(2) by (simp add: only_reads_def)
  have d: "digest_ok (sv_protocol S) d" using vr(2) assms(2) by (simp add: listed_ok_def)
  from get_stored_run(3) [OF u d got refl] all show "held (w_blobs v) d = Some bs"
    by (auto simp: read_stream_iff)
qed

lemma require_files_run:
  assumes "world_ok w" and "require_files S ns dir w = (Inr x, v)"
  shows "only_reads w v"
    and "\<forall>n \<in> set (dir_files dir). digest_ok (sv_protocol S) (fn_digest n) \<and> visible (w_metadata v) ns (fn_digest n)"
proof -
  from assms(2) obtain files found m where
    files: "file_digests (sv_protocol S) (dir_files dir) [] = Inr files"
    and q: "ms_visible_blobs (sv_metadata S) ns files (w_metadata w) = (Inr found, m)"
    and v: "v = w\<lparr>w_metadata := m\<rparr>" and len: "length found = length files"
    by (auto simp: require_files_def result_simps split: if_splits)
  have "mok (w_metadata w)" using assms(1) by (simp add: world_ok_def)
  from metadata.visible_blobs [OF this q] have m: "mok m" "visible m = visible (w_metadata w)"
    "result m = result (w_metadata w)" "found = filter (visible (w_metadata w) ns) files" by blast+
  show "only_reads w v" using assms(1) m(1-3) by (simp add: v only_reads_def world_ok_def blobs_kept_def)
  from m(4) len have "\<forall>d \<in> set files. visible (w_metadata w) ns d"
    by (metis filter_True filter_id_conv length_filter_less order_less_irrefl)
  with file_digests_run [OF files] m(2) show
    "\<forall>n \<in> set (dir_files dir). digest_ok (sv_protocol S) (fn_digest n) \<and> visible (w_metadata v) ns (fn_digest n)"
    by (simp add: v)
qed

lemma read_directory_run:
  assumes "world_ok w" and "listed_ok (w_metadata w)" and "read_directory S ns d w = (Inr dir, v)"
  shows "only_reads w v" and "dir_stored S (held (w_blobs v)) (visible (w_metadata v) ns) d dir"
proof -
  from assms(3) obtain bs u x where small: "d_size d \<le> max_object_bytes"
    and obj: "read_object S ns d (unprocessable ''directory object is missing'') w = (Inr bs, u)"
    and dir: "decode_directory (sv_codec S) bs = Inr dir" and files: "require_files S ns dir u = (Inr x, v)"
    by (auto simp: read_directory_def result_simps not_less split: if_splits)
  note o = read_object_run [OF assms(1,2) obj]
  note f = require_files_run [OF only_reads_ok [OF o(1)] files]
  show "only_reads w v" by (rule only_reads_trans [OF o(1) f(1)])
  have "digest_ok (sv_protocol S) d"
    using o(2) only_reads_listed [OF o(1) assms(2)] by (simp add: listed_ok_def)
  with f(1) o(2,3) have "held (w_blobs v) d = Some bs" "visible (w_metadata v) ns d"
    by (auto simp: only_reads_def blobs_kept_def)
  with small dir f(2) show "dir_stored S (held (w_blobs v)) (visible (w_metadata v) ns) d dir"
    by (simp add: dir_stored_def)
qed

end

section \<open>The walk\<close>

text \<open>
  The invariant of the stack: whenever a directory's \<open>Exit\<close> comes up, each of its subdirectories has
  been seen or comes up before it.
\<close>

fun covered :: "('b, 'm, 'h) server \<Rightarrow> (digest \<Rightarrow> bytes option) \<Rightarrow> (digest \<Rightarrow> bool) \<Rightarrow> digest set \<Rightarrow> visit list \<Rightarrow> bool" where
  "covered S content listed A [] = True"
| "covered S content listed A (Enter d # vs) = covered S content listed (insert d A) vs"
| "covered S content listed A (Exit d # vs) =
     ((\<exists>dir. dir_stored S content listed d dir \<and> (\<forall>n \<in> set (dir_directories dir). dn_digest n \<in> A))
      \<and> covered S content listed (insert d A) vs)"

fun visit_digest :: "visit \<Rightarrow> digest" where
  "visit_digest (Enter d) = d"
| "visit_digest (Exit d) = d"

lemma covered_mono: "A \<subseteq> B \<Longrightarrow> covered S c l A vs \<Longrightarrow> covered S c l B vs"
proof (induction S c l A vs arbitrary: B rule: covered.induct)
  case (2 S c l A d vs)
  from 2(1) [of "insert d B"] 2(2,3) show ?case by auto
next
  case (3 S c l A d vs)
  from 3(1) [of "insert d B"] 3(2,3) show ?case by auto
qed simp

lemma covered_grown: "grown c l c' l' \<Longrightarrow> covered S c l A vs \<Longrightarrow> covered S c' l' A vs"
proof (induction S c l A vs rule: covered.induct)
  case (3 S c l A d vs)
  then show ?case using dir_stored_grown by fastforce
qed auto

lemma covered_enter:
  "covered S c l A (map Enter ds @ vs) \<longleftrightarrow> covered S c l (set ds \<union> A) vs"
  by (induction ds arbitrary: A) (simp_all add: Un_assoc)

definition walk_ok :: "('b, 'm, 'h) server \<Rightarrow> (digest \<Rightarrow> bytes option) \<Rightarrow> (digest \<Rightarrow> bool) \<Rightarrow> digest \<Rightarrow> walk \<Rightarrow> bool" where
  "walk_ok S content listed root k \<longleftrightarrow> (\<forall>d \<in> set (wk_seen k). tree_stored S content listed d)
     \<and> covered S content listed (set (wk_seen k)) (wk_pending k)
     \<and> root \<in> set (wk_seen k) \<union> visit_digest ` set (wk_pending k)"

lemma walk_ok_grown: "grown c l c' l' \<Longrightarrow> walk_ok S c l root k \<Longrightarrow> walk_ok S c' l' root k"
  using tree_stored_grown covered_grown unfolding walk_ok_def by metis

context cache_server begin

abbreviation stored_walk :: "string \<Rightarrow> digest \<Rightarrow> walk \<Rightarrow> ('b, 'm) world \<Rightarrow> bool" where
  "stored_walk ns root k w \<equiv> walk_ok S (held (w_blobs w)) (visible (w_metadata w) ns) root k"

lemma visit_step_run:
  assumes "world_ok w" and "listed_ok (w_metadata w)" and "stored_walk ns root k w"
    and "wk_pending k = v # vs" and "visit_step S ns v (k\<lparr>wk_pending := vs\<rparr>) w = (Inr k', w')"
  shows "only_reads w w'" and "stored_walk ns root k' w'"
proof -
  let ?C = "held (w_blobs w)" and ?L = "visible (w_metadata w) ns"
  have seen: "\<forall>d \<in> set (wk_seen k). tree_stored S ?C ?L d"
    and cov: "covered S ?C ?L (set (wk_seen k)) (v # vs)"
    and root: "root \<in> set (wk_seen k) \<union> visit_digest ` set (v # vs)"
    using assms(3,4) by (auto simp: walk_ok_def)
  have "only_reads w w' \<and> stored_walk ns root k' w'"
  proof (cases v)
    case (Exit d)
    then have k': "k' = k\<lparr>wk_pending := vs, wk_visiting := removeAll d (wk_visiting k), wk_seen := List.insert d (wk_seen k)\<rparr>"
      and w': "w' = w" using assms(5) by (auto simp: visit_step_def)
    from cov Exit obtain dir where dir: "dir_stored S ?C ?L d dir"
      "\<forall>n \<in> set (dir_directories dir). dn_digest n \<in> set (wk_seen k)"
      and rest: "covered S ?C ?L (insert d (set (wk_seen k))) vs" by auto
    have "tree_stored S ?C ?L d"
      by (rule tree_node [OF dir(1)]) (use dir(2) seen in blast)
    with seen rest root Exit show ?thesis
      using only_reads_refl [OF assms(1)] by (auto simp: k' w' walk_ok_def)
  next
    case (Enter d)
    show ?thesis
    proof (cases "d \<in> set (wk_seen k)")
      case True
      then have "k' = k\<lparr>wk_pending := vs\<rparr>" "w' = w" using assms(5) Enter by (auto simp: visit_step_def)
      with seen cov root True Enter show ?thesis
        using only_reads_refl [OF assms(1)] by (auto simp: walk_ok_def insert_absorb)
    next
      case False
      with assms(5) Enter obtain dir where read: "read_directory S ns d w = (Inr dir, w')"
        and k': "k' = k\<lparr>wk_visiting := d # wk_visiting k,
          wk_pending := rev (map (\<lambda>n. Enter (dn_digest n)) (dir_directories dir)) @ Exit d # vs\<rparr>"
        by (auto simp: visit_step_def result_simps split: if_splits)
      note r = read_directory_run [OF assms(1,2) read]
      note g = only_reads_grown [OF r(1) assms(2), of ns]
      let ?C' = "held (w_blobs w')" and ?L' = "visible (w_metadata w') ns"
      let ?subs = "map dn_digest (dir_directories dir)"
      have pending: "wk_pending k' = map Enter (rev ?subs) @ Exit d # vs"
        by (simp add: k' rev_map comp_def)
      have "covered S ?C' ?L' (insert d (set ?subs \<union> set (wk_seen k))) vs"
        by (rule covered_mono [OF _ covered_grown [OF g]]) (use cov Enter in auto)
      then have "covered S ?C' ?L' (set (wk_seen k)) (wk_pending k')"
        unfolding pending covered_enter using r(2) by auto
      moreover have "\<forall>d \<in> set (wk_seen k'). tree_stored S ?C' ?L' d"
        using seen by (auto simp: k' intro: tree_stored_grown [OF g])
      moreover have "root \<in> set (wk_seen k') \<union> visit_digest ` set (wk_pending k')"
        using root Enter by (auto simp: k')
      ultimately show ?thesis using r(1) by (simp add: walk_ok_def k')
    qed
  qed
  then show "only_reads w w'" "stored_walk ns root k' w'" by blast+
qed

lemma walk_tree_run:
  assumes "walk_tree S ns k w = (Inr x, v)" and "world_ok w" and "listed_ok (w_metadata w)" and "stored_walk ns root k w"
  shows "only_reads w v \<and> tree_stored S (held (w_blobs v)) (visible (w_metadata v) ns) root"
proof -
  have "T = S \<Longrightarrow> walk_tree T ns k w = (Inr x, v) \<Longrightarrow> world_ok w \<Longrightarrow> listed_ok (w_metadata w) \<Longrightarrow>
      stored_walk ns root k w \<Longrightarrow>
      only_reads w v \<and> tree_stored S (held (w_blobs v)) (visible (w_metadata v) ns) root" for T
  proof (induction T ns k w rule: walk_tree.induct)
    case (1 T ns k w)
    show ?case
    proof (cases "wk_pending k")
      case Nil
      with "1.prems" have "v = w" by (simp add: walk_tree.simps)
      with Nil "1.prems"(5) only_reads_refl [OF "1.prems"(3)] show ?thesis by (auto simp: walk_ok_def)
    next
      case (Cons d vs)
      obtain r u where r: "visit_step S ns d (k\<lparr>wk_pending := vs\<rparr>) w = (r, u)" by fastforce
      from "1.prems"(1,2) Cons r obtain k' where k': "r = Inr k'" and rest: "walk_tree T ns k' u = (Inr x, v)"
        by (subst (asm) walk_tree.simps) (auto split: sum.splits)
      note step = visit_step_run [OF "1.prems"(3-5) Cons r [unfolded k']]
      have "only_reads u v \<and> tree_stored S (held (w_blobs v)) (visible (w_metadata v) ns) root"
        by (rule "1.IH" [OF Cons _ k' "1.prems"(1) rest only_reads_ok [OF step(1)]
              only_reads_listed [OF step(1) "1.prems"(4)] step(2)]) (simp add: r "1.prems"(1))
      with only_reads_trans [OF step(1)] show ?thesis by blast
    qed
  qed
  with assms show ?thesis by blast
qed

lemma validate_tree_run:
  assumes "world_ok w" and "listed_ok (w_metadata w)" and "validate_tree S ns root w = (Inr x, v)"
  shows "only_reads w v" and "tree_stored S (held (w_blobs v)) (visible (w_metadata v) ns) root"
  using walk_tree_run [OF assms(3) [unfolded validate_tree_def] assms(1,2), of root] by (simp_all add: walk_ok_def)

section \<open>Descriptors and client metadata\<close>

lemma read_canonical_object_run:
  assumes "world_ok w" and "listed_ok (w_metadata w)" and "read_canonical_object S ns d label w = (Inr x, v)"
  shows "only_reads w v" and "object_stored S (held (w_blobs v)) (visible (w_metadata v) ns) d label x"
proof -
  from assms(3) obtain bs where d: "digest_ok (sv_protocol S) d" "d_size d \<le> max_object_bytes"
    and obj: "read_object S ns d (unprocessable (label @ '' blob is missing'')) w = (Inr bs, v)"
    and dec: "decode_object (sv_codec S) label bs = Inr x"
    by (auto simp: read_canonical_object_def result_simps not_less split: if_splits)
  note o = read_object_run [OF assms(1,2) obj]
  show "only_reads w v" by (rule o(1))
  show "object_stored S (held (w_blobs v)) (visible (w_metadata v) ns) d label x"
    using d dec o(2,3) by (simp add: object_stored_def)
qed

lemma require_blob_run:
  assumes "world_ok w" and "require_blob S ns d label w = (Inr x, v)"
  shows "only_reads w v" and "digest_ok (sv_protocol S) d" and "visible (w_metadata v) ns d"
proof -
  from assms(2) have d: "digest_ok (sv_protocol S) d" and vis: "visible_in S ns d w = (Inr True, v)"
    by (auto simp: require_blob_def result_simps split: if_splits)
  note vr = visible_in_reads [OF assms(1) vis]
  then show "only_reads w v" "digest_ok (sv_protocol S) d" "visible (w_metadata v) ns d"
    using d by (simp_all add: only_reads_def)
qed

lemma require_output_blobs_run:
  assumes "world_ok w" and "require_output_blobs S ns a b kind w = (Inr x, v)"
  shows "only_reads w v" and "\<forall>e \<in> set [a, b]. digest_ok (sv_protocol S) e \<and> visible (w_metadata v) ns e"
proof -
  from assms(2) obtain y u where a: "require_blob S ns a (kind @ '' stdout blob'') w = (Inr y, u)"
    and b: "require_blob S ns b (kind @ '' stderr blob'') u = (Inr x, v)"
    by (auto simp: require_output_blobs_def result_simps)
  note ra = require_blob_run [OF assms(1) a]
  note rb = require_blob_run [OF only_reads_ok [OF ra(1)] b]
  show "only_reads w v" by (rule only_reads_trans [OF ra(1) rb(1)])
  show "\<forall>e \<in> set [a, b]. digest_ok (sv_protocol S) e \<and> visible (w_metadata v) ns e"
    using ra rb by (simp add: only_reads_def)
qed

lemma validate_client_metadata_run:
  assumes "world_ok w" and "listed_ok (w_metadata w)" and "validate_client_metadata S ns d kind w = (Inr x, v)"
  shows "only_reads w v" and "metadata_stored S (held (w_blobs v)) (visible (w_metadata v) ns) kind d"
proof -
  from assms(3) obtain j u version where j: "read_canonical_object S ns d ''client metadata'' w = (Inr j, u)"
    and ver: "metadata_version j kind = Inr version"
    and rest: "(case kind of
       TaskKind \<Rightarrow> liftE (validate_task_metadata (sv_codec S) j version)
     | BuildScriptKind \<Rightarrow> validate_build_script_metadata S ns j version
     | CcKind \<Rightarrow> validate_cc_metadata S ns j version
     | RustcKind \<Rightarrow> validate_rustc_metadata S ns j version) u = (Inr x, v)"
    by (auto simp: validate_client_metadata_def result_simps simp del: action_kind.case)
  note o = read_canonical_object_run [OF assms(1,2) j]
  have kind: "json_get j ''kind'' = Some (JString (kind_name kind))"
    using ver by (auto simp: metadata_version_def json_as_str_def result_simps split: if_splits option.splits json.splits)
  have "only_reads u v \<and> (\<forall>e \<in> set (metadata_outputs (sv_codec S) kind j).
      digest_ok (sv_protocol S) e \<and> visible (w_metadata v) ns e)"
  proof (cases kind)
    case TaskKind
    with rest have "v = u" by simp
    with TaskKind only_reads_refl [OF only_reads_ok [OF o(1)]] show ?thesis by (simp add: metadata_outputs_def)
  next
    case BuildScriptKind
    with rest obtain m where m: "wc_build_script_metadata (sv_codec S) j = Inr m"
      "require_output_blobs S ns (bm_stdout m) (bm_stderr m) ''build-script'' u = (Inr x, v)"
      by (auto simp: validate_build_script_metadata_def result_simps split: if_splits)
    from require_output_blobs_run [OF only_reads_ok [OF o(1)] m(2)] m(1) BuildScriptKind show ?thesis
      by (simp add: metadata_outputs_def)
  next
    case CcKind
    with rest obtain m where m: "wc_cc_metadata (sv_codec S) j = Inr m"
      "require_output_blobs S ns (om_stdout m) (om_stderr m) ''cc'' u = (Inr x, v)"
      by (auto simp: validate_cc_metadata_def result_simps split: if_splits)
    from require_output_blobs_run [OF only_reads_ok [OF o(1)] m(2)] m(1) CcKind show ?thesis
      by (simp add: metadata_outputs_def)
  next
    case RustcKind
    with rest obtain m where m: "wc_rustc_metadata (sv_codec S) j = Inr m"
      "require_output_blobs S ns (om_stdout m) (om_stderr m) ''rustc'' u = (Inr x, v)"
      by (auto simp: validate_rustc_metadata_def result_simps split: if_splits)
    from require_output_blobs_run [OF only_reads_ok [OF o(1)] m(2)] m(1) RustcKind show ?thesis
      by (simp add: metadata_outputs_def)
  qed
  note r = this
  show "only_reads w v" using only_reads_trans [OF o(1)] r by blast
  have g: "grown (held (w_blobs u)) (visible (w_metadata u) ns) (held (w_blobs v)) (visible (w_metadata v) ns)"
    using only_reads_grown only_reads_listed [OF o(1) assms(2)] r by blast
  show "metadata_stored S (held (w_blobs v)) (visible (w_metadata v) ns) kind d"
    unfolding metadata_stored_def using object_stored_grown [OF g o(2)] kind r by (intro exI conjI) auto
qed

lemma validate_action_descriptor_run:
  assumes "world_ok w" and "listed_ok (w_metadata w)" and "validate_action_descriptor S ns d w = (Inr kind, v)"
  obtains j where "only_reads w v" and "object_stored S (held (w_blobs v)) (visible (w_metadata v) ns) d ''action descriptor'' j"
    and "check_action_descriptor (sv_protocol S) (sv_codec S) j = Inr kind"
proof -
  from assms(3) obtain j where j: "read_canonical_object S ns d ''action descriptor'' w = (Inr j, v)"
    "check_action_descriptor (sv_protocol S) (sv_codec S) j = Inr kind"
    by (auto simp: validate_action_descriptor_def result_simps)
  from read_canonical_object_run [OF assms(1,2) j(1)] j(2) show thesis by (rule that)
qed

end

end
