(* ===== verification/Action_Commit.thy ===== *)
theory Action_Commit
  imports Result_Closure Blob_Spec
begin

text \<open>
  A commit of an action result: it is acknowledged only when everything the result names is stored
  (\<open>result_stored\<close>), and from then on the namespace answers the action with it.
\<close>

lemma if_some_run:
  assumes "if_some x f w = (Inr u, v)" and "\<And>w. Q w w"
    and "\<And>d w u v. x = Some d \<Longrightarrow> f d w = (Inr u, v) \<Longrightarrow> Q w v"
  shows "Q w v"
  using assms by (cases x) (auto simp: if_some_def)

lemma commit_reply [result_simps]:
  "(case out of CommitCreated \<Rightarrow> returnE 201 | CommitAlreadyExists \<Rightarrow> returnE 204 | CommitConflict \<Rightarrow> throwE e) w = (Inr (status :: nat), v)
    \<longleftrightarrow> (out = CommitCreated \<and> status = 201 \<or> out = CommitAlreadyExists \<and> status = 204) \<and> v = w"
  by (cases out) auto

context cache_server begin

abbreviation stored_result :: "string \<Rightarrow> action_result \<Rightarrow> ('b, 'm) world \<Rightarrow> bool" where
  "stored_result ns r w \<equiv> result_stored S (held (w_blobs w)) (visible (w_metadata w) ns) r"

lemma checked_metadata:
  assumes "world_ok w" and "listed_ok (w_metadata w)"
    and "if_some x (\<lambda>d. validate_client_metadata S ns d kind) w = (Inr u, v)"
  shows "only_reads w v" and "\<forall>d. x = Some d \<longrightarrow> metadata_stored S (held (w_blobs v)) (visible (w_metadata v) ns) kind d"
  using validate_client_metadata_run [OF assms(1,2)] only_reads_refl [OF assms(1)] assms(3)
  by (cases x; force simp: if_some_def)+

lemma checked_tree:
  assumes "world_ok w" and "listed_ok (w_metadata w)" and "if_some x (validate_tree S ns) w = (Inr u, v)"
  shows "only_reads w v" and "\<forall>d. x = Some d \<longrightarrow> tree_stored S (held (w_blobs v)) (visible (w_metadata v) ns) d"
  using validate_tree_run [OF assms(1,2)] only_reads_refl [OF assms(1)] assms(3)
  by (cases x; force simp: if_some_def)+

text \<open>The checks before the commit, as one step.\<close>

lemma checks_run:
  assumes "world_ok w" and "listed_ok (w_metadata w)" and "ar_version r = 1"
    and kind: "validate_action_descriptor S ns (ar_action r) w = (Inr kind, w1)"
    and shape: "validate_action_result_shape r kind = Inr x"
    and meta: "if_some (ar_metadata r) (\<lambda>d. validate_client_metadata S ns d kind) w1 = (Inr y, w2)"
    and tree: "if_some (ar_output_root r) (validate_tree S ns) w2 = (Inr z, w3)"
  shows "only_reads w w3" and "stored_result ns r w3"
proof -
  obtain j where w1: "only_reads w w1"
    and j: "object_stored S (held (w_blobs w1)) (visible (w_metadata w1) ns) (ar_action r) ''action descriptor'' j"
      "check_action_descriptor (sv_protocol S) (sv_codec S) j = Inr kind"
    by (rule validate_action_descriptor_run [OF assms(1,2) kind])
  note l1 = only_reads_listed [OF w1 assms(2)]
  note m = checked_metadata [OF only_reads_ok [OF w1] l1 meta]
  note l2 = only_reads_listed [OF m(1) l1]
  note t = checked_tree [OF only_reads_ok [OF m(1)] l2 tree]
  note g2 = only_reads_grown [OF t(1) l2, of ns]
  note g1 = grown_trans [OF only_reads_grown [OF m(1) l1] g2]
  show "only_reads w w3" by (rule only_reads_trans [OF only_reads_trans [OF w1 m(1)] t(1)])
  have named: "kind \<noteq> TaskKind \<longrightarrow> ar_metadata r \<noteq> None \<and> ar_output_root r \<noteq> None"
    using shape by (auto simp: validate_action_result_shape_def result_simps)
  have "\<forall>d. ar_metadata r = Some d \<longrightarrow> metadata_stored S (held (w_blobs w3)) (visible (w_metadata w3) ns) kind d"
    using m(2) metadata_stored_grown [OF g2] by blast
  with assms(3) j(2) object_stored_grown [OF g1 j(1)] named t(2) show "stored_result ns r w3"
    unfolding result_stored_def by blast
qed

lemma put_action_result_run:
  assumes "world_ok w" and "listed_ok (w_metadata w)" and "put_action_result S headers parts r w = (Inr status, v)"
  obtains ns a where "access_allowed (sv_jwt S) (fst (w_auth w)) headers Write ns" "namespace_header S headers = Some ns"
    "parse_action_digest (sv_protocol S) parts = Inr a" "ar_action r = a" "world_ok v" "blobs_kept (w_blobs w) (w_blobs v)"
    "visible (w_metadata v) = visible (w_metadata w)" "stored_result ns r v"
    "result (w_metadata v) ns a = Some r" "status = 204 \<and> result (w_metadata w) ns a = Some r \<or> status = 201"
proof -
  from assms(3) obtain ns w0 a kind w1 x w2 y w3 n out where
    auth: "authorized S headers Write w = (Inr ns, w0)" and a: "parse_action_digest (sv_protocol S) parts = Inr a"
    and guard: "ar_version r = 1" "ar_action r = a"
    and kind: "validate_action_descriptor S ns a w0 = (Inr kind, w1)"
    and shape: "validate_action_result_shape r kind = Inr ()"
    and meta: "if_some (ar_metadata r) (\<lambda>d. validate_client_metadata S ns d kind) w1 = (Inr x, w2)"
    and tree: "if_some (ar_output_root r) (validate_tree S ns) w2 = (Inr y, w3)"
    and commit: "ms_commit (sv_metadata S) ns a r (w_metadata w3) = (Inr out, n)"
    and v: "w_blobs v = w_blobs w3" "w_metadata v = n"
    and status: "out = CommitCreated \<and> status = 201 \<or> out = CommitAlreadyExists \<and> status = 204"
    by (auto simp: put_action_result_def result_simps on_metrics_def split: if_splits)
  note au = authorized_run [OF auth]
  from au(3) assms(1,2) have w0: "world_ok w0" "listed_ok (w_metadata w0)" "w_metadata w0 = w_metadata w"
    "w_blobs w0 = w_blobs w" by (auto simp: world_ok_def)
  note c = checks_run [OF w0(1,2) guard(1) kind [folded guard(2)] shape meta tree]
  from c(1) w0(3,4) have w3: "world_ok w3" "blobs_kept (w_blobs w) (w_blobs w3)"
    "visible (w_metadata w3) = visible (w_metadata w)" "result (w_metadata w3) = result (w_metadata w)"
    by (simp_all add: only_reads_def)
  have "mok (w_metadata w3)" using w3(1) by (simp add: world_ok_def)
  note co = metadata.commit [OF this commit]
  then have vis: "visible n = visible (w_metadata w3)" and ok: "mok n" by blast+
  show thesis
  proof (rule that [of ns a])
    show "access_allowed (sv_jwt S) (fst (w_auth w)) headers Write ns" "namespace_header S headers = Some ns"
      using au by blast+
    show "world_ok v" using w3(1) ok v by (simp add: world_ok_def)
    show "stored_result ns r v" using c(2) v vis by simp
    show "result (w_metadata v) ns a = Some r" using co status v by blast
    show "status = 204 \<and> result (w_metadata w) ns a = Some r \<or> status = 201" using co status w3(4) by auto
  qed (use a guard w3 v vis in simp_all)
qed

end

section \<open>The sample commit\<close>

text \<open>
  The sample blob is its own everything: as an action descriptor, as client metadata, and as a directory
  whose one file it is.
\<close>

definition sample_outcome :: action_result where
  "sample_outcome = \<lparr>ar_action = sample_blake, ar_metadata = Some sample_blake, ar_output_root = Some sample_blake,
     ar_version = 1\<rparr>"

lemma uploaded_visible:
  "visible_in sample_server ''team/app'' sample_blake uploaded_world = (Inr True, uploaded_world)"
  by (simp add: visible_in_def internalE_def on_metadata_def focus_def blob_visible_def bindE_def
      memory_store_def mem_visible_blobs_def uploaded_world_def)

lemma uploaded_object:
  "read_object sample_server ''team/app'' sample_blake e uploaded_world = (Inr [170, 170], uploaded_world)"
proof -
  have "get_stored sample_server sample_blake uploaded_world
      = (Inr (Some \<lparr>bl_size = 2, bl_stream = map Inr (chunks_of 4096 [170, 170])\<rparr>), uploaded_world)"
    by (simp add: get_stored_def internalE_def on_blobs_def focus_def filesystem_blob_store_def fs_get_def
        sample_blob_path [folded sample_store_def] io_def quiet_def uploaded_fs_def fs_stream_def bindE_def uploaded_world_def)
  moreover have "read_stream (map Inr (chunks_of 4096 [170, 170 :: u8])) [] = Inr [170, 170]"
    by (simp add: chunks_of.simps)
  ultimately show ?thesis by (simp add: read_object_def uploaded_visible)
qed

lemma uploaded_canonical:
  "read_canonical_object sample_server ''team/app'' sample_blake label uploaded_world = (Inr sample_json, uploaded_world)"
proof -
  have "decode_object sample_wire label [170, 170] = Inr sample_json"
    by (simp add: decode_object_def sample_wire_def json_is_object_def sample_json_def)
  moreover have "\<not> d_size sample_blake > max_object_bytes" by (simp add: sample_size_2 max_object_bytes_def)
  moreover have "validate_digest reference_protocol sample_blake = Inr ()"
    using sample_blake_ok by (simp add: validate_digest_ok)
  ultimately show ?thesis by (simp add: read_canonical_object_def uploaded_object)
qed

lemma uploaded_descriptor:
  "validate_action_descriptor sample_server ''team/app'' sample_blake uploaded_world = (Inr RustcKind, uploaded_world)"
proof -
  have "json_get sample_json ''kind'' = Some (JString ''rustc'')" "json_get sample_json ''version'' = Some (JNumber (PosInt 1))"
    by (simp_all add: sample_json_def json_get_def)
  then have "check_action_descriptor reference_protocol sample_wire sample_json = Inr RustcKind"
    using sample_rustc_action_ok
    by (simp add: check_action_descriptor_def json_is_object_def json_as_str_def json_as_u64_def
        validate_rustc_action_def sample_wire_def sample_json_def)
  then show ?thesis by (simp add: validate_action_descriptor_def uploaded_canonical)
qed

lemma uploaded_metadata:
  "validate_client_metadata sample_server ''team/app'' sample_blake RustcKind uploaded_world = (Inr (), uploaded_world)"
proof -
  have "validate_digest reference_protocol sample_blake = Inr ()"
    using sample_blake_ok by (simp add: validate_digest_ok)
  then have r: "require_blob sample_server ''team/app'' sample_blake label uploaded_world = (Inr (), uploaded_world)" for label
    by (simp add: require_blob_def uploaded_visible)
  have "metadata_version sample_json RustcKind = Inr 1"
    by (simp add: metadata_version_def sample_json_def json_get_def json_is_object_def json_as_str_def json_as_u64_def kind_name_def)
  then show ?thesis
    by (simp add: validate_client_metadata_def uploaded_canonical validate_rustc_metadata_def require_output_blobs_def
        sample_wire_def sample_output_def r)
qed

lemma uploaded_directory:
  "read_directory sample_server ''team/app'' sample_blake uploaded_world = (Inr sample_directory, uploaded_world)"
proof -
  have "validate_directory_entries sample_directory = Inr ()"
    by (simp add: validate_directory_entries_ok sample_directory_def safe_component_def plain_component_def)
  then have "decode_directory sample_wire [170, 170] = Inr sample_directory"
    by (simp add: decode_directory_def sample_wire_def) (simp add: sample_directory_def)
  moreover have "validate_digest reference_protocol sample_blake = Inr ()"
    using sample_blake_ok by (simp add: validate_digest_ok)
  then have "file_digests reference_protocol (dir_files sample_directory) [] = Inr [sample_blake]"
    by (simp add: sample_directory_def)
  then have "require_files sample_server ''team/app'' sample_directory uploaded_world = (Inr (), uploaded_world)"
    by (simp add: require_files_def internalE_def on_metadata_def focus_def memory_store_def mem_visible_blobs_def
        uploaded_world_def)
  ultimately show ?thesis
    by (simp add: read_directory_def uploaded_object sample_size_2 max_object_bytes_def)
qed

lemma uploaded_tree:
  "validate_tree sample_server ''team/app'' sample_blake uploaded_world = (Inr (), uploaded_world)"
  by (simp add: validate_tree_def walk_tree.simps visit_step_def uploaded_directory sample_directory_def
      max_tree_directories_def)

definition committed_world :: "(fs, memory_metadata) world" where
  "committed_world = snd (put_action_result sample_server put_headers sample_parts sample_outcome uploaded_world)"

lemma sample_put_result:
  shows "put_action_result sample_server put_headers sample_parts sample_outcome uploaded_world = (Inr 201, committed_world)"
    and committed_auth: "w_auth committed_world = w_auth uploaded_world"
proof -
  have auth: "authorized sample_server put_headers Write uploaded_world = (Inr ''team/app'', uploaded_world)"
    by (rule sample_authorized) (simp add: uploaded_world_def sample_world_def)
  have pre: "require_immutable_precondition (jl_to_str sample_jwt) put_headers = Inr ()"
    by (simp add: require_immutable_precondition_def header_str_def put_headers_def sample_jwt_def)
  have parse: "parse_action_digest reference_protocol sample_parts = Inr sample_blake"
    using sample_blake_ok by (simp add: sample_parts_def parse_action_digest_ok sample_blake_def)
  obtain r t where run: "mem_commit reference_codec ''team/app'' sample_blake sample_outcome (w_metadata uploaded_world) = (r, t)"
    by fastforce
  from reference_codec_ok uploaded_world_ok(2) this have "r = Inr CommitCreated"
    by (cases rule: mem_commit_cases) (simp_all add: mem_result_def uploaded_world_def memory_default_def)
  with run have commit: "internalE (on_metadata (ms_commit (memory_store reference_codec) ''team/app'' sample_blake sample_outcome))
      uploaded_world = (Inr CommitCreated, uploaded_world\<lparr>w_metadata := t\<rparr>)"
    by (simp add: internalE_def on_metadata_def focus_def memory_store_def)
  have "put_action_result sample_server put_headers sample_parts sample_outcome uploaded_world
      = (Inr 201, uploaded_world\<lparr>w_metadata := t, w_metrics := inc_action_commit (w_metrics uploaded_world)\<rparr>)"
    by (simp add: put_action_result_def auth pre parse sample_outcome_def uploaded_descriptor
        validate_action_result_shape_def check_def if_some_def uploaded_metadata uploaded_tree
        commit [unfolded sample_outcome_def] on_metrics_def)
  then show "put_action_result sample_server put_headers sample_parts sample_outcome uploaded_world = (Inr 201, committed_world)"
    and "w_auth committed_world = w_auth uploaded_world"
    by (simp_all add: committed_world_def)
qed

section \<open>The property\<close>

lemma result_closed_lemma:
  assumes "cache_server S bok held mok visible result manifest" and "bok (w_blobs w)" and "mok (w_metadata w)"
    and "\<forall>ns d. visible (w_metadata w) ns d \<longrightarrow> digest_ok (sv_protocol S) d"
    and "put_action_result S headers parts r w = (Inr status, v)"
  shows "\<exists>ns. access_allowed (sv_jwt S) (fst (w_auth w)) headers Write ns \<and> ar_action r = digest_of_parts parts
    \<and> result_stored S (held (w_blobs v)) (visible (w_metadata v) ns) r
    \<and> result (w_metadata v) ns (ar_action r) = Some r
    \<and> (status = 201 \<or> status = 204 \<and> result (w_metadata w) ns (ar_action r) = Some r)"
proof -
  have ok: "cache_server.world_ok bok mok w"
    using assms(2,3) by (simp add: cache_server.world_ok_def [OF assms(1)])
  have listed: "cache_server.listed_ok S visible (w_metadata w)"
    using assms(4) by (simp add: cache_server.listed_ok_def [OF assms(1)])
  obtain ns a where "access_allowed (sv_jwt S) (fst (w_auth w)) headers Write ns"
    "parse_action_digest (sv_protocol S) parts = Inr a" "ar_action r = a"
    "result_stored S (held (w_blobs v)) (visible (w_metadata v) ns) r" "result (w_metadata v) ns a = Some r"
    "status = 204 \<and> result (w_metadata w) ns a = Some r \<or> status = 201"
    by (rule cache_server.put_action_result_run [OF assms(1) ok listed assms(5)])
  then show ?thesis by (cases parts) (auto simp: parse_action_digest_ok digest_of_parts_def)
qed



end
