(* ===== verification/Pack_Upload.thy ===== *)
theory Pack_Upload
  imports Blob_Requests
begin

text \<open>
  What an uploaded pack does. \<open>uploading\<close> is the invariant of the request between two events of its
  reader: \<open>fs\<close> are the frames completed so far and \<open>cur\<close> the open one, the spooled frame is \<open>cur\<close>'s
  content with its running hash, and every completed frame is verified and being stored, or stored, or
  its failure is waiting to be taken. \<open>R\<close> is any relation that carries verified uploads, \<open>L\<close> what a
  successful publication establishes and \<open>R\<close> keeps.
\<close>

lemma run_store_eq:
  "run_store S ns k (u, w) =
    (if k < length (pu_running u)
     then (u\<lparr>pu_running := take k (pu_running u) @ drop (Suc k) (pu_running u),
             pu_done := pu_done u @ [fst (frame_store S ns (pu_running u ! k) w)]\<rparr>,
           snd (frame_store S ns (pu_running u ! k) w))
     else (u, w))"
  by (simp add: run_store_def split_beta)

lemma stores_len_run_store: "stores_len (fst (run_store S ns k s)) = stores_len (fst s)"
  by (cases s) (auto simp: run_store_eq stores_len_def)

lemma stores_len_runs: "stores_len (fst (fold (run_store S ns) ks s)) = stores_len (fst s)"
  by (induction ks arbitrary: s) (simp_all add: stores_len_run_store)

lemma stores_len_progress: "stores_len (fst (progress S ns s)) = stores_len (fst s)"
  by (cases s) (simp add: progress_def stores_len_runs split: list.split)

text \<open>The state after the background tasks had their turn, with one result forced when there is none.\<close>

definition advance :: "('b, 'm, 'h) server \<Rightarrow> string \<Rightarrow> 'h pack_upload \<times> ('b, 'm) world \<Rightarrow> 'h pack_upload \<times> ('b, 'm) world" where
  "advance S ns s = (let t = progress S ns s in if pu_done (fst t) = [] then run_store S ns 0 t else t)"

lemma next_stored_eq:
  "next_stored S ns s = (case pu_done (fst (advance S ns s)) of
      [] \<Rightarrow> (Inr None, advance S ns s)
    | r # rs \<Rightarrow> (Inr (Some r), apfst (\<lambda>u. u\<lparr>pu_done := rs\<rparr>) (advance S ns s)))"
  by (auto simp: next_stored_def advance_def Let_def apfst_def map_prod_def split: prod.splits list.splits)

lemma stores_len_advance: "stores_len (fst (advance S ns s)) = stores_len (fst s)"
  by (simp add: advance_def Let_def stores_len_run_store stores_len_progress)

lemma advance_empty: "pu_done (fst (advance S ns s)) = [] \<longleftrightarrow> stores_len (fst s) = 0"
proof -
  have "pu_done (fst (advance S ns s)) = [] \<longleftrightarrow> stores_len (fst (progress S ns s)) = 0"
    by (cases "progress S ns s") (auto simp: advance_def Let_def run_store_eq stores_len_def)
  then show ?thesis by (simp add: stores_len_progress)
qed

lemma next_stored_None: "next_stored S ns s = (Inr None, t) \<longleftrightarrow> stores_len (fst s) = 0 \<and> t = advance S ns s"
  using advance_empty [of S ns s] by (auto simp: next_stored_eq split: list.splits)

lemma next_stored_Some:
  assumes "next_stored S ns s = (Inr (Some r), t)"
  shows "pu_done (fst (advance S ns s)) = r # pu_done (fst t)"
    and "t = apfst (\<lambda>u. u\<lparr>pu_done := pu_done (fst t)\<rparr>) (advance S ns s)"
    and "stores_len (fst s) = Suc (stores_len (fst t))"
proof -
  show r: "pu_done (fst (advance S ns s)) = r # pu_done (fst t)"
    and t: "t = apfst (\<lambda>u. u\<lparr>pu_done := pu_done (fst t)\<rparr>) (advance S ns s)"
    using assms by (auto simp: next_stored_eq split: list.splits)
  from t have "pu_running (fst t) = pu_running (fst (advance S ns s))" by (metis fst_apfst pack_upload.select_convs(3) pack_upload.update_convs(4) pack_upload.surjective)
  with r show "stores_len (fst s) = Suc (stores_len (fst t))"
    using stores_len_advance [of S ns s] by (simp add: stores_len_def)
qed

lemma next_stored_Inl [simp]: "next_stored S ns s \<noteq> (Inl e, t)"
  by (simp add: next_stored_eq split: list.split)

text \<open>The reader only moves between chunks.\<close>

abbreviation same_reader :: "('h pack_upload \<times> ('b, 'm) world) \<Rightarrow> ('h pack_upload \<times> ('b, 'm) world) \<Rightarrow> bool" where
  "same_reader s t \<equiv> pu_reader (fst t) = pu_reader (fst s)"

lemma run_store_reader: "pu_reader (fst (run_store S ns k s)) = pu_reader (fst s)"
  by (cases s) (simp add: run_store_eq)

lemma runs_reader: "pu_reader (fst (fold (run_store S ns) ks s)) = pu_reader (fst s)"
  by (induction ks arbitrary: s) (simp_all add: run_store_reader)

lemma progress_reader: "pu_reader (fst (progress S ns s)) = pu_reader (fst s)"
  by (cases s) (simp add: progress_def runs_reader split: list.split)

lemma advance_reader: "pu_reader (fst (advance S ns s)) = pu_reader (fst s)"
  by (simp add: advance_def Let_def run_store_reader progress_reader)

lemma next_stored_reader: "moves same_reader (next_stored S ns)"
proof (rule moves_any)
  fix s r t assume run: "next_stored S ns s = (r, t)"
  obtain u w where a: "advance S ns s = (u, w)" by fastforce
  show "same_reader s t"
    using run advance_reader [of S ns s] by (auto simp: a next_stored_eq split: list.splits)
qed

lemma count_stored_reader: "moves same_reader (count_stored r)"
  by (cases r; auto simp: moves_def count_stored_def on_upload_def split: put_outcome.split)

lemma count_remaining_reader: "moves same_reader (count_remaining S ns n)"
proof (induction n)
  case (Suc n)
  show ?case unfolding count_remaining.simps
    by (intro moves_bind keeps_preorder next_stored_reader moves_case_option moves_return count_stored_reader Suc)
qed (simp add: moves_def)

lemma on_world_reader: "moves same_reader (on_world m)"
  by (simp add: moves_def on_world_def focus_def split_beta)

lemma or_drop_reader: "moves same_reader m \<Longrightarrow> moves same_reader (or_drop k m)"
proof (rule moves_any)
  fix s r t assume m: "moves same_reader m" and run: "or_drop k m s = (r, t)"
  obtain q u w where q: "m s = (q, (u, w))" by (metis prod.collapse)
  from moves_step [OF m q] q run show "same_reader s t" by (cases q) (auto simp: or_drop_def)
qed

lemma frame_complete_reader: "moves same_reader (frame_complete S ns f)"
proof -
  have "moves same_reader (\<lambda>(u, w). if stores_len u \<ge> sv_pack_store_concurrency S
         then bindE (next_stored S ns) (\<lambda>res. case res of None \<Rightarrow> returnE () | Some r \<Rightarrow> count_stored r) (u, w)
         else (Inr (), (u, w)))"
  proof -
    have "moves same_reader (bindE (next_stored S ns) (\<lambda>res. case res of None \<Rightarrow> returnE () | Some r \<Rightarrow> count_stored r))"
      by (intro moves_bind keeps_preorder next_stored_reader moves_case_option moves_return count_stored_reader)
    then show ?thesis by (simp add: moves_def)
  qed
  then have "moves same_reader (bindE (on_world (frame_verify S f)) (\<lambda>_. (\<lambda>(u, w). if stores_len u \<ge> sv_pack_store_concurrency S
         then bindE (next_stored S ns) (\<lambda>res. case res of None \<Rightarrow> returnE () | Some r \<Rightarrow> count_stored r) (u, w)
         else (Inr (), (u, w)))))"
    by (intro moves_bind keeps_preorder on_world_reader)
  note or_drop_reader [OF this]
  then show ?thesis
    unfolding frame_complete_def by (intro moves_bind keeps_preorder) (simp_all add: moves_def on_upload_def split_beta)
qed

lemma handle_event_reader: "moves same_reader (handle_event S ns ev)"
proof (rule moves_any)
  fix s r t assume run: "handle_event S ns ev s = (r, t)"
  obtain u w where p: "progress S ns s = (u, w)" by fastforce
  then have pr: "pu_reader u = pu_reader (fst s)" using progress_reader [of S ns s] by simp
  have "pu_reader (fst t) = pu_reader u"
  proof (cases ev)
    case (Started d)
    have "moves same_reader (bindE (on_world (bindE (on_spool (reserve (d_size d))) (frame_new S d))) (\<lambda>f.
        modifyE (\<lambda>(u, w). (u\<lparr>pu_frame := Some f\<rparr>,
          case pu_frame u of None \<Rightarrow> w | Some old \<Rightarrow> drop_permit (pf_permit old) w))))"
      by (intro moves_bind keeps_preorder on_world_reader moves_modify) (simp add: split_beta)
    moreover from run p Started have "bindE (on_world (bindE (on_spool (reserve (d_size d))) (frame_new S d))) (\<lambda>f.
        modifyE (\<lambda>(u, w). (u\<lparr>pu_frame := Some f\<rparr>,
          case pu_frame u of None \<Rightarrow> w | Some old \<Rightarrow> drop_permit (pf_permit old) w))) (u, w) = (r, t)"
      by (simp add: handle_event_def)
    ultimately show ?thesis using moves_step by fastforce
  next
    case (Payload b)
    show ?thesis
    proof (cases "pu_frame u")
      case None
      with run p Payload show ?thesis by (auto simp: handle_event_def p)
    next
      case (Some f)
      have "moves same_reader (bindE (on_world (frame_write S b f)) (\<lambda>f. on_upload (\<lambda>u. u\<lparr>pu_frame := Some f\<rparr>)))"
        by (intro moves_bind keeps_preorder on_world_reader) (simp add: moves_def on_upload_def split_beta)
      moreover from run p Payload Some have
        "bindE (on_world (frame_write S b f)) (\<lambda>f. on_upload (\<lambda>u. u\<lparr>pu_frame := Some f\<rparr>)) (u, w) = (r, t)"
        by (simp add: handle_event_def)
      ultimately show ?thesis using moves_step by fastforce
    qed
  next
    case Complete
    show ?thesis
    proof (cases "pu_frame u")
      case None
      with run p Complete show ?thesis by (auto simp: handle_event_def p)
    next
      case (Some f)
      with run p Complete have "frame_complete S ns f (u\<lparr>pu_frame := None\<rparr>, w) = (r, t)"
        by (simp add: handle_event_def)
      from moves_step [OF frame_complete_reader this] show ?thesis by simp
    qed
  qed
  with pr show "same_reader s t" by simp
qed

lemma handle_events_reader: "moves same_reader (forE evs (handle_event S ns))"
  by (rule moves_for [OF keeps_preorder handle_event_reader])

section \<open>The invariant\<close>

text \<open>The spooled frame of a digest: the bytes so far, with their hash and their number.\<close>

definition spooled :: "('b, 'm, 'h) server \<Rightarrow> frame \<Rightarrow> 'h pack_frame \<Rightarrow> bool" where
  "spooled S c f \<longleftrightarrow> pf_digest f = fst c \<and> in_size (pf_intake f) = of_nat (length (snd c))
     \<and> (\<forall>a. algorithm_kind (sv_protocol S) (fst c) = Inr a \<longrightarrow> took S a (snd c) (pf_intake f))"

fun frame_open :: "('b, 'm, 'h) server \<Rightarrow> frame option \<Rightarrow> 'h pack_frame option \<Rightarrow> bool" where
  "frame_open S None opened = (opened = None)"
| "frame_open S (Some c) opened = (\<exists>f. opened = Some f \<and> spooled S c f)"

definition frame_verified :: "('b, 'm, 'h) server \<Rightarrow> 'h pack_frame \<Rightarrow> bool" where
  "frame_verified S f \<longleftrightarrow> digest_ok (sv_protocol S) (pf_digest f)
     \<and> content_matches S (pf_digest f) (in_content (pf_intake f))"

context cache_server begin

definition tracks :: "string \<Rightarrow> ('b, 'm) world \<Rightarrow> (('b, 'm) world \<Rightarrow> ('b, 'm) world \<Rightarrow> bool)
    \<Rightarrow> (digest \<Rightarrow> ('b, 'm) world \<Rightarrow> bool) \<Rightarrow> bool" where
  "tracks ns w0 R L \<longleftrightarrow> carries ns R \<and> (\<forall>d w v. R w v \<longrightarrow> L d w \<longrightarrow> L d v)
     \<and> (\<forall>d content out w v. R w0 w \<longrightarrow> digest_ok (sv_protocol S) d \<longrightarrow> content_matches S d content
          \<longrightarrow> publish S ns d content w = (Inr out, v) \<longrightarrow> L d v)"

lemma tracks_facts:
  assumes "tracks ns w0 R L"
  shows "carries ns R" and "preorder_rel R" and "R w v \<Longrightarrow> L d w \<Longrightarrow> L d v"
    and "untouched w v \<Longrightarrow> R w v" and "R u w \<Longrightarrow> R w v \<Longrightarrow> R u v"
  using assms by (auto simp: tracks_def carries_def elim: preorder_rel_trans)

text \<open>What holds even after an error, until the handler has answered.\<close>

definition aborting :: "('b, 'm) world \<Rightarrow> (('b, 'm) world \<Rightarrow> ('b, 'm) world \<Rightarrow> bool) \<Rightarrow> 'h pack_upload \<times> ('b, 'm) world \<Rightarrow> bool" where
  "aborting w0 R s \<longleftrightarrow> R w0 (snd s) \<and> (\<forall>f \<in> set (pu_running (fst s)). frame_verified S f)"

definition uploading :: "('b, 'm) world \<Rightarrow> (('b, 'm) world \<Rightarrow> ('b, 'm) world \<Rightarrow> bool) \<Rightarrow> (digest \<Rightarrow> ('b, 'm) world \<Rightarrow> bool)
    \<Rightarrow> frame option \<Rightarrow> frame list \<Rightarrow> 'h pack_upload \<times> ('b, 'm) world \<Rightarrow> bool" where
  "uploading w0 R L cur fs s \<longleftrightarrow> aborting w0 R s \<and> frame_open S cur (pu_frame (fst s))
     \<and> (\<forall>f \<in> set fs. L (fst f) (snd s) \<or> (\<exists>g \<in> set (pu_running (fst s)). pf_digest g = fst f)
          \<or> (\<exists>e. Inl e \<in> set (pu_done (fst s))))
     \<and> pu_created (fst s) + pu_existing (fst s) + of_nat (stores_len (fst s)) = of_nat (length fs)
     \<and> unat (pu_created (fst s)) + unat (pu_existing (fst s)) + stores_len (fst s) \<le> length fs"

lemma uploading_aborting: "uploading w0 R L cur fs s \<Longrightarrow> aborting w0 R s"
  by (simp add: uploading_def)

lemma frame_store_run:
  assumes T: "tracks ns w0 R L" and w: "R w0 w" and f: "frame_verified S f" and run: "frame_store S ns f w = (r, v)"
  shows "R w v" and "r = Inr out \<Longrightarrow> L (pf_digest f) v"
proof -
  note t = tracks_facts [OF T]
  have f': "digest_ok (sv_protocol S) (pf_digest f)" "content_matches S (pf_digest f) (in_content (pf_intake f))"
    using f by (simp_all add: frame_verified_def)
  have "moves R (frame_store S ns f)"
    unfolding frame_store_def by (rule carries_permit [OF t(1) carries_facts(3) [OF t(1) f']])
  then show "R w v" using run by (rule moves_step)
  assume r: "r = Inr out"
  from run obtain u where u: "publish S ns (pf_digest f) (in_content (pf_intake f)) w = (r, u)"
    and v: "v = u\<lparr>w_spool := release (pf_permit f) (w_spool u)\<rparr>"
    by (auto simp: frame_store_def with_permit_def split: prod.splits)
  have "L (pf_digest f) u" using T w f' u r by (auto simp: tracks_def)
  moreover have "R u v" by (rule t(4)) (simp add: v untouched_def)
  ultimately show "L (pf_digest f) v" by (rule t(3) [rotated])
qed

lemma run_store_uploading:
  assumes T: "tracks ns w0 R L" and s: "uploading w0 R L cur fs s"
  shows "uploading w0 R L cur fs (run_store S ns k s)"
proof -
  obtain u w where uw: "s = (u, w)" by fastforce
  show ?thesis
  proof (cases "k < length (pu_running u)")
    case False
    with s show ?thesis by (simp add: uw run_store_eq)
  next
    case True
    let ?f = "pu_running u ! k" and ?rest = "take k (pu_running u) @ drop (Suc k) (pu_running u)"
    have run: "set (pu_running u) = insert ?f (set ?rest)"
      by (subst (1) id_take_nth_drop [OF True]) auto
    obtain r v where r: "frame_store S ns ?f w = (r, v)" by fastforce
    have w: "R w0 w" and ver: "\<forall>f \<in> set (pu_running u). frame_verified S f"
      using s by (auto simp: uw uploading_def aborting_def)
    from ver True have "frame_verified S ?f" by simp
    note fs_run = frame_store_run [OF T w this r]
    have "L (fst c) v \<or> (\<exists>g \<in> set ?rest. pf_digest g = fst c) \<or> (\<exists>e. Inl e \<in> set (pu_done u @ [r]))" if "c \<in> set fs" for c
    proof -
      from s that consider "L (fst c) w" | "\<exists>g \<in> set ?rest. pf_digest g = fst c" | "pf_digest ?f = fst c"
        | "\<exists>e. Inl e \<in> set (pu_done u)" by (auto simp: uw uploading_def run)
      then show ?thesis
      proof cases
        case 1
        then show ?thesis using tracks_facts(3) [OF T fs_run(1)] by blast
      next
        case 3
        then show ?thesis using fs_run(2) by (cases r) auto
      qed auto
    qed
    moreover have "stores_len (u\<lparr>pu_running := ?rest, pu_done := pu_done u @ [r]\<rparr>) = stores_len u"
      using True by (simp add: stores_len_def)
    ultimately show ?thesis
      using s tracks_facts(5) [OF T w fs_run(1)] True ver run
      by (simp add: uw run_store_eq r uploading_def aborting_def)
  qed
qed

lemma run_store_aborting:
  assumes T: "tracks ns w0 R L" and s: "aborting w0 R s"
  shows "aborting w0 R (run_store S ns k s)"
proof -
  obtain u w where uw: "s = (u, w)" by fastforce
  show ?thesis
  proof (cases "k < length (pu_running u)")
    case False
    with s show ?thesis by (simp add: uw run_store_eq)
  next
    case True
    obtain r v where r: "frame_store S ns (pu_running u ! k) w = (r, v)" by fastforce
    have w: "R w0 w" and ver: "\<forall>f \<in> set (pu_running u). frame_verified S f" using s by (auto simp: uw aborting_def)
    with True have "R w v" by (intro frame_store_run(1) [OF T w _ r]) simp
    from tracks_facts(5) [OF T w this] ver True show ?thesis
      by (auto simp: uw run_store_eq r aborting_def dest: in_set_takeD in_set_dropD)
  qed
qed

section \<open>The background\<close>

lemma uploading_world:
  assumes T: "tracks ns w0 R L" and "uploading w0 R L cur fs (u, w)" and "untouched w v"
  shows "uploading w0 R L cur fs (u, v)"
proof -
  note R = tracks_facts(4) [OF T assms(3)]
  have "R w0 v" using assms(2) R by (auto simp: uploading_def aborting_def intro: tracks_facts(5) [OF T])
  with assms(2) tracks_facts(3) [OF T R] show ?thesis by (auto simp: uploading_def aborting_def)
qed

lemma aborting_world:
  assumes T: "tracks ns w0 R L" and "aborting w0 R (u, w)" and "untouched w v"
  shows "aborting w0 R (u, v)"
  using assms(2) tracks_facts(4) [OF T assms(3)] by (auto simp: aborting_def intro: tracks_facts(5) [OF T])

lemma runs_keep:
  assumes "tracks ns w0 R L"
  shows "uploading w0 R L cur fs s \<Longrightarrow> uploading w0 R L cur fs (fold (run_store S ns) ks s)"
    and "aborting w0 R s \<Longrightarrow> aborting w0 R (fold (run_store S ns) ks s)"
  by (induction ks arbitrary: s) (simp_all add: run_store_uploading [OF assms] run_store_aborting [OF assms])

lemma progress_keeps:
  assumes T: "tracks ns w0 R L"
  shows "uploading w0 R L cur fs s \<Longrightarrow> uploading w0 R L cur fs (progress S ns s)"
    and "aborting w0 R s \<Longrightarrow> aborting w0 R (progress S ns s)"
proof -
  obtain u w where uw: "s = (u, w)" by fastforce
  show "uploading w0 R L cur fs s \<Longrightarrow> uploading w0 R L cur fs (progress S ns s)"
    by (auto simp: uw progress_def intro!: runs_keep(1) [OF T] split: list.split)
      (erule uploading_world [OF T], simp add: untouched_def)
  show "aborting w0 R s \<Longrightarrow> aborting w0 R (progress S ns s)"
    by (auto simp: uw progress_def intro!: runs_keep(2) [OF T] split: list.split)
      (erule aborting_world [OF T], simp add: untouched_def)
qed

lemma advance_keeps:
  assumes T: "tracks ns w0 R L"
  shows "uploading w0 R L cur fs s \<Longrightarrow> uploading w0 R L cur fs (advance S ns s)"
    and "aborting w0 R s \<Longrightarrow> aborting w0 R (advance S ns s)"
  by (simp_all add: advance_def Let_def progress_keeps [OF T] run_store_uploading [OF T] run_store_aborting [OF T])

lemma next_stored_aborting:
  assumes T: "tracks ns w0 R L" and "aborting w0 R s" and "next_stored S ns s = (r, t)"
  shows "aborting w0 R t"
proof -
  obtain u w where a: "advance S ns s = (u, w)" by fastforce
  from advance_keeps(2) [OF T assms(2)] assms(3) show ?thesis
    by (auto simp: a next_stored_eq aborting_def split: list.splits)
qed

lemma drain_aborting: "tracks ns w0 R L \<Longrightarrow> aborting w0 R s \<Longrightarrow> aborting w0 R (drain S ns n s)"
proof (induction n arbitrary: s)
  case (Suc n)
  obtain r t where r: "next_stored S ns s = (r, t)" by (cases "next_stored S ns s")
  from next_stored_aborting [OF Suc.prems r] Suc.IH [OF Suc.prems(1), of t] r show ?case
    by (auto split: sum.split option.split)
qed simp

text \<open>Taking a result and counting it.\<close>

lemma unat_Suc_le: "unat (1 + x) \<le> Suc (unat x)" for x :: u64
  by (simp add: unat_word_ariths)

lemma counted:
  assumes "uploading w0 R L cur fs (u, w)" and "pu_done u = Inr out # rs"
  shows "uploading w0 R L cur fs (u\<lparr>pu_done := rs, pu_created := 1 + pu_created u\<rparr>, w)"
    and "uploading w0 R L cur fs (u\<lparr>pu_done := rs, pu_existing := 1 + pu_existing u\<rparr>, w)"
proof -
  have due: "\<forall>f \<in> set fs. L (fst f) w \<or> (\<exists>g \<in> set (pu_running u). pf_digest g = fst f) \<or> (\<exists>e. Inl e \<in> set rs)"
    using assms by (simp add: uploading_def)
  have len: "stores_len u = Suc (stores_len (u\<lparr>pu_done := rs\<rparr>))" using assms(2) by (simp add: stores_len_def)
  show "uploading w0 R L cur fs (u\<lparr>pu_done := rs, pu_created := 1 + pu_created u\<rparr>, w)"
    using assms(1) due len unat_Suc_le [of "pu_created u"]
    by (simp add: uploading_def aborting_def stores_len_def add.assoc add.left_commute)
  show "uploading w0 R L cur fs (u\<lparr>pu_done := rs, pu_existing := 1 + pu_existing u\<rparr>, w)"
    using assms(1) due len unat_Suc_le [of "pu_existing u"]
    by (simp add: uploading_def aborting_def stores_len_def add.assoc add.left_commute)
qed

lemma take_result:
  assumes T: "tracks ns w0 R L" and s: "uploading w0 R L cur fs s" and r: "next_stored S ns s = (Inr (Some r), t)"
    and c: "count_stored r t = (q, v)"
  shows "aborting w0 R v" and "q = Inr () \<Longrightarrow> uploading w0 R L cur fs v"
    and "q = Inr () \<Longrightarrow> stores_len (fst s) = Suc (stores_len (fst v))"
proof -
  note n = next_stored_Some [OF r]
  obtain u w where a: "advance S ns s = (u, w)" by fastforce
  obtain rs where t: "t = (u\<lparr>pu_done := rs\<rparr>, w)" and d: "pu_done u = r # rs" using n(1,2) a by (cases t) auto
  have u: "uploading w0 R L cur fs (u, w)" using advance_keeps(1) [OF T s] a by simp
  have v: "aborting w0 R v \<and> (q = Inr () \<longrightarrow> uploading w0 R L cur fs v \<and> stores_len (fst v) = stores_len (fst t))"
  proof (cases r)
    case (Inl e)
    with c t u show ?thesis by (auto simp: count_stored_def uploading_def aborting_def)
  next
    case (Inr out)
    note n = counted [OF u d [unfolded Inr]]
    have "aborting w0 R v \<and> uploading w0 R L cur fs v \<and> stores_len (fst v) = stores_len (fst t)"
    proof (cases out)
      case Created
      with c t Inr have "v = (u\<lparr>pu_done := rs, pu_created := 1 + pu_created u\<rparr>, w)"
        by (auto simp: count_stored_def on_upload_def add.commute)
      with n(1) t show ?thesis by (simp add: uploading_aborting stores_len_def)
    next
      case AlreadyExists
      with c t Inr have "v = (u\<lparr>pu_done := rs, pu_existing := 1 + pu_existing u\<rparr>, w)"
        by (auto simp: count_stored_def on_upload_def add.commute)
      with n(2) t show ?thesis by (simp add: uploading_aborting stores_len_def)
    qed
    then show ?thesis by blast
  qed
  from v show "aborting w0 R v" "q = Inr () \<Longrightarrow> uploading w0 R L cur fs v" by blast+
  show "q = Inr () \<Longrightarrow> stores_len (fst s) = Suc (stores_len (fst v))" using v n(3) by simp
qed

lemma count_remaining_run:
  assumes T: "tracks ns w0 R L"
  shows "uploading w0 R L cur fs s \<Longrightarrow> stores_len (fst s) \<le> n \<Longrightarrow> count_remaining S ns n s = (q, t) \<Longrightarrow>
    aborting w0 R t \<and> (q = Inr () \<longrightarrow> uploading w0 R L cur fs t \<and> stores_len (fst t) = 0)"
proof (induction n arbitrary: s)
  case 0
  then show ?case by (auto intro: uploading_aborting)
next
  case (Suc n)
  obtain x u where x: "next_stored S ns s = (x, u)" by (cases "next_stored S ns s")
  show ?case
  proof (cases x)
    case (Inr found)
    show ?thesis
    proof (cases found)
      case None
      with x Inr have e: "stores_len (fst s) = 0" "u = advance S ns s" by (simp_all add: next_stored_None)
      from x Inr None Suc.prems(3) have "t = u" "q = Inr ()" by (auto simp: bindE_def)
      with e advance_keeps(1) [OF T Suc.prems(1)] stores_len_advance [of S ns s] show ?thesis
        by (simp add: uploading_aborting)
    next
      case (Some r)
      with x Inr have r: "next_stored S ns s = (Inr (Some r), u)" by simp
      obtain y v where y: "count_stored r u = (y, v)" by (cases "count_stored r u")
      note tr = take_result [OF T Suc.prems(1) r y]
      show ?thesis
      proof (cases y)
        case (Inl e)
        with r y Suc.prems(3) tr(1) show ?thesis by (auto simp: bindE_def)
      next
        case (Inr z)
        with r y Suc.prems(3) have "count_remaining S ns n v = (q, t)" by (simp add: bindE_def)
        from Suc.IH [OF _ _ this] tr Inr Suc.prems(2) show ?thesis by simp
      qed
    qed
  qed (use x in simp)
qed

section \<open>A completed frame\<close>

lemma frame_verify_run:
  assumes "spooled S c f" and "frame_valid (sv_protocol S) mb c" and "frame_verify S f w = (r, v)"
  shows "untouched w v" and "r = Inr () \<Longrightarrow> frame_verified S f"
proof -
  have "moves untouched (frame_verify S f)"
    unfolding frame_verify_def
    by (intro moves_bind untouched_preorder untouched_prims(1) moves_lift moves_if moves_throw moves_return)
  then show "untouched w v" using assms(3) by (rule moves_step)
  assume "r = Inr ()"
  with assms(3) obtain actual where actual: "actual_hash S (pf_digest f) (pf_intake f) = Inr actual"
    "actual = d_hash (pf_digest f)" by (auto simp: frame_verify_def result_simps split: if_splits)
  have d: "pf_digest f = fst c" "digest_ok (sv_protocol S) (fst c)" "length (snd c) = unat (d_size (fst c))"
    using assms(1,2) by (simp_all add: spooled_def frame_valid_def)
  obtain a where a: "algorithm_kind (sv_protocol S) (fst c) = Inr a" using protocol d(2) by (rule digest_ok_algorithm)
  with assms(1) have took: "took S a (snd c) (pf_intake f)" by (simp add: spooled_def)
  from actual_hash_run [OF a actual(1) [unfolded d(1)]] actual(2) took d(1) have
    "hex_encode (sv_protocol S) (hash_content (hasher_of S a) (snd c)) = d_hash (fst c)"
    by (simp add: took_def hash_content_def)
  with a d took show "frame_verified S f" by (simp add: frame_verified_def content_matches_def took_def)
qed

lemma make_room_run:
  assumes T: "tracks ns w0 R L" and s: "uploading w0 R L cur fs s"
    and run: "(if b then bindE (next_stored S ns) (\<lambda>res. case res of None \<Rightarrow> returnE () | Some r \<Rightarrow> count_stored r) s
      else (Inr (), s)) = (q, t)"
  shows "aborting w0 R t" and "q = Inr () \<Longrightarrow> uploading w0 R L cur fs t"
proof -
  have "aborting w0 R t \<and> (q = Inr () \<longrightarrow> uploading w0 R L cur fs t)"
  proof (cases b)
    case True
    obtain x u where x: "next_stored S ns s = (x, u)" by (cases "next_stored S ns s")
    then obtain found where found: "x = Inr found" by (cases x) auto
    show ?thesis
    proof (cases found)
      case None
      with x found have "u = advance S ns s" by (simp add: next_stored_None)
      with run True x found None advance_keeps(1) [OF T s] show ?thesis
        by (auto simp: bindE_def uploading_aborting)
    next
      case (Some r)
      with x found have r: "next_stored S ns s = (Inr (Some r), u)" by simp
      with run True have "count_stored r u = (q, t)" by (simp add: bindE_def)
      from take_result [OF T s r this] show ?thesis by blast
    qed
  qed (use run s uploading_aborting in auto)
  then show "aborting w0 R t" "q = Inr () \<Longrightarrow> uploading w0 R L cur fs t" by blast+
qed

lemma aborting_drop: "tracks ns w0 R L \<Longrightarrow> aborting w0 R (u, w) \<Longrightarrow> aborting w0 R (u, drop_permit k w)"
  by (erule aborting_world) (simp_all add: drop_permit_def untouched_def)

lemma start_store:
  assumes "uploading w0 R L None fs (u, w)" and "frame_verified S f" and "pf_digest f = fst c"
  shows "uploading w0 R L None (fs @ [c]) (u\<lparr>pu_running := pu_running u @ [f]\<rparr>, w)"
  using assms by (auto simp: uploading_def aborting_def stores_len_def algebra_simps)

lemma frame_complete_run:
  assumes T: "tracks ns w0 R L" and s: "uploading w0 R L None fs (u, w)"
    and f: "spooled S c f" "frame_valid (sv_protocol S) mb c" and run: "frame_complete S ns f (u, w) = (q, t)"
  shows "aborting w0 R t" and "q = Inr () \<Longrightarrow> uploading w0 R L None (fs @ [c]) t"
proof -
  obtain r v where r: "frame_verify S f w = (r, v)" by fastforce
  note ver = frame_verify_run [OF f r]
  note sv = uploading_world [OF T s ver(1)]
  have "aborting w0 R t \<and> (q = Inr () \<longrightarrow> uploading w0 R L None (fs @ [c]) t)"
  proof (cases r)
    case (Inl e)
    with run r have "q = Inl e" "t = (u, drop_permit (pf_permit f) v)"
      by (auto simp: frame_complete_def or_drop_def bindE_def on_world_def focus_def)
    with aborting_drop [OF T uploading_aborting [OF sv]] show ?thesis by simp
  next
    case (Inr x)
    then have good: "frame_verified S f" using ver(2) by simp
    obtain y u' w' where y: "(if stores_len u \<ge> sv_pack_store_concurrency S
         then bindE (next_stored S ns) (\<lambda>res. case res of None \<Rightarrow> returnE () | Some r \<Rightarrow> count_stored r) (u, v)
         else (Inr (), (u, v))) = (y, (u', w'))" by (metis prod.collapse)
    note room = make_room_run [OF T sv y]
    have or: "or_drop (pf_permit f) (bindE (on_world (frame_verify S f)) (\<lambda>_. (\<lambda>(u, w).
         if stores_len u \<ge> sv_pack_store_concurrency S
         then bindE (next_stored S ns) (\<lambda>res. case res of None \<Rightarrow> returnE () | Some r \<Rightarrow> count_stored r) (u, w)
         else (Inr (), (u, w))))) (u, w)
      = (case y of Inl e \<Rightarrow> (Inl e, (u', drop_permit (pf_permit f) w')) | Inr x \<Rightarrow> (Inr x, (u', w')))"
      unfolding or_drop_def bindE_def [of "on_world _"] on_world_def focus_def
      using r Inr y by (cases y) simp_all
    show ?thesis
    proof (cases y)
      case (Inl e)
      with run or have "q = Inl e" "t = (u', drop_permit (pf_permit f) w')"
        unfolding frame_complete_def bindE_def [of "or_drop _ _"] by simp_all
      with aborting_drop [OF T room(1)] show ?thesis by simp
    next
      case (Inr z)
      with run or have t: "q = Inr ()" "t = (u'\<lparr>pu_running := pu_running u' @ [f]\<rparr>, w')"
        unfolding frame_complete_def bindE_def [of "or_drop _ _"] by (simp_all add: on_upload_def)
      have "uploading w0 R L None (fs @ [c]) t" unfolding t(2)
        by (rule start_store [OF _ good]) (use room(2) Inr f(1) in \<open>auto simp: spooled_def\<close>)
      then show ?thesis by (simp add: uploading_aborting)
    qed
  qed
  then show "aborting w0 R t" "q = Inr () \<Longrightarrow> uploading w0 R L None (fs @ [c]) t" by blast+
qed

section \<open>The events of the reader\<close>

lemma frame_new_run:
  assumes "frame_new S d k w = (r, v)"
  shows "untouched w v" and "r = Inr f \<Longrightarrow> spooled S (d, []) f"
proof -
  have "moves untouched (bindE temp_io (\<lambda>_. temp_io :: ('b, 'm, unit) handler))"
    by (intro moves_bind untouched_preorder untouched_prims(1))
  then show "untouched w v" using assms
    by (auto simp: frame_new_def moves_def untouched_def split: prod.splits sum.splits)
      (metis snd_conv)+
  assume "r = Inr f"
  with assms have "f = \<lparr>pf_digest = d, pf_intake = new_intake S, pf_permit = k\<rparr>"
    by (auto simp: frame_new_def split: prod.splits sum.splits)
  then show "spooled S (d, []) f" using new_intake_took by (simp add: spooled_def) (simp add: new_intake_def)
qed

lemma frame_write_run:
  assumes "frame_write S payload f w = (r, v)" and "spooled S (d, b) f"
  shows "untouched w v" and "r = Inr g \<Longrightarrow> spooled S (d, b @ payload) g"
proof -
  have "moves untouched (frame_write S payload f)"
    unfolding frame_write_def write_chunk_def
    by (intro moves_bind untouched_preorder untouched_prims(1) moves_lift moves_return)
  then show "untouched w v" using assms(1) by (rule moves_step)
  assume "r = Inr g"
  with assms(1) obtain i j u where i: "update_hash S (pf_digest f) payload
      ((pf_intake f)\<lparr>in_size := in_size (pf_intake f) + of_nat (length payload)\<rparr>) = Inr i"
    and j: "write_chunk payload i w = (Inr j, u)" and g: "g = f\<lparr>pf_intake := j\<rparr>"
    by (auto simp: frame_write_def result_simps)
  note j' = write_chunk_run [OF j]
  have d: "pf_digest f = d" using assms(2) by (simp add: spooled_def)
  have "took S a (b @ payload) j \<and> in_size j = of_nat (length (b @ payload))" if a: "algorithm_kind (sv_protocol S) d = Inr a" for a
  proof -
    from a d i have "update_hash S d payload
      ((pf_intake f)\<lparr>in_size := in_size (pf_intake f) + of_nat (length payload)\<rparr>) = Inr i" by simp
    note upd = update_hash_run [OF a this]
    have "took S a b (pf_intake f)" "in_size (pf_intake f) = of_nat (length b)" using assms(2) a by (simp_all add: spooled_def)
    with upd j' hashers [of a] show ?thesis
      by (simp add: took_def hasher_ok_def intake_hash_def split: algorithm.splits)
  qed
  moreover obtain a where "algorithm_kind (sv_protocol S) d = Inr a"
    using i d by (auto simp: update_hash_def result_simps)
  ultimately show "spooled S (d, b @ payload) g" using d by (auto simp: spooled_def g)
qed

lemma set_frame:
  "uploading w0 R L cur fs (u, w) \<Longrightarrow> frame_open S cur' opened \<Longrightarrow>
    uploading w0 R L cur' fs (u\<lparr>pu_frame := opened\<rparr>, w)"
  by (simp add: uploading_def aborting_def stores_len_def)

lemma aborting_frame: "aborting w0 R (u\<lparr>pu_frame := x\<rparr>, w) = aborting w0 R (u, w)"
  by (simp add: aborting_def)

lemma on_world_eq: "on_world m (u, w) = (case m w of (r, v) \<Rightarrow> (r, (u, v)))"
  by (simp add: on_world_def focus_def)

lemma handle_event_run:
  assumes T: "tracks ns w0 R L" and s: "uploading w0 R L cur fs s"
    and c: "collect cur [ev] = Some (fs', cur')" and good: "\<forall>f \<in> set fs'. frame_valid (sv_protocol S) mb f"
    and run: "handle_event S ns ev s = (q, t)"
  shows "aborting w0 R t \<and> (q = Inr () \<longrightarrow> uploading w0 R L cur' (fs @ fs') t)"
proof -
  obtain u w where p: "progress S ns s = (u, w)" by fastforce
  have uw: "uploading w0 R L cur fs (u, w)" using progress_keeps(1) [OF T s] p by simp
  show ?thesis
  proof (cases ev)
    case (Started d)
    with c have cur: "cur = None" "fs' = []" "cur' = Some (d, [])" by (auto split: option.splits)
    let ?m = "bindE (on_spool (reserve (d_size d))) (frame_new S d)"
    obtain r v where r: "?m w = (r, v)" by fastforce
    have "moves untouched ?m"
      by (intro moves_bind untouched_preorder untouched_prims(3)) (auto intro: moves_any frame_new_run(1))
    from moves_step [OF this r] have v: "untouched w v" .
    have "pu_frame u = None" using uw cur(1) by (simp add: uploading_def)
    with run p Started r have t: "(q, t) = (case r of Inl e \<Rightarrow> (Inl e, (u, v)) | Inr f \<Rightarrow> (Inr (), (u\<lparr>pu_frame := Some f\<rparr>, v)))"
      by (auto simp: handle_event_def bindE_def [of "on_world _"] on_world_eq split: sum.splits)
    show ?thesis
    proof (cases r)
      case (Inl e)
      with t uploading_aborting [OF uploading_world [OF T uw v]] show ?thesis by simp
    next
      case (Inr f)
      with r obtain k x where "frame_new S d k x = (Inr f, v)" by (auto simp: result_simps)
      from frame_new_run(2) [OF this refl] have "frame_open S cur' (Some f)" by (simp add: cur)
      from set_frame [OF uploading_world [OF T uw v] this] t Inr cur(2) show ?thesis by (simp add: uploading_aborting)
    qed
  next
    case (Payload payload)
    with c obtain d b where cur: "cur = Some (d, b)" "fs' = []" "cur' = Some (d, b @ payload)"
      by (auto split: option.splits)
    from uw cur(1) obtain f where f: "pu_frame u = Some f" "spooled S (d, b) f" by (auto simp: uploading_def)
    obtain r v where r: "frame_write S payload f w = (r, v)" by fastforce
    note wr = frame_write_run [OF r f(2)]
    from run p Payload r f(1) have t: "(q, t) = (case r of Inl e \<Rightarrow> (Inl e, (u, v)) | Inr f \<Rightarrow> (Inr (), (u\<lparr>pu_frame := Some f\<rparr>, v)))"
      by (auto simp: handle_event_def bindE_def [of "on_world _"] on_world_eq on_upload_def split: sum.splits)
    show ?thesis
    proof (cases r)
      case (Inl e)
      with t uploading_aborting [OF uploading_world [OF T uw wr(1)]] show ?thesis by simp
    next
      case (Inr g)
      then have "frame_open S cur' (Some g)" using wr(2) by (simp add: cur)
      from set_frame [OF uploading_world [OF T uw wr(1)] this] t Inr cur(2) show ?thesis by (simp add: uploading_aborting)
    qed
  next
    case Complete
    with c obtain x where cur: "cur = Some x" "fs' = [x]" "cur' = None" by (auto split: option.splits)
    from uw cur(1) obtain f where f: "pu_frame u = Some f" "spooled S x f" by (auto simp: uploading_def)
    from run p Complete f(1) have fc: "frame_complete S ns f (u\<lparr>pu_frame := None\<rparr>, w) = (q, t)"
      by (simp add: handle_event_def)
    have s0: "uploading w0 R L None fs (u\<lparr>pu_frame := None\<rparr>, w)" by (rule set_frame [OF uw]) simp
    from good cur(2) have "frame_valid (sv_protocol S) mb x" by simp
    from frame_complete_run [OF T s0 f(2) this fc] show ?thesis by (simp add: cur)
  qed
qed

lemma handle_events_run:
  assumes T: "tracks ns w0 R L"
  shows "uploading w0 R L cur fs s \<Longrightarrow> collect cur evs = Some (fs', cur') \<Longrightarrow>
    \<forall>f \<in> set fs'. frame_valid (sv_protocol S) mb f \<Longrightarrow> forE evs (handle_event S ns) s = (q, t) \<Longrightarrow>
    aborting w0 R t \<and> (q = Inr () \<longrightarrow> uploading w0 R L cur' (fs @ fs') t)"
proof (induction evs arbitrary: cur fs fs' s)
  case Nil
  then show ?case by (auto intro: uploading_aborting)
next
  case (Cons ev evs)
  from Cons.prems(2) have "collect cur ([ev] @ evs) = Some (fs', cur')" by simp
  then obtain f1 c1 f2 where c1: "collect cur [ev] = Some (f1, c1)" and c2: "collect c1 evs = Some (f2, cur')"
    and f: "fs' = f1 @ f2" unfolding collect_append by (auto split: option.splits prod.splits)
  obtain r u where r: "handle_event S ns ev s = (r, u)" by (cases "handle_event S ns ev s")
  from Cons.prems(3) f have "\<forall>f \<in> set f1. frame_valid (sv_protocol S) mb f" by simp
  note ev = handle_event_run [OF T Cons.prems(1) c1 this r]
  show ?case
  proof (cases r)
    case (Inl e)
    with Cons.prems(4) r ev show ?thesis by (auto simp: bindE_def)
  next
    case (Inr x)
    with Cons.prems(4) r have "forE evs (handle_event S ns) u = (q, t)" by (simp add: bindE_def)
    from Cons.IH [OF _ c2 _ this, of "fs @ f1"] ev Inr Cons.prems(3) f show ?thesis by simp
  qed
qed

section \<open>The body\<close>

abbreviation (input) chunks :: "(string + bytes) list \<Rightarrow> bytes list" where
  "chunks body \<equiv> map projr body"

lemma read_pack_body_run:
  assumes T: "tracks ns w0 R L"
  shows "uploading w0 R L cur fs s \<Longrightarrow> reader_ok (sv_protocol S) (pu_reader (fst s)) \<Longrightarrow>
    open_ok (sv_protocol S) cur (pu_reader (fst s)) \<Longrightarrow> read_pack_body S ns body s = (q, t) \<Longrightarrow>
    aborting w0 R t \<and> (q = Inr () \<longrightarrow> completes body \<and>
      (\<exists>evs fs' cur'. push_all (sv_protocol S) (pu_reader (fst s)) (chunks body) = Inr (evs, pu_reader (fst t))
        \<and> collect cur evs = Some (fs', cur') \<and> uploading w0 R L cur' (fs @ fs') t \<and> stores_len (fst t) = 0))"
proof (induction body arbitrary: cur fs s)
  case Nil
  from Nil.prems(4) have "count_remaining S ns (stores_len (fst s)) s = (q, t)" by (cases s) simp
  note r = count_remaining_run [OF T Nil.prems(1) _ this] moves_step [OF count_remaining_reader this]
  then show ?case by simp
next
  case (Cons c body)
  obtain u w where s: "s = (u, w)" by fastforce
  show ?case
  proof (cases c)
    case (Inl e)
    with Cons.prems show ?thesis by (auto intro: uploading_aborting)
  next
    case (Inr chunk)
    show ?thesis
    proof (cases "push (sv_protocol S) (pu_reader u) chunk")
      case (Inl e)
      with Cons.prems \<open>c = Inr chunk\<close> s show ?thesis by (auto intro: uploading_aborting)
    next
      case push: (Inr er)
      obtain evs rd where er: "er = (evs, rd)" by fastforce
      have rok: "reader_ok (sv_protocol S) (pu_reader u)" and op: "open_ok (sv_protocol S) cur (pu_reader u)"
        using Cons.prems s by simp_all
      note push = push [unfolded er]
      from push_collects [OF protocol rok op push] obtain f1 c1 where
        c1: "collects (sv_protocol S) cur (pu_reader u) evs rd f1 c1" by blast
      then have col: "collect cur evs = Some (f1, c1)"
        and val: "\<forall>f \<in> set f1. frame_valid (sv_protocol S) (pr_max_blob_bytes (pu_reader u)) f"
        and op': "open_ok (sv_protocol S) c1 rd" by (simp_all add: collects_def)
      have s0: "uploading w0 R L cur fs (u\<lparr>pu_reader := rd\<rparr>, w)"
        using Cons.prems(1) s by (simp add: uploading_def aborting_def stores_len_def)
      obtain y v where y: "forE evs (handle_event S ns) (u\<lparr>pu_reader := rd\<rparr>, w) = (y, v)"
        by (cases "forE evs (handle_event S ns) (u\<lparr>pu_reader := rd\<rparr>, w)")
      note ev = handle_events_run [OF T s0 col val y]
      have rd: "pu_reader (fst v) = rd" using moves_step [OF handle_events_reader y] by simp
      have run: "(case y of Inl e \<Rightarrow> (Inl e, v) | Inr x \<Rightarrow> read_pack_body S ns body v) = (q, t)"
        using Cons.prems(4) s Inr push y by (simp add: bindE_def)
      show ?thesis
      proof (cases y)
        case (Inl e)
        with run ev show ?thesis by auto
      next
        case (Inr x)
        with run have "read_pack_body S ns body v = (q, t)" by simp
        from Cons.IH [OF _ _ _ this, of c1 "fs @ f1"] ev Inr rd op' push_reader_ok [OF protocol rok push]
        have IH: "aborting w0 R t \<and> (q = Inr () \<longrightarrow> completes body \<and>
          (\<exists>evs fs' cur'. push_all (sv_protocol S) rd (chunks body) = Inr (evs, pu_reader (fst t))
            \<and> collect c1 evs = Some (fs', cur') \<and> uploading w0 R L cur' ((fs @ f1) @ fs') t \<and> stores_len (fst t) = 0))"
          by simp
        show ?thesis
        proof (intro conjI impI)
          show "aborting w0 R t" using IH by blast
          assume "q = Inr ()"
          with IH obtain evs2 f2 c2 where body: "completes body"
            and p2: "push_all (sv_protocol S) rd (chunks body) = Inr (evs2, pu_reader (fst t))"
            and col2: "collect c1 evs2 = Some (f2, c2)" and up: "uploading w0 R L c2 ((fs @ f1) @ f2) t" "stores_len (fst t) = 0"
            by blast
          show "completes (c # body)" using body \<open>c = Inr chunk\<close> by simp
          show "\<exists>evs fs' cur'. push_all (sv_protocol S) (pu_reader (fst s)) (chunks (c # body)) = Inr (evs, pu_reader (fst t))
            \<and> collect cur evs = Some (fs', cur') \<and> uploading w0 R L cur' (fs @ fs') t \<and> stores_len (fst t) = 0"
            by (rule exI [of _ "evs @ evs2"], rule exI [of _ "f1 @ f2"], rule exI [of _ c2])
              (use push p2 col col2 up s \<open>c = Inr chunk\<close> in \<open>simp add: collect_append\<close>)
        qed
      qed
    qed
  qed
qed

section \<open>The request\<close>

text \<open>The payload counter of a reader cannot wrap: two limits together stay below \<open>2 ^ 64\<close>.\<close>

definition packs_fit :: bool where
  "packs_fit \<longleftrightarrow> unat (sv_max_blob_bytes S) < 2 ^ 63 \<and> max_batch_items (sv_protocol S) + 1 < 2 ^ 64"

lemma pack_limits:
  assumes "packs_fit" and "unat n \<le> max_batch_items (sv_protocol S)" and "b \<le> sv_max_blob_bytes S"
  shows "limits_ok (sv_max_blob_bytes S) n b"
  using assms by (simp add: packs_fit_def limits_ok_def word_le_nat_alt)

lemma drop_frame_untouched: "untouched (snd s) (drop_frame s)"
  by (cases s) (simp add: drop_frame_def drop_permit_def untouched_def split: option.split)

lemma pack_receipt_untouched: "moves untouched (pack_receipt S n b u)"
  unfolding pack_receipt_def
  by (intro moves_bind untouched_preorder moves_lift moves_if moves_throw untouched_prims(4) moves_return)

lemma pack_receipt_run:
  assumes "pack_receipt S n b u w = (Inr rep, v)"
  shows "finish (pu_reader u) = Inr () \<and> pr_blobs (pu_reader u) = n \<and> pr_payload_bytes (pu_reader u) = b
    \<and> rp_status rep = 200 \<and> rp_body rep = \<lparr>rc_created = pu_created u, rc_existing = pu_existing u\<rparr>"
  using assms by (auto simp: pack_receipt_def result_simps split: if_splits)

lemma read_and_store_pack_run:
  assumes T: "tracks ns w R L" and l: "limits_ok (sv_max_blob_bytes S) n b"
    and run: "read_and_store_pack S ns n b body w = (r, v)"
  shows "R w v"
    and "r = Inr rep \<Longrightarrow> \<exists>fs. completes body \<and> delivered body = encode_pack (sv_protocol S) fs
      \<and> frames_within (sv_protocol S) (sv_max_blob_bytes S) n b fs \<and> (\<forall>f \<in> set fs. L (fst f) v)
      \<and> length fs = unat n \<and> payload_total fs = unat b
      \<and> unat (rc_created (rp_body rep)) + unat (rc_existing (rp_body rep)) = unat n"
proof -
  define u0 :: "'h pack_upload" where "u0 = \<lparr>pu_reader = new_reader (sv_max_blob_bytes S) n b, pu_frame = None,
               pu_running = [], pu_done = [], pu_created = 0, pu_existing = 0\<rparr>"
  note t = tracks_facts [OF T]
  have refl: "R w w" using t(2) by (rule preorder_rel_refl)
  have s0: "uploading w R L None [] (u0, w)"
    by (simp add: uploading_def aborting_def u0_def stores_len_def refl)
  note rok = reader_ok_new [OF protocol l]
  have op: "open_ok (sv_protocol S) None (pu_reader u0)" by (simp add: u0_def open_ok_def new_reader_def)
  obtain q u x where q: "read_pack_body S ns body (u0, w) = (q, (u, x))" by (metis prod.collapse)
  have "reader_ok (sv_protocol S) (pu_reader (fst (u0, w)))" using rok by (simp add: u0_def)
  note body = read_pack_body_run [OF T s0 this _ q, simplified, OF op]
  have run': "(case q of
        Inl e \<Rightarrow> (Inl e, drop_frame (drain S ns (stores_len u) (u, x)))
      | Inr _ \<Rightarrow> (case pack_receipt S n b u x of (r, w) \<Rightarrow> (r, drop_frame (u, w)))) = (r, v)"
    using run q by (cases q) (simp_all add: read_and_store_pack_def u0_def)
  have "R w v \<and> (\<forall>rep. r = Inr rep \<longrightarrow> (\<exists>fs. completes body \<and> delivered body = encode_pack (sv_protocol S) fs
      \<and> frames_within (sv_protocol S) (sv_max_blob_bytes S) n b fs \<and> (\<forall>f \<in> set fs. L (fst f) v)
      \<and> length fs = unat n \<and> payload_total fs = unat b
      \<and> unat (rc_created (rp_body rep)) + unat (rc_existing (rp_body rep)) = unat n))"
  proof (cases q)
    case (Inl e)
    with run' have r: "r = Inl e" "v = drop_frame (drain S ns (stores_len u) (u, x))" by simp_all
    have "aborting w R (drain S ns (stores_len u) (u, x))" by (rule drain_aborting [OF T]) (use body in blast)
    then have "R w (snd (drain S ns (stores_len u) (u, x)))" by (simp add: aborting_def)
    with t(5) t(4) [OF drop_frame_untouched] r show ?thesis by blast
  next
    case (Inr z)
    obtain r' x' where rc: "pack_receipt S n b u x = (r', x')" by fastforce
    with run' Inr have r: "r = r'" "v = drop_frame (u, x')" by simp_all
    have "untouched x v"
      using moves_step [OF pack_receipt_untouched rc] drop_frame_untouched [of "(u, x')"] by (simp add: r untouched_def)
    then have xv: "R x v" by (rule t(4))
    have wx: "R w x" using body by (simp add: aborting_def)
    show ?thesis
    proof (intro conjI allI impI)
      show "R w v" by (rule t(5) [OF wx xv])
      fix rep assume "r = Inr rep"
      with rc r have receipt: "finish (pu_reader u) = Inr ()" "pr_blobs (pu_reader u) = n" "pr_payload_bytes (pu_reader u) = b"
        "rp_body rep = \<lparr>rc_created = pu_created u, rc_existing = pu_existing u\<rparr>"
        using pack_receipt_run [of n b u x rep x'] by simp_all
      from body Inr obtain evs fs cur where whole: "completes body"
        and p: "push_all (sv_protocol S) (pu_reader u0) (chunks body) = Inr (evs, pu_reader u)"
        and col: "collect None evs = Some (fs, cur)" and up: "uploading w R L cur fs (u, x)" "stores_len u = 0"
        by auto
      note pa = push_all_as_push(2) [OF protocol rok p [unfolded u0_def, simplified]]
      then obtain evs' where p': "push (sv_protocol S) (new_reader (sv_max_blob_bytes S) n b) (concat (chunks body)) = Inr (evs', pu_reader u)"
        and same: "\<forall>c. collect c evs' = collect c evs" by blast
      from push_sound [OF protocol l p' receipt(1)] same col have
        enc: "concat (chunks body) = encode_pack (sv_protocol S) fs" "cur = None"
        and within: "frames_within (sv_protocol S) (sv_max_blob_bytes S) n b fs" by auto
      have del: "concat (chunks body) = delivered body" using whole
        by (induction body rule: delivered.induct) auto
      have fin: "L (fst f) x" if "f \<in> set fs" for f
        using up that by (fastforce simp: uploading_def stores_len_def)
      have count: "pu_created u + pu_existing u = of_nat (length fs)" "unat (pu_created u) + unat (pu_existing u) \<le> length fs"
        using up by (simp_all add: uploading_def)
      from push_collects [OF protocol rok _ p', of None] obtain fs2 c2 where
        "collects (sv_protocol S) None (new_reader (sv_max_blob_bytes S) n b) evs' (pu_reader u) fs2 c2"
        by (auto simp: open_ok_def new_reader_def)
      with same col enc(2) receipt(2,3) have len: "length fs = unat n" "payload_total fs = unat b"
        by (auto simp: collects_def open_count_def open_bytes_def new_reader_def)
      have sum: "unat (pu_created u) + unat (pu_existing u) = unat n"
      proof -
        have "unat (pu_created u) + unat (pu_existing u) < 18446744073709551616"
          using count(2) unat_u64_lt [of n] unfolding len(1) by linarith
        with count(1) len(1) show ?thesis using unat_add_lem [of "pu_created u" "pu_existing u"] by simp
      qed
      show "\<exists>fs. completes body \<and> delivered body = encode_pack (sv_protocol S) fs
        \<and> frames_within (sv_protocol S) (sv_max_blob_bytes S) n b fs \<and> (\<forall>f \<in> set fs. L (fst f) v)
        \<and> length fs = unat n \<and> payload_total fs = unat b
        \<and> unat (rc_created (rp_body rep)) + unat (rc_existing (rp_body rep)) = unat n"
        by (rule exI [of _ fs]) (use whole enc del within fin t(3) [OF xv] len sum receipt(4) in auto)
    qed
  qed
  then show "R w v" "r = Inr rep \<Longrightarrow> \<exists>fs. completes body \<and> delivered body = encode_pack (sv_protocol S) fs
      \<and> frames_within (sv_protocol S) (sv_max_blob_bytes S) n b fs \<and> (\<forall>f \<in> set fs. L (fst f) v)
      \<and> length fs = unat n \<and> payload_total fs = unat b
      \<and> unat (rc_created (rp_body rep)) + unat (rc_existing (rp_body rep)) = unat n" by blast+
qed

lemma carries_tracks: "carries ns R \<Longrightarrow> tracks ns w0 R (\<lambda>_ _. True)"
  by (simp add: tracks_def)

lemma put_blob_pack_moves:
  assumes pre: "preorder_rel R" and calm: "\<And>w v. untouched w v \<Longrightarrow> R w v"
    and R: "\<And>ns. namespace_header S headers = Some ns \<Longrightarrow> carries ns R" and "packs_fit"
  shows "moves R (put_blob_pack S headers body)"
proof -
  have quiet: "moves R m" if "moves untouched m" for m :: "('b, 'm, 'x) handler"
    using that calm by (simp add: moves_def)
  show ?thesis
    unfolding put_blob_pack_def
  proof (rule authorized_bind_moves [OF pre quiet [OF untouched_prims(6)]],
      rule moves_bind [OF pre moves_lift [OF pre]], rule moves_bind [OF pre moves_lift [OF pre]])
    fix ns n b assume ns: "namespace_header S headers = Some ns"
    show "moves R (if max_batch_items (sv_protocol S) < unat n
        then throwE (bad_request ''blob pack declares more blobs than the supported batch size'')
        else if sv_max_blob_bytes S < b then throwE (too_large ''blob pack exceeds the configured size limit'')
        else read_and_store_pack S ns n b body)"
    proof (cases "max_batch_items (sv_protocol S) < unat n \<or> sv_max_blob_bytes S < b")
      case True
      then show ?thesis by (auto simp: moves_throw [OF pre])
    next
      case False
      then have "moves R (read_and_store_pack S ns n b body)"
        by (intro moves_any read_and_store_pack_run(1) [OF carries_tracks [OF R [OF ns]] pack_limits [OF assms(4)]]) auto
      with False show ?thesis by simp
    qed
  qed
qed

lemma put_blob_pack_step:
  assumes "\<And>ns. namespace_header S headers = Some ns \<Longrightarrow> ns \<in> N" and "packs_fit"
  shows "moves (step N) (put_blob_pack S headers body)"
  by (rule put_blob_pack_moves) (simp_all add: untouched_step carries_step assms)

text \<open>What lands: the namespace lists the digest, and the store holds a content that belongs under it.\<close>

definition landed :: "string \<Rightarrow> digest \<Rightarrow> ('b, 'm) world \<Rightarrow> bool" where
  "landed ns d w \<longleftrightarrow> world_ok w \<and> digest_ok (sv_protocol S) d \<and> visible (w_metadata w) ns d
     \<and> (\<exists>c. held (w_blobs w) d = Some c \<and> content_matches S d c)"

definition lands :: "string \<Rightarrow> ('b, 'm) world \<Rightarrow> ('b, 'm) world \<Rightarrow> bool" where
  "lands ns w v \<longleftrightarrow> world_ok w \<longrightarrow> world_ok v \<and> blobs_kept (w_blobs w) (w_blobs v)
     \<and> (\<forall>d. visible (w_metadata w) ns d \<longrightarrow> visible (w_metadata v) ns d)"

lemma publish_lands:
  assumes "digest_ok (sv_protocol S) d" and "content_matches S d content"
  shows "moves (lands ns) (publish S ns d content)"
proof (rule moves_any)
  fix w r v assume run: "publish S ns d content w = (r, v)"
  have "moves (step {ns}) (publish S ns d content)"
    using carries_step [of ns "{ns}"] assms by (auto dest: carries_facts(3))
  from moves_step [OF this run] have st: "step {ns} w v" .
  have "visible (w_metadata v) ns e" if ok: "world_ok w" and vis: "visible (w_metadata w) ns e" for e
  proof -
    have mok: "mok (w_metadata w)" using ok by (simp add: world_ok_def)
    have "w_metadata v = w_metadata w \<or> (\<exists>out q n. ms_register_blob (sv_metadata S) ns d out (w_metadata w) = (q, n) \<and> w_metadata v = n)"
      using run by (cases r) (auto simp: publish_def result_simps on_metrics_def; blast)+
    then show ?thesis using vis metadata.register [OF mok] by (auto split: if_splits)
  qed
  with st show "lands ns w v" by (simp add: lands_def step_def)
qed

lemma lands_tracks:
  assumes "world_ok w0" shows "tracks ns w0 (lands ns) (landed ns)"
  unfolding tracks_def
proof (intro conjI allI impI)
  have "preorder_rel (lands ns)"
    by (rule preorder_relI) (auto simp: lands_def blobs_kept_def)
  then show "carries ns (lands ns)"
    unfolding carries_def using publish_lands
    by (auto simp: lands_def untouched_def world_ok_def blobs_kept_def)
next
  fix d w v assume "lands ns w v" "landed ns d w"
  then show "landed ns d v" by (auto simp: lands_def landed_def blobs_kept_def)
next
  fix d content out w v
  assume "lands ns w0 w" "digest_ok (sv_protocol S) d" "content_matches S d content" "publish S ns d content w = (Inr out, v)"
  with assms publish_run [of w d content ns out v] show "landed ns d v" by (simp add: lands_def landed_def)
qed

lemma put_blob_pack_run:
  assumes "world_ok w" and "packs_fit" and "put_blob_pack S headers body w = (Inr rep, v)"
  obtains ns fs where "access_allowed (sv_jwt S) (fst (w_auth w)) headers Write ns"
    "namespace_header S headers = Some ns" "completes body" "delivered body = encode_pack (sv_protocol S) fs"
    "\<forall>f \<in> set fs. frame_valid (sv_protocol S) (sv_max_blob_bytes S) f \<and> landed ns (fst f) v"
    "length fs \<le> max_batch_items (sv_protocol S)" "payload_total fs \<le> unat (sv_max_blob_bytes S)"
    "unat (rc_created (rp_body rep)) + unat (rc_existing (rp_body rep)) = length fs"
proof -
  from assms(3) obtain ns w1 n b where auth: "authorized S headers Write w = (Inr ns, w1)"
    and guard: "\<not> max_batch_items (sv_protocol S) < unat n" "\<not> sv_max_blob_bytes S < b"
    and run: "read_and_store_pack S ns n b body w1 = (Inr rep, v)"
    by (auto simp: put_blob_pack_def result_simps split: if_splits)
  note a = authorized_run [OF auth]
  from a(3) assms(1) have w1: "world_ok w1" by (auto simp: world_ok_def)
  have l: "limits_ok (sv_max_blob_bytes S) n b" by (rule pack_limits [OF assms(2)]) (use guard in auto)
  from read_and_store_pack_run(2) [OF lands_tracks [OF w1] l run refl] obtain fs where
    fs: "completes body" "delivered body = encode_pack (sv_protocol S) fs"
      "frames_within (sv_protocol S) (sv_max_blob_bytes S) n b fs" "\<forall>f \<in> set fs. landed ns (fst f) v"
      "length fs = unat n" "payload_total fs = unat b" "unat (rc_created (rp_body rep)) + unat (rc_existing (rp_body rep)) = unat n" by blast
  show thesis
  proof (rule that [of ns fs])
    show "access_allowed (sv_jwt S) (fst (w_auth w)) headers Write ns" "namespace_header S headers = Some ns"
      using a by blast+
    show "unat (rc_created (rp_body rep)) + unat (rc_existing (rp_body rep)) = length fs"
      using fs by simp
  qed (use fs guard in \<open>auto simp: frames_within_def list_all_iff word_less_nat_alt\<close>)
qed

end

end
