(* ===== verification/Pack_Upload_Spec.thy ===== *)
theory Pack_Upload_Spec
  imports Pack_Upload Blob_Spec
begin

text \<open>
  The properties of an uploaded pack, with a pack of one blob on \<open>sample_server\<close> as witness.
\<close>

section \<open>The sample pack\<close>

definition sample_frame :: frame where
  "sample_frame = (sample_blake, [170, 170])"

definition sample_pack :: "(string + bytes) list" where
  "sample_pack = [Inr (encode_pack reference_protocol [sample_frame])]"

definition pack_headers :: header_map where
  "pack_headers = put_headers(''mbx-cache-pack-blobs'' \<mapsto> ''1'', ''mbx-cache-pack-bytes'' \<mapsto> ''2'')"

lemma sample_frame_valid: "frame_valid reference_protocol 1024 sample_frame"
  using sample_blake_ok by (simp add: frame_valid_def sample_frame_def sample_size_2)

lemma sample_push:
  "push reference_protocol (new_reader 1024 1 2) (encode_pack reference_protocol [sample_frame])
    = Inr (frame_events sample_frame, frame_read (header_reader 1024 1 2) sample_frame)"
proof -
  have l: "limits_ok 1024 1 2" by (simp add: limits_ok_def)
  note h = header_reader_ok [OF reference_protocol_ok l]
  have v: "frame_valid reference_protocol (pr_max_blob_bytes (header_reader 1024 1 2)) sample_frame"
    using sample_frame_valid h(4) by simp
  have fits: "unat (pr_blobs (header_reader 1024 1 2)) + 1 \<le> unat (pr_max_blobs (header_reader 1024 1 2))"
    "unat (pr_payload_bytes (header_reader 1024 1 2)) + length (snd sample_frame) \<le> unat (pr_max_payload_bytes (header_reader 1024 1 2))"
    using h by (simp_all add: sample_frame_def)
  note ok = frame_read_ok(1) [OF h(1-3) v fits]
  have "push reference_protocol (header_reader 1024 1 2) (frame_bytes reference_protocol sample_frame @ [])
      = Inr (frame_events sample_frame, frame_read (header_reader 1024 1 2) sample_frame)"
    unfolding push_frame [OF reference_protocol_ok h(2,3) v fits] push_nil [OF reference_protocol_ok ok] by simp
  then show ?thesis
    unfolding encode_pack_def push_magic [OF reference_protocol_ok] by simp
qed

lemma sample_finish:
  "finish (frame_read (header_reader 1024 1 2) sample_frame) = Inr ()"
  "pr_blobs (frame_read (header_reader 1024 1 2) sample_frame) = 1"
  "pr_payload_bytes (frame_read (header_reader 1024 1 2) sample_frame) = 2"
  by (simp_all add: finish_def header_reader_def new_reader_def frame_read_def sample_frame_def)

text \<open>The run: the frame is spooled, verified, stored in the background and counted.\<close>

definition spooling_world :: "(fs, memory_metadata) world" where
  "spooling_world = sample_world\<lparr>w_spool := Some 9\<rparr>"

definition sample_opened :: "bytes pack_frame" where
  "sample_opened = \<lparr>pf_digest = sample_blake, pf_intake = new_intake sample_server, pf_permit = Some 1\<rparr>"

definition sample_received :: "bytes pack_frame" where
  "sample_received = \<lparr>pf_digest = sample_blake, pf_intake = sample_intake, pf_permit = Some 1\<rparr>"

lemma spooling_simps [simp]:
  "w_progress sample_world = []" "w_progress spooling_world = []" "w_temp sample_world = []" "w_temp spooling_world = []"
  by (simp_all add: spooling_world_def sample_world_def)

lemma progress_idle [simp]: "w_progress w = [] \<Longrightarrow> progress S ns (u, w) = (u, w)"
  by (simp add: progress_def)

lemma sample_started:
  "pu_frame u = None \<Longrightarrow> handle_event sample_server ''team/app'' (Started sample_blake) (u, sample_world)
    = (Inr (), (u\<lparr>pu_frame := Some sample_opened\<rparr>, spooling_world))"
proof -
  have res: "reserve 2 (Some 10) = (Inr (Some 1), Some 9)" by (simp add: reserve_def div_ceil_def)
  have "on_spool (reserve 2) sample_world = (Inr (Some 1), spooling_world)"
    by (simp add: on_spool_def focus_def spooling_world_def) (simp add: sample_world_def res)
  moreover have "frame_new sample_server sample_blake (Some 1) spooling_world = (Inr sample_opened, spooling_world)"
    by (simp add: frame_new_def temp_io_def sample_opened_def)
  ultimately show "pu_frame u = None \<Longrightarrow> ?thesis"
    by (simp add: handle_event_def bindE_def on_world_def focus_def sample_size_2)
qed

lemma sample_payload:
  "pu_frame u = Some sample_opened \<Longrightarrow> handle_event sample_server ''team/app'' (Payload [170, 170]) (u, spooling_world)
    = (Inr (), (u\<lparr>pu_frame := Some sample_received\<rparr>, spooling_world))"
proof -
  have "frame_write sample_server [170, 170] sample_opened spooling_world = (Inr sample_received, spooling_world)"
    by (simp add: frame_write_def sample_opened_def new_intake_def update_hash_def sample_kind pad_hasher_def
        write_chunk_def temp_io_def sample_received_def sample_intake_def)
  then show "pu_frame u = Some sample_opened \<Longrightarrow> ?thesis"
    by (simp add: handle_event_def bindE_def on_world_def focus_def on_upload_def)
qed

lemma sample_complete:
  "pu_frame u = Some sample_received \<Longrightarrow> pu_running u = [] \<Longrightarrow> pu_done u = [] \<Longrightarrow>
    handle_event sample_server ''team/app'' Complete (u, spooling_world)
    = (Inr (), (u\<lparr>pu_frame := None, pu_running := [sample_received]\<rparr>, spooling_world))"
proof -
  have "in_size sample_intake = 2" by (simp add: sample_intake_def)
  then have "frame_verify sample_server sample_received spooling_world = (Inr (), spooling_world)"
    by (simp add: frame_verify_def sample_received_def sample_actual sample_size_2 temp_io_def)
  then show "pu_frame u = Some sample_received \<Longrightarrow> pu_running u = [] \<Longrightarrow> pu_done u = [] \<Longrightarrow> ?thesis"
    by (simp add: handle_event_def frame_complete_def or_drop_def bindE_def on_world_def focus_def on_upload_def stores_len_def)
qed

lemma sample_store_frame:
  "frame_store sample_server ''team/app'' sample_received spooling_world = (Inr Created, uploaded_world)"
proof -
  have "publish sample_server ''team/app'' sample_blake [170, 170] spooling_world
      = (Inr Created, uploaded_world\<lparr>w_spool := Some 9\<rparr>)"
    by (simp add: spooling_world_def publish_def internalE_def on_blobs_def on_metadata_def focus_def filesystem_blob_store_def
        sample_put bindE_def sample_world_def memory_store_def mem_register_blob_def on_metrics_def
        uploaded_world_def memory_default_def)
  then show ?thesis
    by (simp add: frame_store_def with_permit_def sample_received_def sample_intake_def release_def uploaded_world_def sample_world_def)
qed

lemma sample_read_body:
  assumes "pu_frame u = None" "pu_running u = []" "pu_done u = []" "pu_reader u = new_reader 1024 1 2"
  shows "read_pack_body sample_server ''team/app'' sample_pack (u, sample_world) =
    (Inr (), (u\<lparr>pu_reader := frame_read (header_reader 1024 1 2) sample_frame, pu_created := pu_created u + 1\<rparr>, uploaded_world))"
proof -
  have events: "frame_events sample_frame = [Started sample_blake, Payload [170, 170], Complete]"
    by (simp add: frame_events_def sample_frame_def)
  have "forE (frame_events sample_frame) (handle_event sample_server ''team/app'')
      (u\<lparr>pu_reader := frame_read (header_reader 1024 1 2) sample_frame\<rparr>, sample_world)
    = (Inr (), (u\<lparr>pu_reader := frame_read (header_reader 1024 1 2) sample_frame, pu_running := [sample_received]\<rparr>, spooling_world))"
    using assms by (simp add: events bindE_def sample_started sample_payload sample_complete)
  moreover have "count_remaining sample_server ''team/app'' (Suc 0)
      (u\<lparr>pu_reader := frame_read (header_reader 1024 1 2) sample_frame, pu_running := [sample_received]\<rparr>, spooling_world)
    = (Inr (), (u\<lparr>pu_reader := frame_read (header_reader 1024 1 2) sample_frame, pu_created := pu_created u + 1\<rparr>, uploaded_world))"
    using assms by (simp add: bindE_def next_stored_def run_store_def sample_store_frame count_stored_def on_upload_def)
  ultimately show ?thesis using assms
    by (simp add: sample_pack_def sample_push bindE_def stores_len_def)
qed

lemma sample_put_pack:
  "\<exists>rep v. put_blob_pack sample_server pack_headers sample_pack sample_world = (Inr rep, v)
    \<and> rp_body rep = \<lparr>rc_created = 1, rc_existing = 0\<rparr>"
proof -
  have auth: "authorized sample_server pack_headers Write sample_world = (Inr ''team/app'', sample_world)"
    by (simp add: authorized_def on_auth_def focus_def authorize_eval pack_headers_def put_headers_def sample_world_def
        strip_suffix_def)
  have "required_u64_header (jl_to_str sample_jwt) pack_headers ''mbx-cache-pack-blobs'' = Inr 1"
    "required_u64_header (jl_to_str sample_jwt) pack_headers ''mbx-cache-pack-bytes'' = Inr 2"
    by (simp_all add: required_u64_header_def header_str_def pack_headers_def sample_jwt_def parse_u64_def
        is_ascii_digit_def decimal_value_def)
  moreover have "max_batch_items reference_protocol = 10000" by (simp add: reference_protocol_def)
  ultimately show ?thesis
    by (simp add: put_blob_pack_def auth sample_wire_def read_and_store_pack_def sample_read_body pack_receipt_def
        sample_finish on_metrics_def drop_frame_def)
qed

section \<open>The properties\<close>

lemma sample_packs_fit: "unat (sv_max_blob_bytes sample_server) < 2 ^ 63"
  "max_batch_items (sv_protocol sample_server) + 1 < 2 ^ 64"
  by (simp_all add: reference_protocol_def)



end
