(* ===== verification/Pack_Spool.thy ===== *)
theory Pack_Spool
  imports Pack_Upload Blob_Spec
begin

text \<open>
  The spool budget of uploads. \<open>spool_total\<close> is what is free with what the frames of an upload hold; every
  step of an uploaded pack conserves it, and when the request ends no frame is left. So no upload, however
  it ends, keeps room of the spool.
\<close>

section \<open>Permits\<close>

definition permits :: "nat option \<Rightarrow> nat" where
  "permits p = (case p of None \<Rightarrow> 0 | Some k \<Rightarrow> k)"

definition held_permits :: "'h pack_upload \<Rightarrow> nat" where
  "held_permits u = (case pu_frame u of None \<Rightarrow> 0 | Some f \<Rightarrow> permits (pf_permit f))
     + sum_list (map (permits \<circ> pf_permit) (pu_running u))"

definition spool_with :: "nat \<Rightarrow> spool \<Rightarrow> spool" where
  "spool_with n = map_option (\<lambda>free. free + n)"

definition spool_total :: "'h pack_upload \<times> ('b, 'm) world \<Rightarrow> spool" where
  "spool_total s = spool_with (held_permits (fst s)) (w_spool (snd s))"

abbreviation conserves :: "'h pack_upload \<times> ('b, 'm) world \<Rightarrow> 'h pack_upload \<times> ('b, 'm) world \<Rightarrow> bool" where
  "conserves s t \<equiv> spool_total t = spool_total s"

lemma conserves_preorder: "preorder_rel conserves"
  by (rule preorder_relI) auto

lemma spool_with_simps [simp]: "spool_with 0 s = s" "spool_with m (spool_with n s) = spool_with (n + m) s"
  by (cases s; simp add: spool_with_def)+

lemma release_with: "release p s = spool_with (permits p) s"
  by (cases s; cases p) (simp_all add: release_def spool_with_def permits_def)

lemma reserve_with: "reserve n s = (Inr p, t) \<Longrightarrow> spool_with (permits p) t = s"
  using reserve_release release_with by metis

lemma sum_without:
  assumes "k < length xs"
  shows "sum_list (map g (take k xs @ drop (Suc k) xs)) + g (xs ! k) = sum_list (map (g :: 'a \<Rightarrow> nat) xs)"
  using arg_cong [OF id_take_nth_drop [OF assms], of "\<lambda>ys. sum_list (map g ys)"] by simp

section \<open>Steps of an upload\<close>

lemma frame_store_spool:
  assumes "frame_store S ns f w = (r, v)"
  shows "w_spool v = spool_with (permits (pf_permit f)) (w_spool w)"
proof -
  obtain q u where p: "publish S ns (pf_digest f) (in_content (pf_intake f)) w = (q, u)" by fastforce
  with moves_step [OF publish_spool p] assms show ?thesis
    by (auto simp: frame_store_def with_permit_def release_with)
qed

lemma run_store_total: "conserves s (run_store S ns k s)"
proof -
  obtain u w where s: "s = (u, w)" by fastforce
  show ?thesis
  proof (cases "k < length (pu_running u)")
    case True
    obtain r v where f: "frame_store S ns (pu_running u ! k) w = (r, v)" by fastforce
    let ?rest = "take k (pu_running u) @ drop (Suc k) (pu_running u)"
    have "held_permits (u\<lparr>pu_running := ?rest, pu_done := pu_done u @ [r]\<rparr>) + permits (pf_permit (pu_running u ! k))
        = held_permits u"
      using sum_without [OF True, of "permits \<circ> pf_permit"] by (simp add: held_permits_def)
    with frame_store_spool [OF f] True f show ?thesis
      by (simp add: s run_store_def spool_total_def add.commute)
  qed (simp add: s run_store_def)
qed

lemma runs_total: "conserves s (fold (run_store S ns) ks s)"
  by (induction ks arbitrary: s) (simp_all add: run_store_total)

lemma progress_total: "conserves s (progress S ns s)"
proof -
  obtain u w where s: "s = (u, w)" by fastforce
  have "spool_total (u, w\<lparr>w_progress := later\<rparr>) = spool_total (u, w)" for later by (simp add: spool_total_def)
  then show ?thesis by (simp add: s progress_def runs_total split: list.split)
qed

lemma advance_total: "conserves s (advance S ns s)"
  by (simp add: advance_def Let_def run_store_total progress_total)

lemma next_stored_total: "moves conserves (next_stored S ns)"
proof (rule moves_any)
  fix s r t assume run: "next_stored S ns s = (r, t)"
  obtain u w where a: "advance S ns s = (u, w)" by fastforce
  from advance_total [where S = S and ns = ns and s = s] have total: "spool_total (u, w) = spool_total s" by (simp add: a)
  have "spool_total (u\<lparr>pu_done := rs\<rparr>, w) = spool_total (u, w)" for rs
    by (simp add: spool_total_def held_permits_def)
  with run total show "conserves s t" by (auto simp: a next_stored_eq split: list.splits)
qed

lemma count_stored_total: "moves conserves (count_stored r)"
  unfolding count_stored_def
  by (rule moves_bind [OF conserves_preorder moves_lift [OF conserves_preorder]])
    (auto simp: moves_def on_upload_def spool_total_def held_permits_def split: put_outcome.split)

lemma count_remaining_total: "moves conserves (count_remaining S ns n)"
proof (induction n)
  case 0
  show ?case unfolding count_remaining.simps by (rule moves_return [OF conserves_preorder])
next
  case (Suc n)
  have "moves conserves (case res of None \<Rightarrow> returnE () | Some r \<Rightarrow> bindE (count_stored r) (\<lambda>_. count_remaining S ns n))" for res
    by (intro moves_case_option moves_return conserves_preorder moves_bind count_stored_total Suc)
  then show ?case by (simp add: moves_bind conserves_preorder next_stored_total)
qed

text \<open>Draining leaves no store behind.\<close>

lemma drain_total: "conserves s (drain S ns n s)"
proof (induction n arbitrary: s)
  case (Suc n)
  obtain r t where run: "next_stored S ns s = (r, t)" by (cases "next_stored S ns s")
  from moves_step [OF next_stored_total run] Suc [of t] show ?case
    by (simp add: run split: sum.split option.split)
qed simp

lemma drain_empty: "stores_len (fst s) \<le> n \<Longrightarrow> stores_len (fst (drain S ns n s)) = 0"
proof (induction n arbitrary: s)
  case (Suc n)
  obtain r t where run: "next_stored S ns s = (r, t)" by (cases "next_stored S ns s")
  show ?case
  proof (cases r)
    case (Inr found)
    show ?thesis
    proof (cases found)
      case None
      with run Inr have e: "stores_len (fst s) = 0" "t = advance S ns s" by (simp_all add: next_stored_None)
      with run Inr None stores_len_advance [of S ns s] show ?thesis by simp
    next
      case (Some x)
      with run Inr next_stored_Some(3) have "stores_len (fst s) = Suc (stores_len (fst t))" by metis
      with Suc.prems Suc.IH [of t] run Inr Some show ?thesis by simp
    qed
  qed (use run in simp)
qed simp

section \<open>Events\<close>

abbreviation same_spool :: "('b, 'm) world \<Rightarrow> ('b, 'm) world \<Rightarrow> bool" where
  "same_spool w v \<equiv> w_spool v = w_spool w"

lemma on_world_total:
  assumes "moves same_spool m"
  shows "moves conserves (on_world m)"
proof (rule moves_any)
  fix s r t assume run: "on_world m s = (r, t)"
  obtain u w where s: "s = (u, w)" by fastforce
  obtain q v where m: "m w = (q, v)" by fastforce
  from run m moves_step [OF assms m] show "conserves s t"
    by (auto simp: s on_world_def focus_def spool_total_def)
qed

lemma frame_spool:
  "moves same_spool (frame_write S payload f)" "moves same_spool (frame_verify S f)"
  unfolding frame_write_def frame_verify_def write_chunk_def
  by (intro moves_bind keeps_preorder moves_lift moves_return moves_spool_prims moves_if moves_throw)+

lemma frame_new_spool:
  assumes "frame_new S d p w = (r, v)"
  shows "case r of Inl e \<Rightarrow> w_spool v = spool_with (permits p) (w_spool w)
    | Inr f \<Rightarrow> w_spool v = w_spool w \<and> pf_permit f = p"
proof -
  obtain q u where t: "bindE temp_io (\<lambda>_. temp_io) w = (q, u)" by fastforce
  have "moves same_spool (bindE temp_io (\<lambda>_. temp_io))" by (intro moves_bind keeps_preorder moves_spool_prims)
  from moves_step [OF this t] t assms show ?thesis
    by (cases q) (auto simp: frame_new_def release_with)
qed

lemma begin_frame_spool:
  assumes "bindE (on_spool (reserve n)) (frame_new S d) w = (r, v)"
  shows "case r of Inl e \<Rightarrow> w_spool v = w_spool w
    | Inr f \<Rightarrow> spool_with (permits (pf_permit f)) (w_spool v) = w_spool w"
proof -
  obtain q t where res: "reserve n (w_spool w) = (q, t)" by fastforce
  show ?thesis
  proof (cases q)
    case (Inl e)
    with assms res reserve_refused [of n "w_spool w" e t] show ?thesis
      by (auto simp: on_spool_def focus_def bindE_def)
  next
    case (Inr p)
    with res have total: "spool_with (permits p) t = w_spool w" by (simp add: reserve_with)
    from assms res Inr have "frame_new S d p (w\<lparr>w_spool := t\<rparr>) = (r, v)"
      by (simp add: on_spool_def focus_def bindE_def)
    from frame_new_spool [OF this] total show ?thesis by (cases r) simp_all
  qed
qed

lemma wait_total:
  "moves conserves (\<lambda>(u, w). if stores_len u \<ge> sv_pack_store_concurrency S
     then bindE (next_stored S ns) (\<lambda>res. case res of None \<Rightarrow> returnE () | Some r \<Rightarrow> count_stored r) (u, w)
     else (Inr (), (u, w)))"
proof -
  have "moves conserves (bindE (next_stored S ns) (\<lambda>res. case res of None \<Rightarrow> returnE () | Some r \<Rightarrow> count_stored r))"
    by (intro moves_bind conserves_preorder next_stored_total moves_case_option moves_return count_stored_total)
  then show ?thesis by (auto simp: moves_def)
qed

lemma frame_complete_total:
  assumes run: "frame_complete S ns f s = (r, t)"
  shows "spool_total t = spool_with (permits (pf_permit f)) (spool_total s)"
proof -
  let ?m = "bindE (on_world (frame_verify S f)) (\<lambda>_ (u, w). if stores_len u \<ge> sv_pack_store_concurrency S
         then bindE (next_stored S ns) (\<lambda>res. case res of None \<Rightarrow> returnE () | Some r \<Rightarrow> count_stored r) (u, w)
         else (Inr (), (u, w)))"
  obtain q u w where m: "?m s = (q, (u, w))" by (cases "?m s") auto
  have "moves conserves ?m"
    by (rule moves_bind [OF conserves_preorder on_world_total [OF frame_spool(2)] wait_total])
  from moves_step [OF this m] have total: "spool_total (u, w) = spool_total s" .
  have c: "frame_complete S ns f = bindE (or_drop (pf_permit f) ?m) (\<lambda>_. on_upload (\<lambda>u. u\<lparr>pu_running := pu_running u @ [f]\<rparr>))"
    by (simp add: frame_complete_def)
  show ?thesis
  proof (cases q)
    case (Inl e)
    with run m total have "t = (u, drop_permit (pf_permit f) w)" unfolding c by (simp add: or_drop_def bindE_def)
    then have "spool_total t = spool_with (permits (pf_permit f)) (spool_total (u, w))"
      by (simp add: spool_total_def drop_permit_def release_with add.commute)
    with total show ?thesis by simp
  next
    case (Inr x)
    with run m have "t = (u\<lparr>pu_running := pu_running u @ [f]\<rparr>, w)"
      unfolding c by (simp add: or_drop_def bindE_def on_upload_def)
    then have "spool_total t = spool_with (permits (pf_permit f)) (spool_total (u, w))"
      by (simp add: spool_total_def held_permits_def ac_simps)
    with total show ?thesis by simp
  qed
qed

lemma handle_event_total: "moves conserves (handle_event S ns event)"
proof (rule moves_any)
  fix s r t assume run: "handle_event S ns event s = (r, t)"
  obtain u w where p: "progress S ns s = (u, w)" by (cases "progress S ns s")
  from progress_total [where S = S and ns = ns and s = s] have total: "spool_total (u, w) = spool_total s" by (simp add: p)
  show "conserves s t"
  proof (cases event)
    case (Started d)
    obtain q v where b: "bindE (on_spool (reserve (d_size d))) (frame_new S d) w = (q, v)" by fastforce
    note begun = begin_frame_spool [OF b]
    show ?thesis
    proof (cases q)
      case (Inl e)
      with run p Started b have "t = (u, v)" by (simp add: handle_event_def on_world_def focus_def bindE_def)
      with begun Inl total show ?thesis by (simp add: spool_total_def)
    next
      case (Inr f)
      with run p Started b have "t = (u\<lparr>pu_frame := Some f\<rparr>,
          case pu_frame u of None \<Rightarrow> v | Some old \<Rightarrow> drop_permit (pf_permit old) v)"
        by (simp add: handle_event_def on_world_def focus_def bindE_def)
      moreover from begun Inr have w: "w_spool w = spool_with (permits (pf_permit f)) (w_spool v)" by simp
      ultimately have "spool_total t = spool_total (u, w)"
        by (cases "pu_frame u") (simp_all add: spool_total_def held_permits_def drop_permit_def release_with w ac_simps)
      with total show ?thesis by simp
    qed
  next
    case (Payload payload)
    show ?thesis
    proof (cases "pu_frame u")
      case (Some f)
      obtain q v where fw: "frame_write S payload f w = (q, v)" by fastforce
      have v: "w_spool v = w_spool w" using moves_step [OF frame_spool(1) fw] .
      show ?thesis
      proof (cases q)
        case (Inr g)
        with fw have "pf_permit g = pf_permit f"
          by (auto simp: frame_write_def write_chunk_def result_simps)
        with run p Payload Some fw Inr v total show ?thesis
          by (auto simp: handle_event_def on_world_def focus_def bindE_def on_upload_def spool_total_def held_permits_def)
      qed (use run p Payload Some fw v total in \<open>auto simp: handle_event_def on_world_def focus_def bindE_def spool_total_def\<close>)
    qed (use run p Payload total in \<open>auto simp: handle_event_def\<close>)
  next
    case Complete
    show ?thesis
    proof (cases "pu_frame u")
      case (Some f)
      with run p Complete have "frame_complete S ns f (u\<lparr>pu_frame := None\<rparr>, w) = (r, t)" by (simp add: handle_event_def)
      from frame_complete_total [OF this] total Some show ?thesis
        by (simp add: spool_total_def held_permits_def add.commute)
    qed (use run p Complete total in \<open>auto simp: handle_event_def\<close>)
  qed
qed

section \<open>A whole request\<close>

lemma count_remaining_empty:
  "stores_len (fst s) \<le> n \<Longrightarrow> count_remaining S ns n s = (Inr (), t) \<Longrightarrow> stores_len (fst t) = 0"
proof (induction n arbitrary: s)
  case (Suc n)
  obtain q u where run: "next_stored S ns s = (q, u)" by (cases "next_stored S ns s")
  show ?case
  proof (cases q)
    case (Inr found)
    show ?thesis
    proof (cases found)
      case None
      with run Inr have "stores_len (fst s) = 0" "u = advance S ns s" by (simp_all add: next_stored_None)
      with Suc.prems(2) run Inr None stores_len_advance [of S ns s] show ?thesis by simp
    next
      case (Some x)
      with run Inr next_stored_Some(3) have len: "stores_len (fst s) = Suc (stores_len (fst u))" by metis
      obtain y v where c: "count_stored x u = (y, v)" by (cases "count_stored x u")
      with Suc.prems(2) run Inr Some have "y = Inr ()" "count_remaining S ns n v = (Inr (), t)"
        by (cases y; simp)+
      moreover have "stores_len (fst v) = stores_len (fst u)"
        using c by (auto simp: count_stored_def on_upload_def result_simps stores_len_def bindE_def
            split: sum.splits put_outcome.splits prod.splits)
      ultimately show ?thesis using Suc.IH [of v] Suc.prems(1) len by simp
    qed
  qed (use run in simp)
qed simp

lemma read_pack_body_total: "moves conserves (read_pack_body S ns body)"
proof (induction S ns body rule: read_pack_body.induct)
  case (1 S ns)
  show ?case
  proof (rule moves_any)
    fix s r t assume "read_pack_body S ns [] s = (r, t)"
    then have "count_remaining S ns (stores_len (fst s)) s = (r, t)" by (cases s) simp
    with count_remaining_total show "conserves s t" by (rule moves_step)
  qed
next
  case (2 S ns e body)
  show ?case unfolding read_pack_body.simps by (rule moves_throw [OF conserves_preorder])
next
  case (3 S ns chunk body)
  show ?case
  proof (rule moves_any)
    fix s r t assume run: "read_pack_body S ns (Inr chunk # body) s = (r, t)"
    obtain u w where s: "s = (u, w)" by fastforce
    show "conserves s t"
    proof (cases "push (sv_protocol S) (pu_reader u) chunk")
      case (Inr p)
      obtain events reader where p: "p = (events, reader)" by fastforce
      with Inr run s have "bindE (forE events (handle_event S ns)) (\<lambda>_. read_pack_body S ns body)
          (u\<lparr>pu_reader := reader\<rparr>, w) = (r, t)" by simp
      note rest = this
      from 3 Inr p have "moves conserves (read_pack_body S ns body)" by blast
      then have "moves conserves (bindE (forE events (handle_event S ns)) (\<lambda>_. read_pack_body S ns body))"
        by (intro moves_bind conserves_preorder moves_for handle_event_total)
      from moves_step [OF this rest] show ?thesis by (simp add: s spool_total_def held_permits_def)
    qed (use run s in simp)
  qed
qed

lemma read_pack_body_empty:
  "read_pack_body S ns body s = (Inr (), t) \<Longrightarrow> stores_len (fst t) = 0"
proof (induction S ns body arbitrary: s rule: read_pack_body.induct)
  case (1 S ns)
  then have "count_remaining S ns (stores_len (fst s)) s = (Inr (), t)" by (cases s) simp
  then show ?case by (rule count_remaining_empty [OF order_refl])
next
  case (3 S ns chunk body)
  obtain u w where s: "s = (u, w)" by fastforce
  show ?case
  proof (cases "push (sv_protocol S) (pu_reader u) chunk")
    case (Inr p)
    obtain events reader where p: "p = (events, reader)" by fastforce
    with Inr 3(2) s obtain v where "read_pack_body S ns body v = (Inr (), t)" by (auto simp: result_simps)
    with 3(1) Inr p show ?thesis by blast
  qed (use 3(2) s in simp)
qed simp

lemma drop_frame_spool:
  assumes "stores_len u = 0"
  shows "w_spool (drop_frame (u, w)) = spool_total (u, w)"
  using assms by (auto simp: drop_frame_def drop_permit_def release_with spool_total_def held_permits_def stores_len_def
      split: option.split)

lemma read_and_store_pack_spool: "moves same_spool (read_and_store_pack S ns declared_blobs declared_bytes body)"
proof (rule moves_any)
  fix w r v assume run: "read_and_store_pack S ns declared_blobs declared_bytes body w = (r, v)"
  let ?u = "\<lparr>pu_reader = new_reader (sv_max_blob_bytes S) declared_blobs declared_bytes, pu_frame = None,
      pu_running = [], pu_done = [], pu_created = 0, pu_existing = 0\<rparr>"
  obtain q u w1 where body: "read_pack_body S ns body (?u, w) = (q, (u, w1))"
    by (cases "read_pack_body S ns body (?u, w)") auto
  have start: "spool_total (?u, w) = w_spool w" by (simp add: spool_total_def held_permits_def)
  from moves_step [OF read_pack_body_total body] start have total: "spool_total (u, w1) = w_spool w" by simp
  show "same_spool w v"
  proof (cases q)
    case (Inl e)
    obtain u2 w2 where d: "drain S ns (stores_len u) (u, w1) = (u2, w2)" by fastforce
    from drain_total [where S = S and ns = ns and n = "stores_len u" and s = "(u, w1)"] total
    have "spool_total (u2, w2) = w_spool w" by (simp add: d)
    moreover have "stores_len u2 = 0" using drain_empty [of "(u, w1)" "stores_len u" S ns] by (simp add: d)
    ultimately show ?thesis
      using run body Inl d by (auto simp: read_and_store_pack_def drop_frame_spool)
  next
    case (Inr x)
    obtain r' w2 where rec: "pack_receipt S declared_blobs declared_bytes u w1 = (r', w2)" by fastforce
    have "moves same_spool (pack_receipt S declared_blobs declared_bytes u)"
      unfolding pack_receipt_def
      by (intro moves_bind keeps_preorder moves_lift moves_if moves_throw moves_spool_prims moves_return)
    from moves_step [OF this rec] total have "spool_total (u, w2) = w_spool w" by (simp add: spool_total_def)
    moreover from body Inr have "read_pack_body S ns body (?u, w) = (Inr (), (u, w1))" by simp
    then have "stores_len u = 0" by (rule read_pack_body_empty [where t = "(u, w1)", unfolded fst_conv])
    ultimately show ?thesis
      using run body Inr rec by (auto simp: read_and_store_pack_def drop_frame_spool)
  qed
qed

lemma put_blob_pack_spool: "moves same_spool (put_blob_pack S headers body)"
  unfolding put_blob_pack_def authorized_def
  by (intro moves_bind keeps_preorder moves_lift moves_if moves_throw moves_spool_prims read_and_store_pack_spool)

text \<open>
  C6. Every upload gives back the room it took: however a request ends - acknowledged, refused, cut off by
  its client, by a broken pack, by a failing disk or store - the free room of the spool budget after it is
  what it was before, for single blobs and for packs with any number of frames in flight.
\<close>

theorem uploads_give_back_spool:
  "w_spool (snd (put_blob S headers parts body w)) = w_spool w
    \<and> w_spool (snd (put_blob_pack S headers body w)) = w_spool w"
  using put_blob_spool put_blob_pack_spool [of S headers body] unfolding moves_def by blast

end
