(* ===== verification/Service.thy ===== *)
theory Service
  imports Pack_Upload Pack_Download Action_Results
begin

text \<open>
  \<open>src/server.rs\<close>: the router, and the service as a state machine. A request names its route and carries
  what the extractors give the handler; a state is the shared world and the pack responses that are still
  open. Requests are answered, open pack responses are streamed to their end or abandoned, and pending
  accesses are flushed, in any order.
\<close>

section \<open>The router\<close>

type_synonym parts = "string \<times> string \<times> u64"

datatype request =
    StatusRequest
  | CapabilitiesRequest
  | GetBlob header_map parts
  | PutBlob header_map parts "(string + bytes) list"
  | PutBlobPack header_map "(string + bytes) list"
  | MissingBlobs header_map "digest list"
  | PackBlobs header_map "digest list"
  | GetActionResult header_map parts
  | PutActionResult header_map parts action_result
  | BatchActionResults header_map "digest list"
  | GetActionManifest header_map parts
  | PutActionManifest header_map parts "(string + bytes) list"
  | MetricsRequest

datatype response =
    StatusReply json
  | CapabilitiesReply capabilities
  | BlobReply "(string + bytes) list reply"
  | CodeReply nat
  | ReceiptReply "blob_pack_receipt reply"
  | MissingReply "digest list"
  | PackReply "pack_stream reply"
  | ResultReply action_result
  | BatchReply "action_result list reply"
  | ManifestReply "bytes reply"
  | StoredReply "unit reply"
  | MetricsReply "string reply"

definition respond :: "('a \<Rightarrow> response) \<Rightarrow> ('b, 'm, 'a) handler \<Rightarrow> ('b, 'm, response) handler" where
  "respond c m = bindE m (\<lambda>x. returnE (c x))"

definition router :: "('b, 'm, 'h) server \<Rightarrow> request \<Rightarrow> ('b, 'm, response) handler" where
  "router S request =
     (case request of
        StatusRequest \<Rightarrow> returnE (StatusReply (status_reply S))
      | CapabilitiesRequest \<Rightarrow> returnE (CapabilitiesReply (capabilities_of S))
      | GetBlob headers parts \<Rightarrow> respond BlobReply (get_blob S headers parts)
      | PutBlob headers parts body \<Rightarrow> respond CodeReply (put_blob S headers parts body)
      | PutBlobPack headers body \<Rightarrow> respond ReceiptReply (put_blob_pack S headers body)
      | MissingBlobs headers ds \<Rightarrow> respond MissingReply (missing_blobs S headers ds)
      | PackBlobs headers ds \<Rightarrow> respond PackReply (pack_blobs S headers ds)
      | GetActionResult headers parts \<Rightarrow> respond ResultReply (get_action_result S headers parts)
      | PutActionResult headers parts r \<Rightarrow> respond CodeReply (put_action_result S headers parts r)
      | BatchActionResults headers ds \<Rightarrow> respond BatchReply (batch_action_results S headers ds)
      | GetActionManifest headers parts \<Rightarrow> respond ManifestReply (get_action_manifest S headers parts)
      | PutActionManifest headers parts body \<Rightarrow> respond StoredReply (put_action_manifest S headers parts body)
      | MetricsRequest \<Rightarrow> respond MetricsReply (metrics_reply S))"

text \<open>The headers a request is authorized by.\<close>

fun request_headers :: "request \<Rightarrow> header_map option" where
  "request_headers (GetBlob headers _) = Some headers"
| "request_headers (PutBlob headers _ _) = Some headers"
| "request_headers (PutBlobPack headers _) = Some headers"
| "request_headers (MissingBlobs headers _) = Some headers"
| "request_headers (PackBlobs headers _) = Some headers"
| "request_headers (GetActionResult headers _) = Some headers"
| "request_headers (PutActionResult headers _ _) = Some headers"
| "request_headers (BatchActionResults headers _) = Some headers"
| "request_headers (GetActionManifest headers _) = Some headers"
| "request_headers (PutActionManifest headers _ _) = Some headers"
| "request_headers _ = None"

definition request_namespace :: "('b, 'm, 'h) server \<Rightarrow> request \<Rightarrow> string option" where
  "request_namespace S request =
     (case request_headers request of None \<Rightarrow> None | Some headers \<Rightarrow> namespace_header S headers)"

text \<open>No chunk of a request's body is as long as the address space.\<close>

fun request_fits :: "request \<Rightarrow> bool" where
  "request_fits (PutBlob _ _ body) = chunks_fit body"
| "request_fits _ = True"

section \<open>The service\<close>

record ('b, 'm) service =
  se_world :: "('b, 'm) world"
  se_streams :: "pack_stream list"

fun opened :: "api_error + response \<Rightarrow> pack_stream list" where
  "opened (Inr (PackReply rep)) = [rp_body rep]"
| "opened _ = []"

inductive service_step :: "('b, 'm, 'h) server \<Rightarrow> ('b, 'm) service \<Rightarrow> ('b, 'm) service \<Rightarrow> bool" for S where
  answer: "request_fits request \<Longrightarrow> router S request (se_world s) = (r, v) \<Longrightarrow>
    service_step S s \<lparr>se_world = v, se_streams = opened r @ se_streams s\<rparr>"
| stream: "st \<in> set (se_streams s) \<Longrightarrow> run_pack_stream S st polls (se_world s) = (items, v) \<Longrightarrow>
    service_step S s \<lparr>se_world = v, se_streams = remove1 st (se_streams s)\<rparr>"
| flush: "service_step S s (s\<lparr>se_world := flush_world S (se_world s)\<rparr>)"

abbreviation serves :: "('b, 'm, 'h) server \<Rightarrow> ('b, 'm) service \<Rightarrow> ('b, 'm) service \<Rightarrow> bool" where
  "serves S \<equiv> rtranclp (service_step S)"

inductive_cases service_stepE: "service_step S s t"

end
