(* ===== verification/Cache_Soundness.thy ===== *)
theory Cache_Soundness
  imports Service Pack_Delivery Action_Commit
begin

text \<open>
  The invariant of the whole service, \<open>cache_sound\<close>: every blob a namespace lists is held with content
  that belongs under its digest, and every committed result is closed (\<open>result_stored\<close>). Whatever is
  requested, in whatever order, keeps it, and nothing that is listed is ever lost. In a sound cache the
  branches that forget a missing blob are never reached.
\<close>

definition cache_sound :: "('b, 'm, 'h) server \<Rightarrow> (digest \<Rightarrow> bytes option) \<Rightarrow> (string \<Rightarrow> digest \<Rightarrow> bool)
    \<Rightarrow> (string \<Rightarrow> digest \<Rightarrow> action_result option) \<Rightarrow> bool" where
  "cache_sound S content listed committed \<longleftrightarrow>
     (\<forall>ns d. listed ns d \<longrightarrow> digest_ok (sv_protocol S) d \<and> (\<exists>c. content d = Some c \<and> content_matches S d c))
     \<and> (\<forall>ns a r. committed ns a = Some r \<longrightarrow> ar_action r = a \<and> result_stored S content (listed ns) r)"

lemma cache_sound_grown:
  assumes "cache_sound S c l k" and "\<And>ns. grown c (l ns) c' (l' ns)"
    and "\<And>ns d. l' ns d \<Longrightarrow> l ns d \<or> digest_ok (sv_protocol S) d \<and> (\<exists>x. c' d = Some x \<and> content_matches S d x)"
    and "\<And>ns a r. k' ns a = Some r \<Longrightarrow> k ns a = Some r \<or> ar_action r = a \<and> result_stored S c' (l' ns) r"
  shows "cache_sound S c' l' k'"
  unfolding cache_sound_def
proof (intro conjI allI impI)
  fix ns d assume d: "l' ns d"
  have "digest_ok (sv_protocol S) d \<and> (\<exists>x. c' d = Some x \<and> content_matches S d x)"
  proof (cases "l ns d")
    case True
    with assms(1) obtain x where "digest_ok (sv_protocol S) d" "c d = Some x" "content_matches S d x"
      unfolding cache_sound_def by blast
    moreover from assms(2) True this(2) have "c' d = Some x" unfolding grown_def by blast
    ultimately show ?thesis by blast
  qed (use assms(3) d in blast)
  then show "digest_ok (sv_protocol S) d" "\<exists>x. c' d = Some x \<and> content_matches S d x" by blast+
next
  fix ns a r assume "k' ns a = Some r"
  with assms(4) consider "k ns a = Some r" | "ar_action r = a \<and> result_stored S c' (l' ns) r" by blast
  then have "ar_action r = a \<and> result_stored S c' (l' ns) r"
  proof cases
    case 1
    with assms(1) have "ar_action r = a" "result_stored S c (l ns) r" unfolding cache_sound_def by blast+
    with result_stored_grown [OF assms(2)] show ?thesis by blast
  qed
  then show "ar_action r = a" "result_stored S c' (l' ns) r" by blast+
qed

text \<open>Composition at one state.\<close>

lemma moves_at_bind:
  assumes R: "preorder_rel R" and m: "moves R m" and f: "\<And>x t. m s = (Inr x, t) \<Longrightarrow> R s t \<Longrightarrow> R t (snd (f x t))"
  shows "R s (snd (bindE m f s))"
proof -
  obtain r t where r: "m s = (r, t)" by fastforce
  have st: "R s t" by (rule moves_step [OF m r])
  show ?thesis
  proof (cases r)
    case (Inl e)
    with r st show ?thesis by (simp add: bindE_def)
  next
    case (Inr x)
    with r f [of x t] st have "R t (snd (f x t))" by simp
    with r Inr st show ?thesis by (auto simp: bindE_def intro: preorder_rel_trans [OF R])
  qed
qed

lemma movesI: "(\<And>s. R s (snd (m s))) \<Longrightarrow> moves R m"
  by (simp add: moves_def)

section \<open>The checks of a result\<close>

text \<open>What the checks do is what their lookups do.\<close>

definition lookups_move :: "('b, 'm, 'h) server \<Rightarrow> string \<Rightarrow> (('b, 'm) world \<Rightarrow> ('b, 'm) world \<Rightarrow> bool) \<Rightarrow> bool" where
  "lookups_move S ns R \<longleftrightarrow> preorder_rel R \<and> (\<forall>d. moves R (visible_in S ns d)) \<and> (\<forall>d e. moves R (read_object S ns d e))
     \<and> (\<forall>ds. moves R (on_metadata (ms_visible_blobs (sv_metadata S) ns ds) :: (('b, 'm) world, anyhow, digest list) comp))"

lemma lookups_facts:
  assumes "lookups_move S ns R"
  shows "preorder_rel R" and "moves R (visible_in S ns d)" and "moves R (read_object S ns d e)"
    and "moves R (on_metadata (ms_visible_blobs (sv_metadata S) ns ds) :: (('b, 'm) world, anyhow, digest list) comp)"
  using assms by (auto simp: lookups_move_def)

lemma read_directory_moves:
  assumes L: "lookups_move S ns R" shows "moves R (read_directory S ns d)"
  unfolding read_directory_def require_files_def
  by (intro moves_if moves_throw moves_bind moves_lift moves_return moves_internalE lookups_facts [OF L])

lemma visit_step_moves:
  assumes L: "lookups_move S ns R" shows "moves R (visit_step S ns v k)"
  unfolding visit_step_def
  by (cases v; simp; intro conjI impI moves_if moves_throw moves_bind moves_return read_directory_moves [OF L] lookups_facts(1) [OF L])

lemma walk_tree_moves:
  assumes L: "lookups_move S ns R" shows "moves R (walk_tree S ns k)"
proof (rule movesI)
  fix w
  have "T = S \<Longrightarrow> m = ns \<Longrightarrow> R w (snd (walk_tree T m k w))" for T m
  proof (induction T m k w rule: walk_tree.induct)
    case (1 T m k w)
    show ?case
    proof (cases "wk_pending k")
      case Nil
      then show ?thesis using preorder_rel_refl [OF lookups_facts(1) [OF L]] by (simp add: walk_tree.simps)
    next
      case (Cons v vs)
      obtain r u where r: "visit_step S ns v (k\<lparr>wk_pending := vs\<rparr>) w = (r, u)" by fastforce
      have wu: "R w u" by (rule moves_step [OF visit_step_moves [OF L] r])
      show ?thesis
      proof (cases r)
        case (Inl e)
        with Cons r wu "1.prems" show ?thesis by (subst walk_tree.simps) simp
      next
        case (Inr k')
        have "R u (snd (walk_tree T m k' u))"
          by (rule "1.IH" [OF Cons _ Inr "1.prems"]) (simp add: r "1.prems")
        with preorder_rel_trans [OF lookups_facts(1) [OF L] wu] Cons r Inr "1.prems" show ?thesis
          by (subst walk_tree.simps) simp
      qed
    qed
  qed
  then show "R w (snd (walk_tree S ns k w))" by simp
qed

lemma validate_tree_moves: "lookups_move S ns R \<Longrightarrow> moves R (validate_tree S ns d)"
  unfolding validate_tree_def by (rule walk_tree_moves)

lemma read_canonical_moves:
  assumes L: "lookups_move S ns R" shows "moves R (read_canonical_object S ns d label)"
  unfolding read_canonical_object_def
  by (intro moves_bind moves_lift moves_if moves_throw lookups_facts [OF L])

lemma validate_descriptor_moves:
  assumes L: "lookups_move S ns R" shows "moves R (validate_action_descriptor S ns d)"
  unfolding validate_action_descriptor_def
  by (intro moves_bind moves_lift read_canonical_moves [OF L] lookups_facts [OF L])

lemma require_outputs_move:
  assumes L: "lookups_move S ns R" shows "moves R (require_output_blobs S ns a b kind)"
  unfolding require_output_blobs_def require_blob_def
  by (intro moves_bind moves_lift moves_if moves_return moves_throw lookups_facts [OF L])

lemma validate_metadata_moves:
  assumes L: "lookups_move S ns R" shows "moves R (validate_client_metadata S ns d kind)"
proof -
  have "moves R (case kind of
       TaskKind \<Rightarrow> liftE (validate_task_metadata (sv_codec S) v version)
     | BuildScriptKind \<Rightarrow> validate_build_script_metadata S ns v version
     | CcKind \<Rightarrow> validate_cc_metadata S ns v version
     | RustcKind \<Rightarrow> validate_rustc_metadata S ns v version)" for v version
    unfolding validate_build_script_metadata_def validate_cc_metadata_def validate_rustc_metadata_def
    by (cases kind; simp; intro conjI impI moves_bind moves_lift moves_if moves_throw require_outputs_move [OF L] lookups_facts(1) [OF L])
  then show ?thesis
    unfolding validate_client_metadata_def
    by (intro moves_bind moves_lift read_canonical_moves [OF L] lookups_facts(1) [OF L])
qed

lemma if_some_moves: "preorder_rel R \<Longrightarrow> (\<And>d. moves R (f d)) \<Longrightarrow> moves R (if_some x f)"
  by (cases x) (simp_all add: if_some_def moves_return)

section \<open>Pack responses\<close>

lemma deliver_stores: "moves same_stores (deliver x)"
proof -
  have pre: "preorder_rel same_stores" by (rule preorder_relI) (auto simp: same_stores_def)
  show ?thesis
    unfolding deliver_def
  proof (cases x; simp; (intro conjI allI impI)?)
    show "moves same_stores (broken e)" for e by (rule moves_any) (rule broken_run(3))
    show "moves same_stores (case p of (header, b) \<Rightarrow> bindE (emit header) (\<lambda>_.
        bindE (send_chunks (bl_size b) (bl_stream b) 0) (\<lambda>streamed.
        if streamed \<noteq> bl_size b then broken (InvalidData ''stored blob stream is shorter than advertised'')
        else bindE (gen_world (on_metrics blob_served)) (\<lambda>_. gen_world (on_metrics inc_blob_hit)))))" for p
      by (cases p; simp; intro conjI impI moves_bind pre moves_if; rule moves_any;
          (erule emit_run(3) | drule send_chunks_run, blast | erule broken_run(3) | erule gen_metrics_run(3)))
  qed
qed

lemma run_reads_moves:
  assumes R: "preorder_rel R" and e: "\<And>e. e \<in> set es \<Longrightarrow> moves R (read_entry S ns e)"
  shows "moves R (run_reads S ns es)"
proof (rule movesI)
  show "R w (snd (run_reads S ns es w))" for w
    using e
  proof (induction es arbitrary: w)
    case Nil
    then show ?case by (simp add: preorder_rel_refl [OF R])
  next
    case (Cons e es)
    obtain r u where r: "read_entry S ns e w = (r, u)" by fastforce
    obtain rs v where rs: "run_reads S ns es u = (rs, v)" by fastforce
    have "R w u" by (rule moves_step [OF Cons.prems r]) simp
    moreover have "R u v" using Cons.IH [of u] Cons.prems rs by (metis list.set_intros(2) snd_conv)
    ultimately show ?case using r rs by (auto intro: preorder_rel_trans [OF R])
  qed
qed

lemma serve_entries_moves:
  assumes R: "preorder_rel R" and calm: "\<And>w v. w_blobs v = w_blobs w \<Longrightarrow> w_metadata v = w_metadata w \<Longrightarrow> R w v"
  shows "(\<And>e. e \<in> set es \<Longrightarrow> moves R (read_entry S ns e)) \<Longrightarrow>
    moves (\<lambda>s t. R (ge_world s) (ge_world t)) (serve_entries S ns es q)"
proof (induction es arbitrary: q)
  case Nil
  then show ?case by (simp add: moves_def preorder_rel_refl [OF R])
next
  case (Cons e es)
  have pre: "preorder_rel (\<lambda>s t. R (ge_world s) (ge_world t))"
    by (rule preorder_relI) (auto intro: preorder_rel_refl [OF R] preorder_rel_trans [OF R])
  have "moves R (run_reads S ns (drop (length q) (take max_pack_storage_reads (e # es))))"
    by (rule run_reads_moves [OF R]) (auto intro!: Cons.prems dest!: in_set_dropD in_set_takeD)
  then have reads: "moves (\<lambda>s t. R (ge_world s) (ge_world t))
      (gen_world (run_reads S ns (drop (length q) (take max_pack_storage_reads (e # es)))))"
    by (simp add: moves_def gen_world_def focus_def split_beta)
  have send: "moves (\<lambda>s t. R (ge_world s) (ge_world t)) (deliver x)" for x
    using deliver_stores [of x] by (auto simp: moves_def same_stores_def intro: calm)
  show ?case
    unfolding serve_entries.simps
    by (rule moves_bind [OF pre reads], rule moves_bind [OF pre send]) (rule Cons.IH, rule Cons.prems, simp)
qed

lemma run_pack_stream_moves:
  assumes R: "preorder_rel R" and calm: "\<And>w v. w_blobs v = w_blobs w \<Longrightarrow> w_metadata v = w_metadata w \<Longrightarrow> R w v"
    and e: "\<And>e. e \<in> set (ps_entries st) \<Longrightarrow> moves R (read_entry S (ps_namespace st) e)"
    and run: "run_pack_stream S st polls w = (items, v)"
  shows "R w v"
proof -
  let ?R = "\<lambda>s t. R (ge_world s) (ge_world t)"
  have pre: "preorder_rel ?R"
    by (rule preorder_relI) (auto intro: preorder_rel_refl [OF R] preorder_rel_trans [OF R])
  have guard: "moves ?R (guard_op f)" for f
    by (rule moves_any, drule guard_op_run(3)) (auto simp: same_stores_def intro: calm)
  have emit: "moves ?R (emit c)" for c
    by (rule moves_any, drule emit_run(3)) (auto simp: same_stores_def intro: calm)
  have "moves ?R (pack_body S st)"
    unfolding pack_body_def
    by (intro moves_bind pre guard emit serve_entries_moves [OF R calm] e)
  let ?s = "\<lparr>ge_world = w, ge_guard = ps_guard st, ge_polls = polls, ge_sent = []\<rparr>"
  obtain r t where t: "(if polls = Some 0 then (Inl Cancelled, ?s) else pack_body S st ?s) = (r, t)" by fastforce
  then have "R w (ge_world t)"
    using moves_step [OF \<open>moves ?R (pack_body S st)\<close>, of ?s r t] by (auto simp: preorder_rel_refl [OF R] split: if_splits)
  moreover have "v = drop_guard (ge_guard t) (ge_world t)" using run t by (auto simp: run_pack_stream_def Let_def)
  then have "R (ge_world t) v" using drop_guard_stores [of "ge_guard t" "ge_world t"] by (intro calm) simp_all
  ultimately show ?thesis by (rule preorder_rel_trans [OF R])
qed

context cache_server begin

definition sound_world :: "('b, 'm) world \<Rightarrow> bool" where
  "sound_world w \<longleftrightarrow> world_ok w \<and> cache_sound S (held (w_blobs w)) (visible (w_metadata w)) (result (w_metadata w))"

definition safe :: "('b, 'm) world \<Rightarrow> ('b, 'm) world \<Rightarrow> bool" where
  "safe w v \<longleftrightarrow> sound_world w \<longrightarrow> sound_world v \<and> blobs_kept (w_blobs w) (w_blobs v)
     \<and> (\<forall>ns d. visible (w_metadata w) ns d \<longrightarrow> visible (w_metadata v) ns d)"

lemma safe_preorder [simp]: "preorder_rel safe"
proof (rule preorder_relI)
  show "safe w v" if "safe w u" "safe u v" for w u v
    using that unfolding safe_def by (metis blobs_kept_def)
qed (simp add: safe_def blobs_kept_def)

lemma safe_trans: "safe w u \<Longrightarrow> safe u v \<Longrightarrow> safe w v"
  using safe_preorder by (rule preorder_rel_trans)

lemma sound_listed: "sound_world w \<Longrightarrow> listed_ok (w_metadata w)"
  by (auto simp: sound_world_def cache_sound_def listed_ok_def)

lemma sound_held: "sound_world w \<Longrightarrow> visible (w_metadata w) ns d \<Longrightarrow> digest_ok (sv_protocol S) d \<and> held (w_blobs w) d \<noteq> None"
  by (fastforce simp: sound_world_def cache_sound_def)

text \<open>How a step keeps the invariant: nothing lost, and what is new is checked.\<close>

lemma safeI:
  assumes "sound_world w \<Longrightarrow> world_ok v" and kept: "sound_world w \<Longrightarrow> blobs_kept (w_blobs w) (w_blobs v)"
    and grow: "\<And>ns d. sound_world w \<Longrightarrow> visible (w_metadata w) ns d \<Longrightarrow> visible (w_metadata v) ns d"
    and new: "\<And>ns d. sound_world w \<Longrightarrow> visible (w_metadata v) ns d \<Longrightarrow> visible (w_metadata w) ns d
      \<or> digest_ok (sv_protocol S) d \<and> held (w_blobs v) d \<noteq> None"
    and commit: "\<And>ns a r. sound_world w \<Longrightarrow> result (w_metadata v) ns a = Some r \<Longrightarrow>
      result (w_metadata w) ns a = Some r \<or> ar_action r = a \<and> stored_result ns r v"
  shows "safe w v"
  unfolding safe_def
proof (intro impI conjI)
  assume w: "sound_world w"
  have ok: "world_ok v" by (rule assms(1) [OF w])
  show "blobs_kept (w_blobs w) (w_blobs v)" by (rule kept [OF w])
  show "\<forall>ns d. visible (w_metadata w) ns d \<longrightarrow> visible (w_metadata v) ns d" using grow [OF w] by blast
  have "cache_sound S (held (w_blobs v)) (visible (w_metadata v)) (result (w_metadata v))"
  proof (rule cache_sound_grown)
    show "cache_sound S (held (w_blobs w)) (visible (w_metadata w)) (result (w_metadata w))"
      using w by (simp add: sound_world_def)
    show "grown (held (w_blobs w)) (visible (w_metadata w) ns) (held (w_blobs v)) (visible (w_metadata v) ns)" for ns
      using grow [OF w] kept [OF w] sound_held [OF w] by (auto simp: grown_def blobs_kept_def)
    show "visible (w_metadata w) ns d \<or> digest_ok (sv_protocol S) d \<and> (\<exists>x. held (w_blobs v) d = Some x \<and> content_matches S d x)"
      if "visible (w_metadata v) ns d" for ns d
    proof -
      have "bok (w_blobs v)" using ok by (simp add: world_ok_def)
      with new [OF w that] blobs.held_good [of "w_blobs v" d] show ?thesis by auto
    qed
  qed (rule commit [OF w])
  with ok show "sound_world v" by (simp add: sound_world_def)
qed

lemma step_safe:
  assumes "step {} w v" shows "safe w v"
proof (rule safeI)
  assume w: "sound_world w"
  then have s: "world_ok v" "blobs_kept (w_blobs w) (w_blobs v)" "same_outside {} (w_metadata w) (w_metadata v)"
    using assms by (auto simp: step_def sound_world_def)
  then show "world_ok v" "blobs_kept (w_blobs w) (w_blobs v)" by blast+
  from s(3) have m: "visible (w_metadata v) ns = visible (w_metadata w) ns"
    "result (w_metadata v) ns a = result (w_metadata w) ns a \<or> result (w_metadata v) ns a = None" for ns a
    by (auto simp: same_outside_def)
  show "visible (w_metadata w) ns d \<Longrightarrow> visible (w_metadata v) ns d" for ns d by (simp add: m(1))
  show "visible (w_metadata v) ns d \<Longrightarrow> visible (w_metadata w) ns d \<or> digest_ok (sv_protocol S) d \<and> held (w_blobs v) d \<noteq> None" for ns d
    by (simp add: m(1))
  show "result (w_metadata v) ns a = Some r \<Longrightarrow> result (w_metadata w) ns a = Some r \<or> ar_action r = a \<and> stored_result ns r v" for ns a r
    using m(2) [of ns a] by auto
qed

lemma moves_safe: "moves (step {}) m \<Longrightarrow> moves safe m"
  by (simp add: moves_def step_safe)

lemma untouched_safe: "untouched w v \<Longrightarrow> safe w v"
  by (intro step_safe untouched_step)

lemma quiet_safe: "moves untouched m \<Longrightarrow> moves safe m"
  by (simp add: moves_def untouched_safe)

section \<open>Publishing\<close>

lemma put_safe:
  assumes "digest_ok (sv_protocol S) d" and "content_matches S d content"
  shows "moves safe (on_blobs (bs_put (sv_blobs S) d content))"
  by (rule moves_safe [OF put_step [OF assms]])

lemma publish_safe:
  assumes d: "digest_ok (sv_protocol S) d" "content_matches S d content"
  shows "moves safe (publish S ns d content)"
proof (rule moves_any)
  fix w r v assume run: "publish S ns d content w = (r, v)"
  have st: "step {ns} w v"
    using moves_step [OF carries_facts(3) [OF carries_step [of ns "{ns}"] d] run] by simp
  obtain p b where p: "bs_put (sv_blobs S) d content (w_blobs w) = (p, b)" by fastforce
  show "safe w v"
  proof (rule safeI)
    assume w: "sound_world w"
    then have ok: "bok (w_blobs w)" "mok (w_metadata w)" "world_ok w" by (simp_all add: sound_world_def world_ok_def)
    from st ok(3) show "world_ok v" "blobs_kept (w_blobs w) (w_blobs v)" by (simp_all add: step_def)
    have reg: "w_metadata v = w_metadata w \<or>
      (\<exists>out q. p = Inr out \<and> ms_register_blob (sv_metadata S) ns d out (w_metadata w) = (q, w_metadata v) \<and> w_blobs v = b)"
      using run p by (cases r) (auto simp: publish_def result_simps on_metrics_def)
    have held: "held b d \<noteq> None" if "p = Inr out" for out
      using blobs.put_created [OF ok(1) d(1)] blobs.put_exists [OF ok(1) d(1)] p that by (cases out) fastforce+
    from reg show "visible (w_metadata w) ns' e \<Longrightarrow> visible (w_metadata v) ns' e" for ns' e
      using metadata.register [OF ok(2)] by (auto split: if_splits)
    from reg held d(1) show "visible (w_metadata v) ns' e \<Longrightarrow> visible (w_metadata w) ns' e
        \<or> digest_ok (sv_protocol S) e \<and> held (w_blobs v) e \<noteq> None" for ns' e
      using metadata.register [OF ok(2)] by (auto split: if_splits)
    from reg show "result (w_metadata v) ns' a = Some x \<Longrightarrow> result (w_metadata w) ns' a = Some x
        \<or> ar_action x = a \<and> stored_result ns' x v" for ns' a x
      using metadata.register [OF ok(2)] by auto
  qed
qed

lemma carries_safe: "carries ns safe"
  using safe_preorder untouched_safe publish_safe by (auto simp: carries_def)

lemma put_blob_safe: "chunks_fit body \<Longrightarrow> moves safe (put_blob S headers parts body)"
  by (rule put_blob_moves [OF safe_preorder untouched_safe carries_safe])

lemma put_blob_pack_safe: "packs_fit \<Longrightarrow> moves safe (put_blob_pack S headers body)"
  by (rule put_blob_pack_moves [OF safe_preorder untouched_safe carries_safe])

section \<open>Reading\<close>

lemma found_safe:
  assumes "sound_world w" and "visible (w_metadata w) ns d" and "get_stored S d w = (Inr found, v)"
  shows "found \<noteq> None"
proof -
  have "world_ok w" using assms(1) by (simp add: sound_world_def)
  from get_stored_run(1) [OF this _ assms(3)] sound_held [OF assms(1,2)] show ?thesis by blast
qed

lemma prims_safe:
  "moves safe (visible_in S ns d)" "moves safe (get_stored S d)" "moves safe (authorized S headers a)"
  "moves safe (on_metrics f)" "moves safe (on_pending g)" "moves safe instant_now"
  by (rule moves_safe [OF visible_in_step] moves_safe [OF get_stored_step] moves_safe [OF authorized_step]
      moves_safe [OF on_metrics_step] moves_safe [OF on_pending_step] moves_safe [OF instant_now_step])+

lemma safe_sound: "safe w v \<Longrightarrow> sound_world w \<Longrightarrow> sound_world v"
  by (simp add: safe_def)

lemma safe_visible: "safe w v \<Longrightarrow> sound_world w \<Longrightarrow> visible (w_metadata w) ns d \<Longrightarrow> visible (w_metadata v) ns d"
  by (simp add: safe_def)

lemma safe_unless: "(sound_world w \<Longrightarrow> safe w v) \<Longrightarrow> safe w v"
  by (simp add: safe_def)

text \<open>A lookup of a listed blob: the branch that forgets it is dead.\<close>

lemma lookup_safe:
  assumes "sound_world w" and "visible (w_metadata w) ns d" and "\<And>b. moves safe (f b)"
  shows "safe w (snd (bindE (get_stored S d) (\<lambda>found. case found of None \<Rightarrow> m | Some b \<Rightarrow> f b) w))"
proof (rule moves_at_bind [OF safe_preorder prims_safe(2)])
  fix found t assume g: "get_stored S d w = (Inr found, t)"
  with found_safe [OF assms(1,2)] obtain b where "found = Some b" by fastforce
  with assms(3) [of b] show "safe t (snd ((case found of None \<Rightarrow> m | Some b \<Rightarrow> f b) t))" by (simp add: moves_def)
qed

lemma visible_in_sound:
  assumes "sound_world w" and "visible_in S ns d w = (Inr True, t)"
  shows "sound_world t" and "visible (w_metadata t) ns d"
proof -
  have ok: "world_ok w" using assms(1) by (simp add: sound_world_def)
  show "sound_world t" by (rule safe_sound [OF moves_step [OF prims_safe(1) assms(2)] assms(1)])
  show "visible (w_metadata t) ns d" using visible_in_true [OF ok assms(2)] by simp
qed

lemma read_object_safe: "moves safe (read_object S ns d missing)"
proof (rule movesI, rule safe_unless)
  fix w assume w: "sound_world w"
  show "safe w (snd (read_object S ns d missing w))"
    unfolding read_object_def
  proof (rule moves_at_bind [OF safe_preorder prims_safe(1)])
    fix x t assume x: "visible_in S ns d w = (Inr x, t)"
    show "safe t (snd ((if \<not> x then throwE missing else bindE (get_stored S d) (\<lambda>found. case found of
        None \<Rightarrow> bindE (forget_missing_blob S ns d) (\<lambda>_. throwE missing)
      | Some b \<Rightarrow> liftE (map_err (\<lambda>e. internal (OtherError e)) (read_stream (bl_stream b) [])))) t))"
    proof (cases x)
      case True
      with visible_in_sound [OF w] x have "sound_world t" "visible (w_metadata t) ns d" by simp_all
      with True show ?thesis by (simp add: lookup_safe moves_lift)
    qed (simp add: preorder_rel_refl)
  qed
qed

lemma get_blob_safe: "moves safe (get_blob S headers parts)"
  unfolding get_blob_def
proof (rule moves_bind [OF safe_preorder prims_safe(3)], rule moves_bind [OF safe_preorder moves_lift [OF safe_preorder]],
    rule movesI, rule safe_unless, rule moves_at_bind [OF safe_preorder prims_safe(1)])
  fix ns d w x t assume w: "sound_world w" and x: "visible_in S ns d w = (Inr x, t)"
  let ?hit = "\<lambda>b. bindE (on_metrics inc_blob_hit) (\<lambda>_. returnE \<lparr>rp_status = 200,
      rp_headers = [(''content-length'', nat_to_string (unat (bl_size b))), (''content-type'', ''application/octet-stream''),
        (''etag'', quoted_etag (d_hash d)), (''digest'', d_algorithm d @ ''='' @ d_hash d)], rp_body = bl_stream b\<rparr>)"
  have hit: "moves safe (?hit b)" for b
    by (intro moves_bind safe_preorder prims_safe moves_return)
  show "safe t (snd ((if \<not> x then throwE (not_found ''blob not found'')
      else bindE (on_pending (record_access ns [d])) (\<lambda>_. bindE (get_stored S d) (\<lambda>found. case found of
          None \<Rightarrow> bindE (forget_missing_blob S ns d) (\<lambda>_. throwE (not_found ''blob not found''))
        | Some b \<Rightarrow> ?hit b))) t))"
  proof (cases x)
    case True
    with visible_in_sound [OF w] x have t: "sound_world t" "visible (w_metadata t) ns d" by simp_all
    have "safe t (snd (bindE (on_pending (record_access ns [d])) (\<lambda>_. bindE (get_stored S d) (\<lambda>found. case found of
          None \<Rightarrow> bindE (forget_missing_blob S ns d) (\<lambda>_. throwE (not_found ''blob not found''))
        | Some b \<Rightarrow> ?hit b)) t))"
    proof (rule moves_at_bind [OF safe_preorder prims_safe(5)])
      fix u s assume "on_pending (record_access ns [d]) t = ((Inr u :: api_error + unit), s)" "safe t s"
      with safe_sound t safe_visible [of t s ns d] show "safe s (snd (bindE (get_stored S d) (\<lambda>found. case found of
          None \<Rightarrow> bindE (forget_missing_blob S ns d) (\<lambda>_. throwE (not_found ''blob not found''))
        | Some b \<Rightarrow> ?hit b) s))" by (intro lookup_safe hit) blast+
    qed
    then show ?thesis by (simp only: True not_True_eq_False if_False)
  qed (simp add: preorder_rel_refl)
qed

section \<open>Action results and manifests\<close>

lemma lookups_safe: "lookups_move S ns safe"
  unfolding lookups_move_def
  using safe_preorder prims_safe(1) read_object_safe moves_safe [OF ms_visible_blobs_step] by blast

lemma reads_safe: "only_reads w v \<Longrightarrow> safe w v"
  by (rule safeI; simp add: only_reads_def)

lemma commit_safe:
  assumes "sound_world w" and "stored_result ns r w" and "ar_action r = a"
  shows "safe w (snd (internalE (on_metadata (ms_commit (sv_metadata S) ns a r)) w))"
proof -
  obtain out n where c: "ms_commit (sv_metadata S) ns a r (w_metadata w) = (out, n)" by fastforce
  have ok: "mok (w_metadata w)" "world_ok w" using assms(1) by (simp_all add: sound_world_def world_ok_def)
  note co = metadata.commit [OF ok(1) c]
  then have other: "\<forall>k b. (k, b) \<noteq> (ns, a) \<longrightarrow> result n k b = result (w_metadata w) k b \<or> result n k b = None"
    by (elim conjE)
  have "safe w (w\<lparr>w_metadata := n\<rparr>)"
  proof (rule safeI)
    show "world_ok (w\<lparr>w_metadata := n\<rparr>)" using ok co by (simp add: world_ok_def)
    show "blobs_kept (w_blobs w) (w_blobs (w\<lparr>w_metadata := n\<rparr>))" by (simp add: blobs_kept_def)
    have vis: "visible n = visible (w_metadata w)" using co by blast
    then show "visible (w_metadata w) ns' d \<Longrightarrow> visible (w_metadata (w\<lparr>w_metadata := n\<rparr>)) ns' d"
      "visible (w_metadata (w\<lparr>w_metadata := n\<rparr>)) ns' d \<Longrightarrow> visible (w_metadata w) ns' d
        \<or> digest_ok (sv_protocol S) d \<and> held (w_blobs (w\<lparr>w_metadata := n\<rparr>)) d \<noteq> None" for ns' d by simp_all
    show "result (w_metadata (w\<lparr>w_metadata := n\<rparr>)) ns' b = Some x \<Longrightarrow> result (w_metadata w) ns' b = Some x
        \<or> ar_action x = b \<and> stored_result ns' x (w\<lparr>w_metadata := n\<rparr>)" for ns' b x
    proof (cases "(ns', b) = (ns, a)")
      case True
      assume "result (w_metadata (w\<lparr>w_metadata := n\<rparr>)) ns' b = Some x"
      with True co have x: "result (w_metadata w) ns a = Some x \<or> x = r" by (cases "out = Inr CommitCreated") auto
      have "stored_result ns r (w\<lparr>w_metadata := n\<rparr>)" using assms(2) by (simp add: vis)
      moreover have "ns' = ns" "b = a" using True by simp_all
      ultimately show ?thesis using x assms(3) by (elim disjE) simp_all
    next
      case False
      assume "result (w_metadata (w\<lparr>w_metadata := n\<rparr>)) ns' b = Some x"
      then have "result n ns' b = Some x" by simp
      moreover have "result n ns' b = result (w_metadata w) ns' b \<or> result n ns' b = None" using other False by simp
      ultimately have "result (w_metadata w) ns' b = Some x" by (metis option.distinct(1))
      then show ?thesis ..
    qed
  qed
  with c show ?thesis by (simp add: internalE_def on_metadata_def focus_def)
qed

lemma put_action_result_safe: "moves safe (put_action_result S headers parts r)"
proof (rule movesI, rule safe_unless)
  fix w assume w: "sound_world w"
  define tail :: "string \<Rightarrow> digest \<Rightarrow> ('b, 'm, nat) handler" where
    "tail ns a = bindE (internalE (on_metadata (ms_commit (sv_metadata S) ns a r))) (\<lambda>outcome.
       bindE (on_metrics inc_action_commit) (\<lambda>_. case outcome of
         CommitCreated \<Rightarrow> returnE 201 | CommitAlreadyExists \<Rightarrow> returnE 204
       | CommitConflict \<Rightarrow> throwE (conflict ''an immutable action result already exists'')))" for ns a
  have after: "moves safe (bindE (on_metrics inc_action_commit) (\<lambda>_. case outcome of
         CommitCreated \<Rightarrow> returnE (201 :: nat) | CommitAlreadyExists \<Rightarrow> returnE 204
       | CommitConflict \<Rightarrow> throwE e))" for outcome and e :: api_error
    by (cases outcome; simp; intro moves_bind safe_preorder prims_safe(4) moves_return moves_throw)
  have tail: "safe u (snd (tail ns a u))" if "sound_world u" "stored_result ns r u" "ar_action r = a" for ns a u
  proof -
    obtain q v where q: "internalE (on_metadata (ms_commit (sv_metadata S) ns a r)) u = (q, v)" by fastforce
    have uv: "safe u v" using commit_safe [OF that] q by simp
    show ?thesis
    proof (cases q)
      case (Inl e)
      with q uv show ?thesis by (simp add: tail_def bindE_def)
    next
      case (Inr out)
      have "safe v (snd (bindE (on_metrics inc_action_commit) (\<lambda>_. case out of
         CommitCreated \<Rightarrow> returnE (201 :: nat) | CommitAlreadyExists \<Rightarrow> returnE 204
       | CommitConflict \<Rightarrow> throwE (conflict ''an immutable action result already exists'')) v))"
        using after [of "conflict ''an immutable action result already exists''" out] unfolding moves_def by blast
      then have "safe u (snd (bindE (on_metrics inc_action_commit) (\<lambda>_. case out of
         CommitCreated \<Rightarrow> returnE (201 :: nat) | CommitAlreadyExists \<Rightarrow> returnE 204
       | CommitConflict \<Rightarrow> throwE (conflict ''an immutable action result already exists'')) v))"
        by (rule safe_trans [OF uv])
      with q Inr show ?thesis
        by (simp only: tail_def bindE_def [of "internalE _"] prod.case sum.case)
    qed
  qed
  have checks: "safe u (snd (bindE (validate_action_descriptor S ns a) (\<lambda>kind.
       bindE (liftE (validate_action_result_shape r kind)) (\<lambda>_.
       bindE (if_some (ar_metadata r) (\<lambda>d. validate_client_metadata S ns d kind)) (\<lambda>_.
       bindE (if_some (ar_output_root r) (validate_tree S ns)) (\<lambda>_. tail ns a)))) u))"
    if u: "sound_world u" and r: "ar_version r = 1" "ar_action r = a" for ns a u
  proof (rule moves_at_bind [OF safe_preorder validate_descriptor_moves [OF lookups_safe]])
    fix kind u1 assume kind: "validate_action_descriptor S ns a u = (Inr kind, u1)"
    show "safe u1 (snd (bindE (liftE (validate_action_result_shape r kind)) (\<lambda>_.
       bindE (if_some (ar_metadata r) (\<lambda>d. validate_client_metadata S ns d kind)) (\<lambda>_.
       bindE (if_some (ar_output_root r) (validate_tree S ns)) (\<lambda>_. tail ns a))) u1))"
    proof (rule moves_at_bind [OF safe_preorder moves_lift [OF safe_preorder]])
      fix x t assume "liftE (validate_action_result_shape r kind) u1 = (Inr x, t)"
      then have shape: "validate_action_result_shape r kind = Inr x" and t: "t = u1" by simp_all
      show "safe t (snd (bindE (if_some (ar_metadata r) (\<lambda>d. validate_client_metadata S ns d kind)) (\<lambda>_.
         bindE (if_some (ar_output_root r) (validate_tree S ns)) (\<lambda>_. tail ns a)) t))"
        unfolding t
      proof (rule moves_at_bind [OF safe_preorder if_some_moves [OF safe_preorder validate_metadata_moves [OF lookups_safe]]])
        fix y u2 assume meta: "if_some (ar_metadata r) (\<lambda>d. validate_client_metadata S ns d kind) u1 = (Inr y, u2)"
        show "safe u2 (snd (bindE (if_some (ar_output_root r) (validate_tree S ns)) (\<lambda>_. tail ns a) u2))"
        proof (rule moves_at_bind [OF safe_preorder if_some_moves [OF safe_preorder validate_tree_moves [OF lookups_safe]]])
          fix z u3 assume tree: "if_some (ar_output_root r) (validate_tree S ns) u2 = (Inr z, u3)"
          have ok: "world_ok u" using u by (simp add: sound_world_def)
          note c = checks_run [OF ok sound_listed [OF u] r(1) kind [folded r(2)] shape meta tree]
          have "sound_world u3" by (rule safe_sound [OF reads_safe [OF c(1)] u])
          then show "safe u3 (snd (tail ns a u3))" by (rule tail) (use c(2) r(2) in simp_all)
        qed
      qed
    qed
  qed
  show "safe w (snd (put_action_result S headers parts r w))"
    unfolding put_action_result_def tail_def [symmetric]
  proof (rule moves_at_bind [OF safe_preorder prims_safe(3)])
    fix ns w0 assume auth: "authorized S headers Write w = (Inr ns, w0)" and ww: "safe w w0"
    have w0: "sound_world w0" by (rule safe_sound [OF ww w])
    show "safe w0 (snd (bindE (liftE (require_immutable_precondition (headers_str S) headers)) (\<lambda>_.
       bindE (liftE (parse_action_digest (sv_protocol S) parts)) (\<lambda>a.
       if ar_version r \<noteq> 1 \<or> ar_action r \<noteq> a then throwE (bad_request ''action result does not match request'')
       else bindE (validate_action_descriptor S ns a) (\<lambda>kind.
         bindE (liftE (validate_action_result_shape r kind)) (\<lambda>_.
         bindE (if_some (ar_metadata r) (\<lambda>d. validate_client_metadata S ns d kind)) (\<lambda>_.
         bindE (if_some (ar_output_root r) (validate_tree S ns)) (\<lambda>_. tail ns a)))))) w0))"
    proof (rule moves_at_bind [OF safe_preorder moves_lift [OF safe_preorder]],
        rule moves_at_bind [OF safe_preorder moves_lift [OF safe_preorder]])
      fix x t a t' assume "liftE (require_immutable_precondition (headers_str S) headers) w0 = (Inr x, t)"
        "liftE (parse_action_digest (sv_protocol S) parts) t = (Inr a, t')"
      then have "t' = w0" by simp
      with checks [OF w0, of a ns] show "safe t' (snd ((if ar_version r \<noteq> 1 \<or> ar_action r \<noteq> a
        then throwE (bad_request ''action result does not match request'')
        else bindE (validate_action_descriptor S ns a) (\<lambda>kind.
         bindE (liftE (validate_action_result_shape r kind)) (\<lambda>_.
         bindE (if_some (ar_metadata r) (\<lambda>d. validate_client_metadata S ns d kind)) (\<lambda>_.
         bindE (if_some (ar_output_root r) (validate_tree S ns)) (\<lambda>_. tail ns a))))) t'))"
        by (cases "ar_version r \<noteq> 1 \<or> ar_action r \<noteq> a") (auto simp: preorder_rel_refl)
    qed
  qed
qed

lemma get_action_result_step: "moves (step N) (get_action_result S headers parts)"
  unfolding get_action_result_def
  by (intro moves_bind step_preorder authorized_step moves_lift moves_internalE ms_get_step moves_case_option
      on_metrics_step moves_throw moves_return)

lemma batch_action_results_step: "moves (step N) (batch_action_results S headers ds)"
  unfolding batch_action_results_def
  by (intro moves_bind step_preorder authorized_step moves_lift moves_if moves_throw moves_internalE ms_get_batch_step
      on_metrics_step moves_return)

lemma get_action_manifest_step: "moves (step N) (get_action_manifest S headers parts)"
  unfolding get_action_manifest_def
  by (intro moves_bind step_preorder authorized_step moves_lift moves_internalE ms_get_manifest_step moves_return)

lemma metrics_reply_untouched: "moves untouched (metrics_reply S)"
  unfolding metrics_reply_def
proof (intro moves_bind untouched_preorder moves_modify moves_return)
  show "untouched s (case ms_pool_stats (sv_metadata S) (w_metadata s) of None \<Rightarrow> s
      | Some stats \<Rightarrow> s\<lparr>w_metrics := set_database_pool stats (w_metrics s)\<rparr>)" for s
    by (simp add: untouched_def split: option.split)
qed (simp add: moves_def untouched_def)

lemma flush_step: "step N w (flush_world S w)"
proof -
  obtain k p m where f: "flush (sv_protocol S) (sv_metadata S) (w_pending w, w_metadata w) = (k, p, m)"
    by (metis prod_cases3)
  then obtain k' where t: "touch_each (sv_metadata S) (flush_calls (max_batch_items (sv_protocol S)) (w_pending w)) 0 (w_metadata w) = (k', m)"
    by (auto simp: flush_def split: prod.splits)
  show ?thesis
    using touch_each_frame [OF metadata.metadata_contract_axioms _ t]
    by (auto simp: flush_world_def f step_def world_ok_def blobs_kept_def same_outside_def)
qed

lemma commit_manifest_safe: "moves safe (on_metadata (ms_commit_manifest (sv_metadata S) ns k expected etag m))"
proof (rule moves_any)
  fix w :: "('b, 'm) world" and r v assume "on_metadata (ms_commit_manifest (sv_metadata S) ns k expected etag m) w = (r, v)"
  then obtain n where c: "ms_commit_manifest (sv_metadata S) ns k expected etag m (w_metadata w) = (r, n)"
    and v: "v = w\<lparr>w_metadata := n\<rparr>" by (auto simp: result_simps)
  show "safe w v"
  proof (rule safeI)
    assume "sound_world w"
    then have ok: "mok (w_metadata w)" "world_ok w" by (simp_all add: sound_world_def world_ok_def)
    from metadata.commit_manifest [OF ok(1) c] have n: "mok n" "visible n = visible (w_metadata w)" "result n = result (w_metadata w)"
      by blast+
    with ok show "world_ok v" "blobs_kept (w_blobs w) (w_blobs v)" by (simp_all add: v world_ok_def blobs_kept_def)
    from n show "visible (w_metadata w) ns' d \<Longrightarrow> visible (w_metadata v) ns' d" for ns' d by (simp add: v)
    from n show "visible (w_metadata v) ns' d \<Longrightarrow> visible (w_metadata w) ns' d
        \<or> digest_ok (sv_protocol S) d \<and> held (w_blobs v) d \<noteq> None" for ns' d by (simp add: v)
    from n show "result (w_metadata v) ns' a = Some x \<Longrightarrow> result (w_metadata w) ns' a = Some x
        \<or> ar_action x = a \<and> stored_result ns' x v" for ns' a x by (simp add: v)
  qed
qed

lemma put_action_manifest_moves:
  assumes pre: "preorder_rel R" and calm: "\<And>w v. untouched w v \<Longrightarrow> R w v"
    and commit: "\<And>ns k expected etag m. namespace_header S headers = Some ns \<Longrightarrow>
      moves R (on_metadata (ms_commit_manifest (sv_metadata S) ns k expected etag m) :: (('b, 'm) world, anyhow, manifest_commit_outcome) comp)"
  shows "moves R (put_action_manifest S headers parts body)"
proof -
  have auth: "moves R (authorized S headers Write)"
    by (rule moves_any) (rule calm, rule moves_step [OF untouched_prims(6)])
  have reply: "moves R (case out of ManifestPreconditionFailed \<Rightarrow> throwE e | ManifestCreated \<Rightarrow> returnE a | ManifestUpdated \<Rightarrow> returnE b)"
    for out and e :: api_error and a b :: "unit reply"
    by (cases out) (simp_all add: moves_return [OF pre] moves_throw [OF pre])
  show ?thesis
    unfolding put_action_manifest_def Let_def
    by (rule authorized_bind_moves [OF pre auth])
      (intro moves_bind pre moves_lift moves_if moves_throw moves_internalE commit reply)
qed

lemma put_action_manifest_safe: "moves safe (put_action_manifest S headers parts body)"
  by (rule put_action_manifest_moves [OF safe_preorder untouched_safe commit_manifest_safe])

section \<open>Streams\<close>

text \<open>The relation of a stream: the cache stays sound and its entries stay listed.\<close>

definition streams_safe :: "string \<Rightarrow> (bytes \<times> digest) set \<Rightarrow> ('b, 'm) world \<Rightarrow> ('b, 'm) world \<Rightarrow> bool" where
  "streams_safe ns es w v \<longleftrightarrow> (sound_world w \<and> (\<forall>e \<in> es. visible (w_metadata w) ns (snd e)) \<longrightarrow> safe w v)"

lemma streams_safe_preorder: "preorder_rel (streams_safe ns es)"
proof (rule preorder_relI)
  show "streams_safe ns es w w" for w by (simp add: streams_safe_def preorder_rel_refl)
  show "streams_safe ns es w v" if "streams_safe ns es w u" "streams_safe ns es u v" for w u v
    using that safe_trans [of w u v] safe_sound [of w u] safe_visible [of w u]
    unfolding streams_safe_def by blast
qed

lemma read_entry_safe:
  assumes "e \<in> es" shows "moves (streams_safe ns es) (read_entry S ns e)"
proof (rule moves_any)
  fix w r v assume run: "read_entry S ns e w = (r, v)"
  show "streams_safe ns es w v"
    unfolding streams_safe_def
  proof (intro impI, elim conjE)
    assume w: "sound_world w" and listed: "\<forall>e \<in> es. visible (w_metadata w) ns (snd e)"
    obtain s u where n: "(instant_now w :: (io_error + nat) \<times> _) = (Inr s, u)" "w_blobs u = w_blobs w" "w_metadata u = w_metadata w"
      using instant_now_total by blast
    have wu: "safe w u" by (rule untouched_safe) (simp add: untouched_def n)
    obtain q t where g: "on_blobs (bs_get (sv_blobs S) (snd e)) u = ((q :: anyhow + blob option), t)" by fastforce
    have get: "moves safe (on_blobs (bs_get (sv_blobs S) (snd e)))"
    proof (rule moves_safe, rule on_blobs_step)
      fix b r c assume b: "bok b" and run: "bs_get (sv_blobs S) (snd e) b = (r, c)"
      then have "bok c" using blobs.get_ok [OF b, of "snd e"] by simp
      moreover have "held c d = Some x" if "digest_ok (sv_protocol S) d" "held b d = Some x" for d x
        using blobs.get_keeps [OF b that, of "snd e"] run by simp
      ultimately show "bok c \<and> blobs_kept b c" by (simp add: blobs_kept_def)
    qed
    have ut: "safe u t" by (rule moves_step [OF get g])
    have u: "sound_world u" by (rule safe_sound [OF wu w])
    have "get_stored S (snd e) u = (map_err internal q, t)" by (simp add: get_stored_def internalE_def g)
    with found_safe [OF u, of ns "snd e"] listed assms n(3) have found: "q \<noteq> Inr None" by (auto simp: map_err_def)
    have err: "moves safe (bindE instant_now (\<lambda>now. bindE (on_metrics (f now)) (\<lambda>_. throwE x)) :: (('b, 'm) world, io_error, bytes \<times> blob) comp)" for f x
      by (intro moves_bind safe_preorder moves_safe [OF instant_now_step] moves_safe [OF on_metrics_step] moves_throw)
    have hit: "moves safe (bindE instant_now (read_outcome S ns e s (Some b)))" for b
      unfolding read_outcome_def option.case
      by (intro moves_bind safe_preorder moves_safe [OF instant_now_step] moves_safe [OF on_metrics_step] moves_if moves_throw moves_return)
    have tv: "safe t v"
    proof (cases q)
      case (Inl x)
      with run n g have "bindE instant_now (\<lambda>now. bindE (on_metrics (observe_pack_storage_get ''error'' (now - s))) (\<lambda>_.
          throwE (StoreError x))) t = (r, v)" by (simp add: read_entry_def bindE_def [of instant_now] handleE_def)
      with err show ?thesis by (rule moves_step)
    next
      case (Inr f)
      with found obtain b where b: "f = Some b" by (cases f) auto
      with Inr run n g have "bindE instant_now (read_outcome S ns e s (Some b)) t = (r, v)"
        by (simp add: read_entry_def bindE_def [of instant_now] handleE_def)
      with hit show ?thesis by (rule moves_step)
    qed
    show "safe w v" by (rule safe_trans [OF safe_trans [OF wu ut] tv])
  qed
qed

definition stream_listed :: "'m \<Rightarrow> pack_stream \<Rightarrow> bool" where
  "stream_listed m st \<longleftrightarrow> (\<forall>e \<in> set (ps_entries st). visible m (ps_namespace st) (snd e))"

lemma run_pack_stream_safe:
  assumes "sound_world w" and "stream_listed (w_metadata w) st" and "run_pack_stream S st polls w = (items, v)"
  shows "safe w v"
proof -
  have "streams_safe (ps_namespace st) (set (ps_entries st)) w v"
  proof (rule run_pack_stream_moves [OF streams_safe_preorder _ read_entry_safe assms(3)])
    show "streams_safe (ps_namespace st) (set (ps_entries st)) w v" if "w_blobs v = w_blobs w" "w_metadata v = w_metadata w" for w v
      using untouched_safe [of w v] that by (simp add: streams_safe_def untouched_def)
  qed
  with assms(1,2) show ?thesis by (simp add: streams_safe_def stream_listed_def)
qed

lemma pack_blobs_step: "moves (step N) (pack_blobs S headers ds)"
proof -
  have start: "moves (step N) (start_response S ns started requested n found)" for ns started requested n found
    by (rule step_same) (auto simp: start_response_def drop_guard_stores split: prod.split sum.split)
  have vis: "moves (step N) (visible_for_pack S ns requested)" for ns requested
    unfolding visible_for_pack_def
    by (intro moves_bind step_preorder instant_now_step moves_handle ms_visible_blobs_step on_metrics_step moves_throw moves_return)
  have rest: "moves (step N) (case x of (requested, n) \<Rightarrow> bindE (visible_for_pack S ns requested) (\<lambda>found.
      bindE (on_pending (record_access ns found)) (\<lambda>_. start_response S ns started requested n found)))" for x ns started
    by (cases x; simp) (intro moves_bind step_preorder vis on_pending_step start)
  show ?thesis
    unfolding pack_blobs_def
    by (intro moves_bind step_preorder instant_now_step authorized_step moves_if moves_throw moves_lift rest)
qed

lemma pack_blobs_listed:
  assumes "world_ok w" and "pack_blobs S headers ds w = (Inr rep, v)"
  shows "stream_listed (w_metadata v) (rp_body rep)"
proof -
  obtain ns requested g p where req: "\<forall>d \<in> set requested. digest_ok (sv_protocol S) d"
    and rep: "rep = pack_reply S ns g p" and p: "plan_pack (sv_protocol S) (filter (visible (w_metadata w) ns) requested) = Inr p"
    using pack_blobs_run [OF assms] by metis
  have "step {} w v" by (rule moves_step [OF pack_blobs_step assms(2)])
  then have "visible (w_metadata v) ns = visible (w_metadata w) ns" using assms(1) by (simp add: step_def same_outside_def)
  moreover have "pp_entries p = planned (sv_protocol S) (filter (visible (w_metadata w) ns) requested)"
    by (rule plan_pack_run(1) [OF protocol p]) (use req in auto)
  ultimately show ?thesis by (auto simp: stream_listed_def rep pack_reply_def planned_def)
qed

section \<open>The service\<close>

lemma router_safe:
  assumes "packs_fit" and "request_fits request" shows "moves safe (router S request)"
proof -
  have r: "moves safe (respond c m)" if "moves safe m" for c :: "'x \<Rightarrow> response" and m
    unfolding respond_def by (intro moves_bind safe_preorder that moves_return)
  show ?thesis
    using assms
    by (cases request; simp add: router_def;
      intro r moves_return safe_preorder get_blob_safe put_blob_safe put_blob_pack_safe put_action_result_safe put_action_manifest_safe
        moves_safe [OF missing_blobs_step] moves_safe [OF pack_blobs_step] moves_safe [OF get_action_result_step]
        moves_safe [OF batch_action_results_step] moves_safe [OF get_action_manifest_step] quiet_safe [OF metrics_reply_untouched])
qed

definition sound_service :: "('b, 'm) service \<Rightarrow> bool" where
  "sound_service s \<longleftrightarrow> sound_world (se_world s) \<and> (\<forall>st \<in> set (se_streams s). stream_listed (w_metadata (se_world s)) st)"

lemma stream_listed_safe: "safe w v \<Longrightarrow> sound_world w \<Longrightarrow> stream_listed (w_metadata w) st \<Longrightarrow> stream_listed (w_metadata v) st"
  by (auto simp: safe_def stream_listed_def)

lemma router_opened:
  assumes "world_ok w" and "router S request w = (r, v)" and "st \<in> set (opened r)"
  shows "stream_listed (w_metadata v) st"
proof -
  from assms(3) obtain rep where rep: "r = Inr (PackReply rep)" "st = rp_body rep" by (cases r rule: opened.cases) auto
  with assms(2) obtain headers ds where "request = PackBlobs headers ds" "pack_blobs S headers ds w = (Inr rep, v)"
    by (cases request) (auto simp: router_def respond_def result_simps)
  with pack_blobs_listed [OF assms(1)] rep(2) show ?thesis by blast
qed

lemma service_step_sound:
  assumes "packs_fit" and "sound_service s" and "service_step S s t"
  shows "sound_service t \<and> safe (se_world s) (se_world t)"
proof -
  let ?w = "se_world s"
  have w: "sound_world ?w" and streams: "\<forall>st \<in> set (se_streams s). stream_listed (w_metadata ?w) st"
    using assms(2) by (simp_all add: sound_service_def)
  from assms(3) show ?thesis
  proof (cases rule: service_step.cases)
    case (answer request r v)
    have sv: "safe ?w v" by (rule moves_step [OF router_safe [OF assms(1) answer(2)] answer(3)])
    have "world_ok ?w" using w by (simp add: sound_world_def)
    from router_opened [OF this answer(3)] stream_listed_safe [OF sv w] streams safe_sound [OF sv w] sv
    show ?thesis by (auto simp: answer(1) sound_service_def)
  next
    case (stream st polls items v)
    have sv: "safe ?w v" by (rule run_pack_stream_safe [OF w _ stream(3)]) (use streams stream(2) in blast)
    from stream_listed_safe [OF sv w] streams safe_sound [OF sv w] sv
    show ?thesis by (auto simp: stream(1) sound_service_def dest!: notin_set_remove1)
  next
    case flush
    have sv: "safe ?w (flush_world S ?w)" by (rule step_safe [OF flush_step])
    from stream_listed_safe [OF sv w] streams safe_sound [OF sv w] sv
    show ?thesis by (auto simp: flush sound_service_def)
  qed
qed

lemma serves_sound:
  assumes "packs_fit" and "serves S s t" and "sound_service s"
  shows "sound_service t \<and> safe (se_world s) (se_world t)"
  using assms(2)
proof (induction rule: rtranclp_induct)
  case base
  then show ?case using assms(3) by (simp add: preorder_rel_refl)
next
  case (step t u)
  from service_step_sound [OF assms(1) _ step(2)] step(3) have "sound_service u" "safe (se_world t) (se_world u)" by blast+
  with step(3) safe_trans show ?case by blast
qed

end

end
