(* ===== verification/Service_Spec.thy ===== *)
theory Service_Spec
  imports Cache_Soundness Pack_Upload_Spec
begin

text \<open>
  The properties of the service as a whole: the cache stays sound under any requests, a hit is complete,
  and a namespace only gains what a client with write access to it put there.
\<close>

section \<open>Who may change what\<close>

context cache_server begin

text \<open>Only in the namespaces of \<open>N\<close> can anything appear or a manifest change.\<close>

definition gains :: "string set \<Rightarrow> ('b, 'm) world \<Rightarrow> ('b, 'm) world \<Rightarrow> bool" where
  "gains N w v \<longleftrightarrow> (world_ok w \<longrightarrow> world_ok v \<and> (\<forall>ns. ns \<notin> N \<longrightarrow>
     (\<forall>d. visible (w_metadata v) ns d \<longrightarrow> visible (w_metadata w) ns d)
     \<and> manifest (w_metadata v) ns = manifest (w_metadata w) ns
     \<and> (\<forall>a r. result (w_metadata v) ns a = Some r \<longrightarrow> result (w_metadata w) ns a = Some r)))"

lemma gains_preorder: "preorder_rel (gains N)"
  by (rule preorder_relI) (auto simp: gains_def)

lemma step_gains: "step N w v \<Longrightarrow> gains N w v"
proof -
  assume s: "step N w v"
  show "gains N w v"
    unfolding gains_def
  proof (intro impI conjI allI)
    assume w: "world_ok w"
    with s have v: "world_ok v" "same_outside N (w_metadata w) (w_metadata v)" by (simp_all add: step_def)
    then show "world_ok v" by blast
    fix ns assume "ns \<notin> N"
    with v(2) have o: "visible (w_metadata v) ns = visible (w_metadata w) ns" "manifest (w_metadata v) ns = manifest (w_metadata w) ns"
      "\<And>a. result (w_metadata v) ns a = result (w_metadata w) ns a \<or> result (w_metadata v) ns a = None"
      by (auto simp: same_outside_def)
    show "visible (w_metadata v) ns d \<Longrightarrow> visible (w_metadata w) ns d" for d by (simp add: o(1))
    show "manifest (w_metadata v) ns = manifest (w_metadata w) ns" by (rule o(2))
    show "result (w_metadata v) ns a = Some r \<Longrightarrow> result (w_metadata w) ns a = Some r" for a r using o(3) [of a] by auto
  qed
qed

lemma moves_gains: "moves (step N) m \<Longrightarrow> moves (gains N) m"
  by (simp add: moves_def step_gains)

lemma forget_gains: "moves (gains N) (forget_missing_blob S ns d)"
proof (rule moves_any)
  fix w :: "('b, 'm) world" and r :: "'e + unit" and v assume "forget_missing_blob S ns d w = (r, v)"
  then obtain q n where f: "ms_forget_blob (sv_metadata S) ns d (w_metadata w) = (q, n)" and v: "v = w\<lparr>w_metadata := n\<rparr>"
    by (auto simp: forget_missing_blob_def on_metadata_def focus_def split: prod.splits)
  show "gains N w v"
  proof (cases "world_ok w")
    case True
    then have "mok (w_metadata w)" by (simp add: world_ok_def)
    from metadata.forget [OF this f] have "mok n" "result n = result (w_metadata w)" "manifest n = manifest (w_metadata w)"
      "\<And>m e. visible n m e \<Longrightarrow> visible (w_metadata w) m e" by (auto split: if_splits)
    with True show ?thesis by (simp add: gains_def v world_ok_def)
  qed (simp add: gains_def)
qed

lemma get_blob_gains: "moves (gains {}) (get_blob S headers parts)"
  unfolding get_blob_def
  by (intro moves_bind gains_preorder moves_gains [OF authorized_step] moves_lift moves_gains [OF visible_in_step] moves_if
      moves_throw moves_gains [OF on_pending_step] moves_gains [OF get_stored_step] moves_case_option forget_gains
      moves_gains [OF on_metrics_step] moves_return)

lemma lookups_step:
  assumes "ns \<in> N" shows "lookups_move S ns (step N)"
proof -
  have "moves (step N) (read_object S ns d e)" for d e
    unfolding read_object_def
    by (intro moves_bind step_preorder visible_in_step moves_if moves_throw get_stored_step moves_case_option
        forget_missing_blob_step [OF assms] moves_lift)
  then show ?thesis
    unfolding lookups_move_def using step_preorder visible_in_step ms_visible_blobs_step by blast
qed

lemma put_action_result_step:
  assumes "\<And>ns. namespace_header S headers = Some ns \<Longrightarrow> ns \<in> N"
  shows "moves (step N) (put_action_result S headers parts r)"
proof -
  have reply: "moves (step N) (case out of CommitCreated \<Rightarrow> returnE (201 :: nat) | CommitAlreadyExists \<Rightarrow> returnE 204
      | CommitConflict \<Rightarrow> throwE e)" for out and e :: api_error
    by (cases out) (simp_all add: moves_return moves_throw)
  show ?thesis
    unfolding put_action_result_def
    by (rule authorized_bind_step, drule assms)
      (intro moves_bind step_preorder moves_lift moves_if moves_throw validate_descriptor_moves if_some_moves
        validate_metadata_moves validate_tree_moves lookups_step moves_internalE ms_commit_step on_metrics_step reply; assumption)
qed

lemma put_action_manifest_step:
  assumes "\<And>ns. namespace_header S headers = Some ns \<Longrightarrow> ns \<in> N"
  shows "moves (step N) (put_action_manifest S headers parts body)"
  by (rule put_action_manifest_moves [OF step_preorder untouched_step ms_commit_manifest_step [OF assms]])

lemma respond_moves: "preorder_rel R \<Longrightarrow> moves R m \<Longrightarrow> moves R (respond c m)"
  unfolding respond_def by (intro moves_bind moves_return)

lemma router_step:
  assumes "packs_fit" and "request_fits request"
  shows "moves (step {ns. request_namespace S request = Some ns}) (router S request)"
  using assms
  by (cases request; simp add: router_def request_namespace_def;
    intro respond_moves step_preorder moves_return get_blob_step put_blob_step put_blob_pack_step put_action_result_step
      put_action_manifest_step missing_blobs_step pack_blobs_step get_action_result_step batch_action_results_step
      get_action_manifest_step moves_any [OF untouched_step] moves_step [OF metrics_reply_untouched]; simp)

text \<open>A handler that asks for write access first changes nothing without it.\<close>

definition writes_authorized :: "header_map \<Rightarrow> ('b, 'm, 'a) handler \<Rightarrow> bool" where
  "writes_authorized headers m \<longleftrightarrow> (\<forall>w r v. m w = (r, v) \<longrightarrow> untouched w v
     \<or> (\<exists>ns. namespace_header S headers = Some ns \<and> access_allowed (sv_jwt S) (fst (w_auth w)) headers Write ns))"

lemma writes_authorizedI: "writes_authorized headers (bindE (authorized S headers Write) f)"
  unfolding writes_authorized_def
proof (intro allI impI)
  fix w r v assume run: "bindE (authorized S headers Write) f w = (r, v)"
  obtain q u where q: "authorized S headers Write w = (q, u)" by fastforce
  show "untouched w v \<or> (\<exists>ns. namespace_header S headers = Some ns \<and> access_allowed (sv_jwt S) (fst (w_auth w)) headers Write ns)"
  proof (cases q)
    case (Inl e)
    with q run have "v = u" by (simp add: bindE_def)
    with moves_step [OF untouched_prims(6) q] show ?thesis by simp
  next
    case (Inr ns)
    from authorized_run [OF q [unfolded Inr]] show ?thesis by blast
  qed
qed

lemma respond_writes: "writes_authorized headers m \<Longrightarrow> writes_authorized headers (respond c m)"
  by (force simp: writes_authorized_def respond_def bindE_def split: prod.splits sum.splits)

lemma put_handlers_write:
  "writes_authorized headers (put_blob S headers parts body)"
  "writes_authorized headers (put_blob_pack S headers body)"
  "writes_authorized headers (put_action_result S headers parts r)"
  "writes_authorized headers (put_action_manifest S headers parts body)"
  unfolding put_blob_def put_blob_pack_def put_action_result_def put_action_manifest_def
  by (rule writes_authorizedI)+

lemma router_writes:
  assumes "router S request w = (r, v)" and "\<not> gains {} w v"
  shows "\<exists>headers ns. request_headers request = Some headers \<and> namespace_header S headers = Some ns
    \<and> access_allowed (sv_jwt S) (fst (w_auth w)) headers Write ns"
proof -
  have quiet: False if "moves (gains {}) (router S request)" using moves_step [OF that assms(1)] assms(2) by blast
  have auth: ?thesis if "request_headers request = Some headers" "writes_authorized headers (router S request)" for headers
  proof -
    have "\<not> untouched w v" using assms(2) step_gains [OF untouched_step] by blast
    with that(2) assms(1) have "\<exists>ns. namespace_header S headers = Some ns
      \<and> access_allowed (sv_jwt S) (fst (w_auth w)) headers Write ns" unfolding writes_authorized_def by blast
    with that(1) show ?thesis by blast
  qed
  show ?thesis
  proof (cases request)
    case (PutBlob headers parts body)
    then show ?thesis
      by (intro auth) (simp, simp only: router_def request.case, rule respond_writes, rule put_handlers_write)
  next
    case (PutBlobPack headers body)
    then show ?thesis
      by (intro auth) (simp, simp only: router_def request.case, rule respond_writes, rule put_handlers_write)
  next
    case (PutActionResult headers parts x)
    then show ?thesis
      by (intro auth) (simp, simp only: router_def request.case, rule respond_writes, rule put_handlers_write)
  next
    case (PutActionManifest headers parts body)
    then show ?thesis
      by (intro auth) (simp, simp only: router_def request.case, rule respond_writes, rule put_handlers_write)
  next
    case (GetBlob headers parts)
    then have "moves (gains {}) (router S request)"
      by (simp add: router_def respond_moves [OF gains_preorder get_blob_gains])
    then show ?thesis using quiet by blast
  qed (use quiet in \<open>simp add: router_def moves_return [OF gains_preorder] respond_moves [OF gains_preorder]
      moves_gains [OF missing_blobs_step] moves_gains [OF pack_blobs_step] moves_gains [OF get_action_result_step]
      moves_gains [OF batch_action_results_step] moves_gains [OF get_action_manifest_step]
      moves_gains [OF moves_any [OF untouched_step [OF moves_step [OF metrics_reply_untouched]]]]\<close>)+
qed

end

section \<open>The sample service\<close>

definition sample_start :: "(fs, memory_metadata) service" where
  "sample_start = \<lparr>se_world = sample_world, se_streams = []\<rparr>"

definition sample_end :: "(fs, memory_metadata) service" where
  "sample_end = \<lparr>se_world = committed_world, se_streams = []\<rparr>"

lemma sample_serves: "serves sample_server sample_start sample_end"
proof (rule rtranclp_trans)
  have "service_step sample_server sample_start \<lparr>se_world = uploaded_world,
      se_streams = opened (Inr (CodeReply 201)) @ se_streams sample_start\<rparr>"
    by (rule service_step.answer [of "PutBlob put_headers sample_parts sample_body"])
      (simp_all add: chunks_fit_def sample_body_def router_def respond_def bindE_def sample_start_def
        sample_put_blob [unfolded sample_body_def])
  then show "serves sample_server sample_start \<lparr>se_world = uploaded_world, se_streams = []\<rparr>"
    by (simp add: sample_start_def r_into_rtranclp)
  have "service_step sample_server \<lparr>se_world = uploaded_world, se_streams = []\<rparr> \<lparr>se_world = committed_world,
      se_streams = opened (Inr (CodeReply 201)) @ se_streams \<lparr>se_world = uploaded_world, se_streams = []\<rparr>\<rparr>"
    by (rule service_step.answer [of "PutActionResult put_headers sample_parts sample_outcome"])
      (simp_all add: router_def respond_def bindE_def sample_put_result(1))
  then show "serves sample_server \<lparr>se_world = uploaded_world, se_streams = []\<rparr> sample_end"
    by (simp add: sample_end_def r_into_rtranclp)
qed

lemma sample_start_sound:
  "sample_blobs_ok (w_blobs (se_world sample_start))" "memory_ok reference_codec (w_metadata (se_world sample_start))"
  "cache_sound sample_server (fs_held reference_protocol sample_store (w_blobs (se_world sample_start)))
    (memory_visible (w_metadata (se_world sample_start))) (mem_result reference_codec (w_metadata (se_world sample_start)))"
  "se_streams sample_start = []"
  using sample_world_ok
  by (simp_all add: sample_start_def cache_sound_def) (simp_all add: sample_world_def memory_default_def mem_result_def)

section \<open>The cache stays sound\<close>

lemma service_sound_lemma:
  assumes "cache_server S bok held mok visible result manifest"
    and "unat (sv_max_blob_bytes S) < 2 ^ 63" and "max_batch_items (sv_protocol S) + 1 < 2 ^ 64"
    and "bok (w_blobs (se_world s))" and "mok (w_metadata (se_world s))"
    and "cache_sound S (held (w_blobs (se_world s))) (visible (w_metadata (se_world s))) (result (w_metadata (se_world s)))"
    and "se_streams s = []" and "serves S s t"
  shows "cache_server.sound_world S bok held mok visible result (se_world t)
    \<and> cache_server.safe S bok held mok visible result (se_world s) (se_world t)
    \<and> cache_server.sound_world S bok held mok visible result (se_world s)"
proof -
  note c = assms(1)
  have fit: "cache_server.packs_fit S" using assms(2,3) by (simp add: cache_server.packs_fit_def [OF c])
  have w: "cache_server.sound_world S bok held mok visible result (se_world s)"
    using assms(4-6) by (simp add: cache_server.sound_world_def [OF c] cache_server.world_ok_def [OF c])
  then have "cache_server.sound_service S bok held mok visible result s"
    using assms(7) by (simp add: cache_server.sound_service_def [OF c])
  from cache_server.serves_sound [OF c fit assms(8) this] w show ?thesis
    by (simp add: cache_server.sound_service_def [OF c])
qed

text \<open>
  C1. The cache stays sound, whatever is requested in whatever order: if at the start every listed blob is
  held with content that belongs under its digest and every committed result is closed, the same is true
  after any sequence of answered requests, streamed or abandoned pack responses and flushes, failures of
  the stores included; and no listed blob is lost or changed.
\<close>

theorem cache_stays_sound:
  assumes "cache_server S bok held mok visible result manifest"
    and "unat (sv_max_blob_bytes S) < 2 ^ 63" and "max_batch_items (sv_protocol S) + 1 < 2 ^ 64"
    and "bok (w_blobs (se_world s))" and "mok (w_metadata (se_world s))"
    and "cache_sound S (held (w_blobs (se_world s))) (visible (w_metadata (se_world s))) (result (w_metadata (se_world s)))"
    and "se_streams s = []" and "serves S s t"
  shows "cache_sound S (held (w_blobs (se_world t))) (visible (w_metadata (se_world t))) (result (w_metadata (se_world t)))
    \<and> (\<forall>ns d. visible (w_metadata (se_world s)) ns d \<longrightarrow>
        visible (w_metadata (se_world t)) ns d \<and> held (w_blobs (se_world t)) d = held (w_blobs (se_world s)) d)"
proof -
  note c = assms(1)
  note s = service_sound_lemma [OF assms]
  have "held (w_blobs (se_world t)) d = held (w_blobs (se_world s)) d" if "visible (w_metadata (se_world s)) ns d" for ns d
  proof -
    from cache_server.sound_held [OF c _ that] s obtain x where "digest_ok (sv_protocol S) d" "held (w_blobs (se_world s)) d = Some x"
      by blast
    with s show ?thesis by (simp add: cache_server.safe_def [OF c] cache_server.blobs_kept_def [OF c])
  qed
  with s show ?thesis by (simp add: cache_server.safe_def [OF c] cache_server.sound_world_def [OF c])
qed

theorem cache_stays_sound_witness:
  "cache_sound sample_server (fs_held reference_protocol sample_store (w_blobs committed_world))
    (memory_visible (w_metadata committed_world)) (mem_result reference_codec (w_metadata committed_world))"
  using cache_stays_sound [OF sample_contract sample_packs_fit sample_start_sound sample_serves]
  by (simp add: sample_end_def)

section \<open>A hit is complete\<close>

lemma get_action_result_run:
  assumes "cache_server S bok held mok visible result manifest" and "mok (w_metadata w)"
    and "get_action_result S headers parts w = (Inr r, v)"
  shows "\<exists>ns. access_allowed (sv_jwt S) (fst (w_auth w)) headers Read ns \<and> result (w_metadata w) ns (digest_of_parts parts) = Some r
    \<and> w_blobs v = w_blobs w \<and> visible (w_metadata v) = visible (w_metadata w)"
proof -
  from assms(3) obtain ns u a n where auth: "authorized S headers Read w = (Inr ns, u)"
    and a: "parse_action_digest (sv_protocol S) parts = Inr a"
    and g: "ms_get (sv_metadata S) ns a (w_metadata u) = (Inr (Some r), n)" and v: "w_blobs v = w_blobs u" "w_metadata v = n"
    by (auto simp: get_action_result_def result_simps on_metrics_def split: option.splits)
  note au = authorized_run [OF auth]
  from au(3) have u: "w_metadata u = w_metadata w" "w_blobs u = w_blobs w" by auto
  have "metadata_contract (sv_metadata S) mok visible result manifest" using assms(1) by (simp add: cache_server_def)
  from metadata_contract.get [OF this assms(2) g [unfolded u]]
  have "visible n = visible (w_metadata w)" "result (w_metadata w) ns a = Some r" by auto
  moreover have "a = digest_of_parts parts" using a by (cases parts) (simp add: parse_action_digest_ok digest_of_parts_def)
  ultimately show ?thesis using au(1) u v by auto
qed

text \<open>
  C2. A hit is complete: after any requests, a result the lookup answers is the result of the requested action,
  its client may read the namespace, and everything it names is there (\<open>result_stored\<close>): the action's
  descriptor, the client metadata with its output streams, and the whole output tree with all its files,
  each listed in the namespace and held with content that belongs under its digest.
\<close>

theorem hits_are_complete:
  assumes "cache_server S bok held mok visible result manifest"
    and "unat (sv_max_blob_bytes S) < 2 ^ 63" and "max_batch_items (sv_protocol S) + 1 < 2 ^ 64"
    and "bok (w_blobs (se_world s))" and "mok (w_metadata (se_world s))"
    and "cache_sound S (held (w_blobs (se_world s))) (visible (w_metadata (se_world s))) (result (w_metadata (se_world s)))"
    and "se_streams s = []" and "serves S s t" and "get_action_result S headers parts (se_world t) = (Inr r, v)"
  shows "\<exists>ns. access_allowed (sv_jwt S) (fst (w_auth (se_world t))) headers Read ns \<and> ar_action r = digest_of_parts parts
    \<and> result_stored S (held (w_blobs v)) (visible (w_metadata v) ns) r
    \<and> (\<forall>d. visible (w_metadata v) ns d \<longrightarrow> (\<exists>c. held (w_blobs v) d = Some c \<and> content_matches S d c))"
proof -
  note c = assms(1)
  have t: "mok (w_metadata (se_world t))"
    "cache_sound S (held (w_blobs (se_world t))) (visible (w_metadata (se_world t))) (result (w_metadata (se_world t)))"
    using service_sound_lemma [OF assms(1-8)]
    by (simp_all add: cache_server.sound_world_def [OF c] cache_server.world_ok_def [OF c])
  from get_action_result_run [OF c t(1) assms(9)] obtain ns where ns:
    "access_allowed (sv_jwt S) (fst (w_auth (se_world t))) headers Read ns"
    "result (w_metadata (se_world t)) ns (digest_of_parts parts) = Some r"
    "w_blobs v = w_blobs (se_world t)" "visible (w_metadata v) = visible (w_metadata (se_world t))" by blast
  from t(2) ns(2) have "ar_action r = digest_of_parts parts"
    "result_stored S (held (w_blobs (se_world t))) (visible (w_metadata (se_world t)) ns) r"
    unfolding cache_sound_def by blast+
  moreover from t(2) have "\<forall>d. visible (w_metadata (se_world t)) ns d \<longrightarrow>
      (\<exists>c. held (w_blobs (se_world t)) d = Some c \<and> content_matches S d c)"
    unfolding cache_sound_def by blast
  ultimately show ?thesis using ns by (intro exI [of _ ns]) simp
qed

lemma sample_lookup:
  "\<exists>v. get_action_result sample_server put_headers sample_parts committed_world = (Inr sample_outcome, v)"
proof -
  have listed: "\<forall>ns d. memory_visible (w_metadata uploaded_world) ns d \<longrightarrow> digest_ok (sv_protocol sample_server) d"
    using sample_blake_ok by (simp add: uploaded_world_def)
  obtain ns where acc: "access_allowed sample_jwt (fst (w_auth uploaded_world)) put_headers Write ns"
    and res: "mem_result reference_codec (w_metadata committed_world) ns sample_blake = Some sample_outcome"
    using result_closed_lemma [OF sample_contract uploaded_world_ok listed sample_put_result(1)]
    by (auto simp: sample_outcome_def)
  from acc have "ns = ''team/app''"
    by (simp add: access_allowed_def header_str_def put_headers_def sample_headers_def sample_jwt_def)
  have ca: "authorized sample_server put_headers Read committed_world = (Inr ''team/app'', committed_world)"
    by (rule sample_authorized) (simp add: committed_auth uploaded_world_def sample_world_def)
  have parse: "parse_action_digest reference_protocol sample_parts = Inr sample_blake"
    using sample_blake_ok by (simp add: sample_parts_def parse_action_digest_ok sample_blake_def)
  obtain found n where g: "mem_get reference_codec ''team/app'' sample_blake (w_metadata committed_world) = (found, n)" by fastforce
  with res \<open>ns = ''team/app''\<close> have "found = Inr (Some sample_outcome)"
    by (auto simp: mem_get_def mem_result_def split: option.splits sum.splits)
  with g show ?thesis
    by (simp add: get_action_result_def ca parse internalE_def on_metadata_def focus_def memory_store_def on_metrics_def)
qed

theorem hits_are_complete_witness:
  "\<exists>v ns. get_action_result sample_server put_headers sample_parts committed_world = (Inr sample_outcome, v)
    \<and> result_stored sample_server (fs_held reference_protocol sample_store (w_blobs v)) (memory_visible (w_metadata v) ns) sample_outcome"
proof -
  obtain v where run: "get_action_result sample_server put_headers sample_parts (se_world sample_end) = (Inr sample_outcome, v)"
    using sample_lookup by (auto simp: sample_end_def)
  from hits_are_complete [OF sample_contract sample_packs_fit sample_start_sound sample_serves run] run
  show ?thesis by (auto simp: sample_end_def)
qed

section \<open>Namespaces are isolated\<close>



end
