(* ===== verification/Tree_Walk.thy ===== *)
theory Tree_Walk
  imports Directory_Tree
begin

text \<open>
  How long \<open>validate_tree\<close> runs. The walk is a total function; \<open>walk_reads\<close> is its run as a relation,
  with the number of directory objects the visits asked for.
\<close>

definition visit_reads :: "visit \<Rightarrow> walk \<Rightarrow> nat" where
  "visit_reads v k =
     (case v of
        Exit _ \<Rightarrow> 0
      | Enter d \<Rightarrow> if d \<notin> set (wk_seen k) \<and> d \<notin> set (wk_visiting k)
            \<and> length (wk_seen k) + length (d # wk_visiting k) \<le> max_tree_directories then 1 else 0)"

inductive walk_reads :: "('b, 'm, 'h) server \<Rightarrow> string \<Rightarrow> walk \<Rightarrow> ('b, 'm) world \<Rightarrow> nat
    \<Rightarrow> (api_error + unit) \<times> ('b, 'm) world \<Rightarrow> bool" for S ns where
  finished: "wk_pending k = [] \<Longrightarrow> walk_reads S ns k w 0 (Inr (), w)"
| failed: "wk_pending k = v # vs \<Longrightarrow> visit_step S ns v (k\<lparr>wk_pending := vs\<rparr>) w = (Inl e, w') \<Longrightarrow>
    walk_reads S ns k w (visit_reads v k) (Inl e, w')"
| visited: "wk_pending k = v # vs \<Longrightarrow> visit_step S ns v (k\<lparr>wk_pending := vs\<rparr>) w = (Inr k', w') \<Longrightarrow>
    walk_reads S ns k' w' n out \<Longrightarrow> walk_reads S ns k w (visit_reads v k + n) out"

text \<open>A visit that reads adds a directory to the walk, and there is room for it.\<close>

lemma walked_length: "card (walked k) \<le> length (wk_seen k) + length (wk_visiting k)"
proof -
  have "card (walked k) \<le> card (set (wk_visiting k)) + card (set (wk_seen k))" by (simp add: walked_def card_Un_le)
  then show ?thesis using card_length [of "wk_visiting k"] card_length [of "wk_seen k"] by simp
qed

lemma visit_reads_room: "visit_reads v k + card (walked k) \<le> max max_tree_directories (card (walked k))"
  using walked_length [of k] by (auto simp: visit_reads_def split: visit.split)

lemma visit_reads_walked:
  assumes "visit_step S ns v (k\<lparr>wk_pending := vs\<rparr>) w = (Inr k', w')"
  shows "visit_reads v k + card (walked k) \<le> card (walked k')"
proof (cases v)
  case (Exit d)
  then have "walked k' = insert d (walked k)" using assms by (auto simp: visit_step_def walked_def)
  then show ?thesis by (simp add: Exit visit_reads_def card_insert_le walked_def)
next
  case (Enter d)
  show ?thesis
  proof (cases "d \<in> set (wk_seen k)")
    case True
    then have "k' = k\<lparr>wk_pending := vs\<rparr>" using Enter assms by (simp add: visit_step_def)
    with True show ?thesis by (simp add: Enter visit_reads_def walked_def)
  next
    case False
    with Enter assms have d: "d \<notin> set (wk_visiting k)"
      and k': "wk_visiting k' = d # wk_visiting k" "wk_seen k' = wk_seen k"
      by (auto simp: visit_step_def result_simps split: if_splits)
    have "card (walked k') = Suc (card (walked k))" using False d by (simp add: walked_def k')
    then show ?thesis by (simp add: Enter visit_reads_def)
  qed
qed

lemma walk_tree_reads:
  "\<exists>n. walk_reads S ns k w n (walk_tree S ns k w) \<and> n + card (walked k) \<le> max max_tree_directories (card (walked k))"
proof (induction S ns k w rule: walk_tree.induct)
  case (1 S ns k w)
  show ?case
  proof (cases "wk_pending k")
    case Nil
    then show ?thesis by (intro exI [of _ 0]) (simp add: walk_tree.simps walk_reads.finished)
  next
    case (Cons v vs)
    obtain r u where r: "visit_step S ns v (k\<lparr>wk_pending := vs\<rparr>) w = (r, u)" by fastforce
    show ?thesis
    proof (cases r)
      case (Inl e)
      with Cons r have "walk_tree S ns k w = (Inl e, u)" by (subst walk_tree.simps) simp
      with walk_reads.failed [OF Cons r [unfolded Inl]] visit_reads_room show ?thesis by fastforce
    next
      case (Inr k')
      with Cons r have t: "walk_tree S ns k w = walk_tree S ns k' u" by (subst walk_tree.simps) simp
      from "1.IH" [OF Cons r [symmetric] Inr] obtain n where
        n: "walk_reads S ns k' u n (walk_tree S ns k' u)" "n + card (walked k') \<le> max max_tree_directories (card (walked k'))" by blast
      have "visit_reads v k + n + card (walked k) \<le> max max_tree_directories (card (walked k))"
        using n(2) visit_reads_walked [OF r [unfolded Inr]] visit_reads_room [of v k] by (simp add: max_def split: if_splits)
      with walk_reads.visited [OF Cons r [unfolded Inr] n(1)] t show ?thesis by (intro exI conjI) simp_all
    qed
  qed
qed


end
