(* ===== verification/Spec2Isabelle.thy ===== *)
theory Spec2Isabelle
  imports Pack_Spec Auth_Spec Object_Stores Postgres_Spec Deployment Startup Blob_Spec Pack_Download_Spec Action_Commit Pack_Upload_Spec Pack_Spool Service_Spec Tree_Walk
begin

text \<open>
  The mbx-cache server: a remote build cache. Clients upload content-addressed blobs, one by one or many
  in a framed \<^emph>\<open>pack\<close>, commit the \<^emph>\<open>action results\<close> that name them, and look both up again. This
  library models the server's own code under \<open>src/\<close> and proves what makes it a correct cache: nothing is
  stored that does not hash to its name, nothing is answered that is not stored completely, a namespace
  is written only by those who may, and limits are kept.

  \<^bold>\<open>Parts of the program and the theories that model them\<close>

  \<^item> \<open>src/pack.rs\<close>, the incremental reader of uploaded packs: \<open>Pack\<close> (\<open>new_reader\<close>, \<open>fill\<close>,
    \<open>parse_header\<close>, \<open>pack_iter\<close> for one round of its loop, \<open>push\<close>, \<open>finish\<close>). \<open>Pack_Reader\<close> and
    \<open>Pack_Frames\<close> hold its invariant \<open>reader_ok\<close>, the conservation of bytes and the independence of chunk
    boundaries, \<open>Pack_Spec\<close> the format (\<open>encode_pack\<close>) that the reader implements.
  \<^item> \<open>src/model.rs\<close>, the validation of action descriptors and metadata: \<open>Model\<close>. The types it shares
    with the protocol crate are in \<open>Protocol\<close>.
  \<^item> \<open>src/auth.rs\<close>, grants, OIDC providers and their key cache: \<open>Auth\<close>, its guarantees \<open>Auth_Spec\<close>.
  \<^item> \<open>src/storage/\<close>: the trait \<open>BlobStore\<close>, its contract (locale \<open>blob_storage\<close>) and the filesystem store
    in \<open>Storage\<close>; S3, Google Cloud Storage and Azure in \<open>Object_Stores\<close>.
  \<^item> \<open>src/metadata/\<close>: the trait \<open>MetadataStore\<close>, its contract (locale \<open>metadata_contract\<close>) and the
    in-memory store in \<open>Metadata\<close>, the encoders in \<open>Codec\<close>; PostgreSQL in \<open>Postgres\<close>, statement by
    statement over the tables of \<open>src/migrations/\<close>, its guarantees in \<open>Postgres_Spec\<close>.
  \<^item> \<open>src/metrics.rs\<close>: \<open>Metrics\<close>, with the guard of a pack response.
  \<^item> \<open>src/server.rs\<close>: \<open>ApiError\<close>, preconditions and digests of a path in \<open>Api_Error\<close>; \<open>SpoolBudget\<close> and
    \<open>PendingAccess\<close> in \<open>Admission\<close>; the state, the short handlers and the lookups in \<open>Server\<close>; \<open>put_blob\<close>
    and \<open>put_blob_pack\<close> in \<open>Uploads\<close>; \<open>pack_blobs\<close> and its stream in \<open>Pack_Download\<close>; \<open>validate_tree\<close> in
    \<open>Directory_Tree\<close>; \<open>put_action_result\<close> and its validations in \<open>Action_Results\<close>; the router and the
    service as a state machine in \<open>Service\<close>.
  \<^item> \<open>src/config.rs\<close>, the constructors of the stores, \<open>AppState::new\<close> and \<open>src/main.rs\<close> up to the router:
    \<open>Startup\<close>.

  \<^bold>\<open>How they interact\<close>

  A handler is a computation \<open>'s \<Rightarrow> ('e + 'a) \<times> 's\<close> (\<open>Prelude\<close>) over the record \<open>world\<close>: the states of the
  blob store, the metadata store and the authorizer, the metrics, the pending accesses, the spool budget
  and the environment. An error keeps the effects made before it. \<open>AppState\<close>'s fixed part is the record
  \<open>server\<close>, whose fields are the operations of the two stores and the functions of the crates. The locale
  \<open>cache_server\<close> (\<open>Server_Frame\<close>) puts a server's two contracts together; what is proved of the handlers
  is proved in it, for every pair of stores. It is interpreted on the filesystem with the in-memory store
  (\<open>Sample_Server\<close>, which also runs the witnesses) and on the filesystem with PostgreSQL (\<open>Deployment\<close>).

  The environment enters as data: what a file system or a store answers to each call, which statements
  of the database fail, what other uploads publish in the shared directory between two system calls, how
  long things take (\<open>w_ticks\<close>), which spawned store tasks of a pack run in the background (\<open>w_progress\<close>),
  how far a client reads a response (\<open>polls\<close>). The theorems quantify over it.

  \<^bold>\<open>What the groups of lemmas show\<close>

  \<^item> The service (\<open>Cache_Soundness\<close>, \<open>Service_Spec\<close>): \<open>cache_sound\<close> is kept by any requests in any order, a
    hit is complete, namespaces are isolated. \<open>step N\<close> and \<open>safe\<close> are the relations every handler is
    shown to follow, composed by the rules of \<open>moves\<close> in the prelude.
  \<^item> Action results (\<open>Result_Closure\<close>, \<open>Action_Commit\<close>, \<open>Tree_Walk\<close>): the walk of an output tree accepts
    only the inductively defined complete trees (\<open>tree_stored\<close>), and ends after at most
    \<open>max_tree_directories\<close> reads.
  \<^item> Uploads (\<open>Blob_Requests\<close>, \<open>Blob_Spec\<close>, \<open>Pack_Upload\<close>, \<open>Pack_Upload_Spec\<close>, \<open>Pack_Spool\<close>): what is acknowledged was
    verified and is stored; what does not match leaves no trace; every upload gives back its room of the
    spool, however it ends.
  \<^item> Downloads (\<open>Blob_Spec\<close>, \<open>Pack_Delivery\<close>, \<open>Pack_Download_Spec\<close>): what is delivered is authentic, the
    headers of a pack response are exact, the reader of \<open>Pack\<close> reads the response back.
  \<^item> Stores: the filesystem is crash safe under concurrent publication; the object stores create only;
    PostgreSQL answers as the in-memory store does, and a sweep leaves no dangling result.
  \<^item> Authorization, admission and the pending accesses: soundness of grants, the rate of key fetches, the
    bounds on what is spooled and remembered.

  \<^bold>\<open>Integers, bounds and termination\<close>

  Integers have the width of the code (\<open>u8\<close>, \<open>u32\<close>, \<open>u64\<close> words, \<open>usize\<close> as a 64-bit number where it is
  counted); \<open>checked_add\<close> and the saturating operations are written out, and \<open>digest.size as i64\<close> wraps.
  No definition takes fuel: the reader's loop, the walk of a tree and every loop over a list are total
  functions with their termination proofs. Two side conditions on a configuration recur: a blob limit
  below \<open>2 ^ 63\<close> and \<open>max_batch_items + 1 < 2 ^ 64\<close>, under which the counters of a pack do not wrap.

  \<^bold>\<open>Parameters\<close>

  Code that is not in the repository is a parameter, with what is relied on as a named hypothesis: the
  protocol crate (\<open>protocol_ok\<close>), \<open>serde_json\<close> (\<open>codec_ok\<close>, \<open>result_fields_ok\<close>), the hash functions
  (\<open>hasher_ok\<close>: incremental hashing is hashing of the concatenation), \<open>jsonwebtoken\<close>, the clients of the
  clouds (\<open>s3_conforms\<close>, \<open>objects_conform\<close>), \<open>clap\<close> (\<open>config_accepted\<close>). Each has an instance the
  witnesses use.

  \<^bold>\<open>Not modelled\<close>

  \<^item> The HTTP layers around the router (tracing, time-outs, compression, body limits), TLS, the listener
    and the shutdown signals, logging, and the text encoding of the metrics: libraries and I/O. The body
    limits of the router are hypotheses on requests (\<open>request_fits\<close>).
  \<^item> The migration \<open>0002_flatten_action_results.sql\<close>: \<open>sqlx\<close> runs it once, before the tables the model
    starts from.
  \<^item> Concurrency inside one database transaction: requests to PostgreSQL run one after another; a failed
    statement is one that had no effect. Requests of the server interleave at the operations of the
    stores, through the state of the store.
  \<^item> Sweeping while serving: a sweep is an operator's run of its own, and it may leave nested directories
    of a result unlisted, which the code accepts as a miss.
  \<^item> The tests of the repository.
\<close>

end
